(* ===== verification/Prelude.thy ===== *)
theory Prelude
  imports Main "HOL-Library.Word" "HOL-Library.Sublist" "HOL-Library.Char_ord" "HOL-Library.List_Lexorder"
begin

text \<open>
  Shared material: the faults a C++ statement can end in, the result type of fallible code with
  its sequencing operator, and the generic lemmas on lists and characters every component uses.
\<close>

section \<open>Faults and results\<close>

text \<open>
  The program never throws an exception of its own and checks few of its library calls. A
  statement therefore ends in a value or in one of these faults: an access outside an array,
  a use of a null pointer, a use of memory that was never initialised or no longer exists, an
  exception of a library that nothing catches, a wait that nobody ends, or an assertion that fails.
\<close>

datatype fault = OutOfBounds | NullDeref | Uninit | Dangling | Thrown | WaitsForever | AssertFailed

type_synonym 'a res = "fault + 'a"

definition rbind :: "'a res \<Rightarrow> ('a \<Rightarrow> 'b res) \<Rightarrow> 'b res" where
  "rbind m k = (case m of Inl e \<Rightarrow> Inl e | Inr a \<Rightarrow> k a)"

definition ok :: "'a \<Rightarrow> 'a res" where
  "ok a = Inr a"

named_theorems res_simps "evaluation of sequenced results"

lemma rbind_Inl [simp, res_simps]: "rbind (Inl e) k = Inl e"
  by (simp add: rbind_def)

lemma rbind_Inr [simp, res_simps]: "rbind (Inr a) k = k a"
  by (simp add: rbind_def)

lemma rbind_ok [simp, res_simps]: "rbind (ok a) k = k a"
  by (simp add: ok_def)

lemma ok_eq_iff [simp]: "ok a = ok b \<longleftrightarrow> a = b"
  by (simp add: ok_def)

lemma ok_neq_Inl [simp]: "ok a \<noteq> Inl e" "Inl e \<noteq> ok a"
  by (simp_all add: ok_def)

lemma rbind_eq_ok_iff: "rbind m k = ok b \<longleftrightarrow> (\<exists>a. m = ok a \<and> k a = ok b)"
  by (cases m) (auto simp: rbind_def ok_def)

lemma rbind_eq_Inr_iff: "rbind m k = Inr b \<longleftrightarrow> (\<exists>a. m = Inr a \<and> k a = Inr b)"
  by (cases m) (auto simp: rbind_def)

lemma rbind_eq_Inl_iff:
  "rbind m k = Inl e \<longleftrightarrow> m = Inl e \<or> (\<exists>a. m = Inr a \<and> k a = Inl e)"
  by (cases m) (auto simp: rbind_def)

lemma rbind_InrE [consumes 1, case_names bound]:
  assumes "rbind m k = Inr b"
  obtains a where "m = Inr a" "k a = Inr b"
  using assms by (auto simp: rbind_eq_Inr_iff)

lemma rbind_assoc: "rbind (rbind m k) l = rbind m (\<lambda>a. rbind (k a) l)"
  by (cases m) (auto simp: rbind_def)

lemma rbind_cong [fundef_cong]:
  "m = m' \<Longrightarrow> (\<And>a. m' = Inr a \<Longrightarrow> k a = k' a) \<Longrightarrow> rbind m k = rbind m' k'"
  by (cases m') (auto simp: rbind_def)

section \<open>Stateful computations\<close>

text \<open>A computation that reads and updates a state and may end in a fault.\<close>

type_synonym ('s, 'a) stm = "'s \<Rightarrow> ('a \<times> 's) res"

definition sret :: "'a \<Rightarrow> ('s, 'a) stm" where
  "sret a s = Inr (a, s)"

definition sget :: "('s \<Rightarrow> 'a) \<Rightarrow> ('s, 'a) stm" where
  "sget f s = Inr (f s, s)"

definition smod :: "('s \<Rightarrow> 's) \<Rightarrow> ('s, unit) stm" where
  "smod f s = Inr ((), f s)"

definition sbind :: "('s, 'a) stm \<Rightarrow> ('a \<Rightarrow> ('s, 'b) stm) \<Rightarrow> ('s, 'b) stm" where
  "sbind m f s = rbind (m s) (\<lambda>(a, s'). f a s')"

definition slift :: "'a res \<Rightarrow> ('s, 'a) stm" where
  "slift r s = rbind r (\<lambda>a. Inr (a, s))"

named_theorems stm_simps "evaluation of stateful computations"

lemma sret_run [simp, stm_simps]: "sret a s = Inr (a, s)"
  by (simp add: sret_def)

lemma sget_run [simp, stm_simps]: "sget f s = Inr (f s, s)"
  by (simp add: sget_def)

lemma smod_run [simp, stm_simps]: "smod f s = Inr ((), f s)"
  by (simp add: smod_def)

lemma sbind_run [stm_simps]: "sbind m f s = rbind (m s) (\<lambda>(a, s'). f a s')"
  by (simp add: sbind_def)

lemma slift_Inr [simp, stm_simps]: "slift (Inr a) s = Inr (a, s)"
  by (simp add: slift_def)

lemma slift_Inl [simp, stm_simps]: "slift (Inl e) s = Inl e"
  by (simp add: slift_def)

lemma sbind_Inr: "m s = Inr (a, s') \<Longrightarrow> sbind m f s = f a s'"
  by (simp add: sbind_def)

lemma sbind_Inl: "m s = Inl e \<Longrightarrow> sbind m f s = Inl e"
  by (simp add: sbind_def)

lemma sbind_sret [simp]: "sbind (sret a) f = f a"
  by (simp add: sbind_def fun_eq_iff)

lemma sbind_eq_Inr_iff:
  "sbind m f s = Inr r \<longleftrightarrow> (\<exists>a s'. m s = Inr (a, s') \<and> f a s' = Inr r)"
  by (auto simp: sbind_def rbind_eq_Inr_iff)

section \<open>Words\<close>

lemma unat_of_nat_32: "n < 2 ^ 32 \<Longrightarrow> unat (of_nat n :: 32 word) = n"
  by (simp add: unat_of_nat take_bit_eq_mod)

lemma unat_less_32: "unat (u :: 32 word) < 2 ^ 32"
proof -
  have "unat u < 2 ^ LENGTH(32)" by (rule unsigned_less)
  then show ?thesis by simp
qed

section \<open>Generic list lemmas\<close>

lemma takeWhile_all_iff [simp]: "takeWhile P xs = xs \<longleftrightarrow> (\<forall>x \<in> set xs. P x)"
  by (rule takeWhile_eq_all_conv)

lemma dropWhile_append_stop:
  "(\<forall>x \<in> set xs. P x) \<Longrightarrow> \<not> P y \<Longrightarrow> dropWhile P (xs @ y # ys) = y # ys"
  by (induction xs) auto

lemma takeWhile_append_stop:
  "(\<forall>x \<in> set xs. P x) \<Longrightarrow> \<not> P y \<Longrightarrow> takeWhile P (xs @ y # ys) = xs"
  by (induction xs) auto

lemma dropWhile_id: "xs = [] \<or> \<not> P (hd xs) \<Longrightarrow> dropWhile P xs = xs"
  by (cases xs) auto

lemma filter_empty_iff: "filter P xs = [] \<longleftrightarrow> (\<forall>x \<in> set xs. \<not> P x)"
  by (induction xs) auto

lemma length_filter_conv_count_list: "length (filter (\<lambda>x. x = a) xs) = count_list xs a"
  by (induction xs) auto

lemma distinct_count_list: "distinct xs \<Longrightarrow> x \<in> set xs \<Longrightarrow> count_list xs x = 1"
  by (induction xs) (auto simp: count_list_0_iff)

lemma prefix_take: "prefix xs ys \<Longrightarrow> take (length xs) ys = xs"
  by (auto simp: prefix_def)

lemma prefix_iff_take: "prefix xs ys \<longleftrightarrow> take (length xs) ys = xs"
  by (metis prefix_take take_is_prefix)

end
