(* ===== verification/CString.thy ===== *)
theory CString
  imports Prelude
begin

text \<open>
  The part of the C and C++ standard library that the sources use on characters and strings.
  A \<open>std::string\<close> is a list of 8-bit characters; a \<open>const char*\<close> is the list of characters before
  its terminating NUL; a \<open>char\<close> array is the list of its bytes, whose length is the array's size,
  so that writing past its end or reading a string without terminator is a fault.
\<close>

section \<open>Characters\<close>

abbreviation NUL :: char where "NUL \<equiv> CHR 0x00"
abbreviation TAB :: char where "TAB \<equiv> CHR 0x09"
abbreviation LF :: char where "LF \<equiv> CHR 0x0A"
abbreviation CR :: char where "CR \<equiv> CHR 0x0D"
abbreviation SP :: char where "SP \<equiv> CHR 0x20"
abbreviation CRLF :: string where "CRLF \<equiv> [CR, LF]"

definition code :: "char \<Rightarrow> nat" where
  "code c = of_char c"

definition uchar :: "char \<Rightarrow> 8 word" where
  "uchar c = of_nat (code c)"

definition char_of_uchar :: "8 word \<Rightarrow> char" where
  "char_of_uchar w = char_of (unat w)"

definition isdigit :: "char \<Rightarrow> bool" where
  "isdigit c \<longleftrightarrow> 48 \<le> code c \<and> code c \<le> 57"

definition isalnum :: "char \<Rightarrow> bool" where
  "isalnum c \<longleftrightarrow> isdigit c \<or> (65 \<le> code c \<and> code c \<le> 90) \<or> (97 \<le> code c \<and> code c \<le> 122)"

definition isspace :: "char \<Rightarrow> bool" where
  "isspace c \<longleftrightarrow> code c = 32 \<or> (9 \<le> code c \<and> code c \<le> 13)"

definition tolower :: "char \<Rightarrow> char" where
  "tolower c = (if 65 \<le> code c \<and> code c \<le> 90 then char_of (code c + 32) else c)"

section \<open>Strings\<close>

definition c_str :: "string \<Rightarrow> string" where
  "c_str s = takeWhile (\<lambda>c. c \<noteq> NUL) s"

fun find_char :: "char \<Rightarrow> string \<Rightarrow> nat option" where
  "find_char c [] = None"
| "find_char c (x # xs) = (if x = c then Some 0 else map_option Suc (find_char c xs))"

fun strstr :: "string \<Rightarrow> string \<Rightarrow> nat option" where
  "strstr [] needle = (if needle = [] then Some 0 else None)"
| "strstr (x # xs) needle =
     (if prefix needle (x # xs) then Some 0 else map_option Suc (strstr xs needle))"

definition strncasecmp_eq :: "string \<Rightarrow> string \<Rightarrow> nat \<Rightarrow> bool" where
  "strncasecmp_eq a b n \<longleftrightarrow> map tolower (take n a) = map tolower (take n b)"

section \<open>Arrays of characters\<close>

text \<open>The string a buffer holds: the bytes before its first NUL.\<close>

definition buf_str :: "string \<Rightarrow> string res" where
  "buf_str b = (if NUL \<in> set b then Inr (c_str b) else Inl OutOfBounds)"

text \<open>\<open>strcmp\<close> of an array and a literal, as a test for equality: it stops at the first difference, so it only
  leaves the array when the literal begins with all of it.\<close>

fun strcmp_eq :: "string \<Rightarrow> string \<Rightarrow> bool res" where
  "strcmp_eq [] lit = Inl OutOfBounds"
| "strcmp_eq (b # bs) [] = Inr (b = NUL)"
| "strcmp_eq (b # bs) (c # cs) = (if b = c then strcmp_eq bs cs else Inr False)"

definition buf_set :: "string \<Rightarrow> nat \<Rightarrow> char \<Rightarrow> string res" where
  "buf_set b i c = (if i < length b then Inr (b[i := c]) else Inl OutOfBounds)"

text \<open>\<open>strncpy\<close> copies at most \<open>n\<close> characters and pads with NUL up to \<open>n\<close>; it adds no
  terminator when the source is longer.\<close>

definition strncpy_bytes :: "string \<Rightarrow> nat \<Rightarrow> string" where
  "strncpy_bytes src n = take n (src @ replicate n NUL)"

definition strncpy :: "string \<Rightarrow> string \<Rightarrow> nat \<Rightarrow> string res" where
  "strncpy dst src n =
     (if n \<le> length dst then Inr (strncpy_bytes src n @ drop n dst) else Inl OutOfBounds)"

definition strcat :: "string \<Rightarrow> string \<Rightarrow> string res" where
  "strcat dst src =
     rbind (buf_str dst) (\<lambda>d.
       if length d + length src < length dst
       then Inr (d @ src @ NUL # drop (length d + length src + 1) dst)
       else Inl OutOfBounds)"

text \<open>\<open>snprintf\<close> with a buffer of \<open>n\<close> bytes keeps the first \<open>n - 1\<close> characters of the output.\<close>

definition snprintf_str :: "nat \<Rightarrow> string \<Rightarrow> string" where
  "snprintf_str n out = take (n - 1) out"

section \<open>Numbers\<close>

definition digit_char :: "nat \<Rightarrow> char" where
  "digit_char d = char_of (48 + d)"

fun dec_nat :: "nat \<Rightarrow> string" where
  "dec_nat n = (if n < 10 then [digit_char n] else dec_nat (n div 10) @ [digit_char (n mod 10)])"

declare dec_nat.simps [simp del]

definition dec_int :: "int \<Rightarrow> string" where
  "dec_int i = (if i < 0 then CHR ''-'' # dec_nat (nat (- i)) else dec_nat (nat i))"

fun digits_val :: "nat \<Rightarrow> string \<Rightarrow> nat" where
  "digits_val acc [] = acc"
| "digits_val acc (c # cs) =
     (if isdigit c then digits_val (10 * acc + (code c - 48)) cs else acc)"

text \<open>\<open>strtol\<close> in base 10 with a 64-bit \<open>long\<close>: leading white space, an optional sign, digits; the
  value saturates at the limits of \<open>long\<close>. \<open>atoi\<close> is the C library's cast of it to \<open>int\<close>.\<close>

definition clamp_long :: "int \<Rightarrow> int" where
  "clamp_long v = max (- (2 ^ 63)) (min (2 ^ 63 - 1) v)"

definition strtol10 :: "string \<Rightarrow> int" where
  "strtol10 s =
     (case dropWhile isspace s of
        [] \<Rightarrow> 0
      | c # cs \<Rightarrow>
          clamp_long
            (if c = CHR ''-'' then - int (digits_val 0 cs)
             else if c = CHR ''+'' then int (digits_val 0 cs)
             else int (digits_val 0 (c # cs))))"

text \<open>\<open>strtol\<close> of an array stops at the first character that is not part of the number, and leaves the array when
  there is none.\<close>

definition strtol_buf :: "string \<Rightarrow> int res" where
  "strtol_buf b =
     (let t = dropWhile isspace b;
          ds = (if t \<noteq> [] \<and> (hd t = CHR ''-'' \<or> hd t = CHR ''+'') then tl t else t)
      in if dropWhile isdigit ds = [] then Inl OutOfBounds else Inr (strtol10 b))"

definition to_int32 :: "int \<Rightarrow> int" where
  "to_int32 v = signed_take_bit 31 v"

definition atoi :: "string \<Rightarrow> int" where
  "atoi s = to_int32 (strtol10 s)"

section \<open>Lemmas\<close>

lemma code_less [simp]: "code c < 256"
  by (simp add: code_def)

lemma char_of_code [simp]: "char_of (code c) = c"
  by (simp add: code_def)

lemma code_char_of [simp]: "code (char_of n) = n mod 256"
  by (simp add: code_def)

lemma unat_uchar [simp]: "unat (uchar c) = code c"
  by (simp add: uchar_def unat_of_nat take_bit_eq_mod)

lemma char_of_uchar_uchar [simp]: "char_of_uchar (uchar c) = c"
  by (simp add: char_of_uchar_def)

lemma c_str_id: "NUL \<notin> set s \<Longrightarrow> c_str s = s"
  by (auto simp: c_str_def)

lemma NUL_notin_c_str [simp]: "NUL \<notin> set (c_str s)"
  by (auto simp: c_str_def dest: set_takeWhileD)

lemma c_str_idem [simp]: "c_str (c_str s) = c_str s"
  by (simp add: c_str_id)

lemma c_str_append_NUL [simp]: "NUL \<notin> set s \<Longrightarrow> c_str (s @ NUL # t) = s"
  unfolding c_str_def by (rule takeWhile_append_stop) auto

lemma find_char_None_iff: "find_char c s = None \<longleftrightarrow> c \<notin> set s"
  by (induction s) auto

lemma find_char_append_stop: "c \<notin> set s \<Longrightarrow> find_char c (s @ c # t) = Some (length s)"
  by (induction s) auto

lemma find_char_Some_split:
  "find_char c s = Some i \<Longrightarrow> s = take i s @ c # drop (Suc i) s \<and> c \<notin> set (take i s) \<and> i < length s"
proof (induction s arbitrary: i)
  case Nil
  then show ?case by simp
next
  case (Cons x xs)
  then show ?case
    by (cases "x = c") (auto split: option.splits)
qed

text \<open>\<open>strstr\<close> finds the first occurrence of the needle.\<close>

lemma strstr_Some_iff:
  "strstr h n = Some i \<longleftrightarrow>
     i \<le> length h \<and> prefix n (drop i h) \<and> (\<forall>j < i. \<not> prefix n (drop j h))"
proof (induction h arbitrary: i)
  case Nil
  then show ?case by auto
next
  case (Cons x xs)
  show ?case
  proof (cases i)
    case 0
    then show ?thesis by auto
  next
    case (Suc k)
    then show ?thesis
      using Cons.IH [of k] by (auto simp: All_less_Suc2)
  qed
qed

lemma strstr_None_iff: "strstr h n = None \<longleftrightarrow> (\<forall>j \<le> length h. \<not> prefix n (drop j h))"
proof (induction h)
  case Nil
  then show ?case by simp
next
  case (Cons x xs)
  have split: "(\<forall>j \<le> Suc (length xs). Q j) \<longleftrightarrow> Q 0 \<and> (\<forall>j \<le> length xs. Q (Suc j))" for Q
    by (metis Suc_le_mono gr0_implies_Suc le0 not_gr_zero)
  show ?case
    using Cons.IH by (simp add: split)
qed

lemma length_strncpy_bytes [simp]: "length (strncpy_bytes src n) = n"
  by (simp add: strncpy_bytes_def)

lemma length_snprintf_str: "length (snprintf_str n out) = min (n - 1) (length out)"
  by (simp add: snprintf_str_def)

lemma isdigit_digit_char [simp]: "d < 10 \<Longrightarrow> isdigit (digit_char d)"
  by (simp add: isdigit_def digit_char_def)

lemma code_digit_char [simp]: "d < 10 \<Longrightarrow> code (digit_char d) = 48 + d"
  by (simp add: digit_char_def)

lemma isdigit_not_space: "isdigit c \<Longrightarrow> \<not> isspace c"
  by (auto simp: isdigit_def isspace_def)

lemma isdigit_not_sign: "isdigit c \<Longrightarrow> c \<noteq> CHR ''-'' \<and> c \<noteq> CHR ''+'' \<and> c \<noteq> NUL"
  by (auto simp: isdigit_def code_def)

lemma digits_val_append:
  "(\<forall>c \<in> set xs. isdigit c) \<Longrightarrow> digits_val acc (xs @ ys) = digits_val (digits_val acc xs) ys"
  by (induction xs arbitrary: acc) auto

lemma dec_nat_digits: "\<forall>c \<in> set (dec_nat n). isdigit c"
proof (induction n rule: dec_nat.induct)
  case (1 n)
  then show ?case
    by (subst dec_nat.simps) auto
qed

lemma dec_nat_neq_Nil [simp]: "dec_nat n \<noteq> []"
  by (subst dec_nat.simps) simp

lemma digits_val_dec_nat: "digits_val 0 (dec_nat n) = n"
proof (induction n rule: dec_nat.induct)
  case (1 n)
  show ?case
  proof (cases "n < 10")
    case True
    then show ?thesis by (subst dec_nat.simps) simp
  next
    case False
    have "digits_val 0 (dec_nat n) = 10 * digits_val 0 (dec_nat (n div 10)) + n mod 10"
      using False by (subst dec_nat.simps) (simp add: digits_val_append dec_nat_digits)
    with "1.IH" [OF False] show ?thesis by simp
  qed
qed

lemma dec_nat_Cons: "\<exists>c cs. dec_nat n = c # cs \<and> isdigit c"
  using dec_nat_digits [of n] by (cases "dec_nat n") auto

lemma NUL_notin_dec_nat: "NUL \<notin> set (dec_nat n)"
  using dec_nat_digits [of n] isdigit_not_sign by blast

text \<open>Printing an integer and reading it back.\<close>

lemma strtol10_dec_nat: "strtol10 (dec_nat n) = clamp_long (int n)"
proof -
  obtain c cs where c: "dec_nat n = c # cs" "isdigit c"
    using dec_nat_Cons by blast
  have "strtol10 (dec_nat n) = clamp_long (int (digits_val 0 (dec_nat n)))"
    using c by (simp add: strtol10_def isdigit_not_space isdigit_not_sign)
  then show ?thesis by (simp add: digits_val_dec_nat)
qed

lemma strtol10_dec_int: "strtol10 (dec_int i) = clamp_long i"
proof (cases "i < 0")
  case True
  have "\<not> isspace (CHR ''-'')" by (simp add: isspace_def code_def)
  with True show ?thesis
    by (simp add: dec_int_def strtol10_def digits_val_dec_nat)
next
  case False
  then show ?thesis by (simp add: dec_int_def strtol10_dec_nat)
qed

lemma clamp_long_id: "- (2 ^ 63) \<le> v \<Longrightarrow> v < 2 ^ 63 \<Longrightarrow> clamp_long v = v"
  by (simp add: clamp_long_def)

lemma clamp_long_nat: "n < 2 ^ 63 \<Longrightarrow> clamp_long (int n) = int n"
  by (simp add: clamp_long_def)

lemma to_int32_id: "- (2 ^ 31) \<le> v \<Longrightarrow> v < 2 ^ 31 \<Longrightarrow> to_int32 v = v"
  by (simp add: to_int32_def signed_take_bit_int_eq_self)

lemma atoi_dec_int: "- (2 ^ 31) \<le> v \<Longrightarrow> v < 2 ^ 31 \<Longrightarrow> atoi (dec_int v) = v"
  by (simp add: atoi_def strtol10_dec_int clamp_long_id to_int32_id)

text \<open>A literal compared with an array.\<close>

lemma strcmp_eq_total: "length lit < length b \<Longrightarrow> \<exists>r. strcmp_eq b lit = Inr r"
  by (induction b lit rule: strcmp_eq.induct) auto

lemma strcmp_eq_True: "strcmp_eq b lit = Inr True \<longleftrightarrow> prefix (lit @ [NUL]) b"
  by (induction b lit rule: strcmp_eq.induct) auto

lemma strcmp_eq_False:
  assumes "length lit < length b" "\<not> prefix (lit @ [NUL]) b"
  shows "strcmp_eq b lit = Inr False"
  using strcmp_eq_total [OF assms(1)] strcmp_eq_True [of b lit] assms(2) by auto

text \<open>The number in an array that holds a string.\<close>

lemma digits_val_takeWhile: "digits_val acc (takeWhile (\<lambda>c. c \<noteq> NUL) s) = digits_val acc s"
  by (induction s arbitrary: acc) (auto simp: isdigit_def code_def)

end
