(* ===== verification/Util.thy ===== *)
theory Util
  imports CString
begin

text \<open>
  The helpers of \<^verbatim>\<open>src/util.cc\<close>: the splitter \<open>CStrExplode\<close>, character replacement, number/string
  conversion, the placeholder substitution \<open>ReplaceMark\<close>, percent-encoding and \<open>MemFind\<close>.
\<close>

unbundle bit_operations_syntax

section \<open>Definitions\<close>

subsection \<open>\<open>CStrExplode\<close>\<close>

text \<open>
  The constructor counts the separators, allocates that many slots plus one, and then fills the
  slots in one pass; \<open>cur\<close> is the text between \<open>start\<close> and \<open>pos\<close>. A slot the pass never reaches
  stays uninitialised (\<open>None\<close>).
\<close>

fun explode_loop :: "char \<Rightarrow> string \<Rightarrow> string \<Rightarrow> string list" where
  "explode_loop sep cur [] = (if cur \<noteq> [] then [cur] else [])"
| "explode_loop sep cur (c # cs) =
     (if cur \<noteq> [] \<and> c = sep then cur # explode_loop sep [] cs
      else explode_loop sep (cur @ [c]) cs)"

definition explode_count :: "char \<Rightarrow> string \<Rightarrow> nat" where
  "explode_count sep s = 1 + count_list s sep"

definition CStrExplode :: "string \<Rightarrow> char \<Rightarrow> string option list" where
  "CStrExplode str sep =
     (let s = c_str str; items = explode_loop sep [] s
      in map Some items @ replicate (explode_count sep s - length items) None)"

definition GetItemCnt :: "string option list \<Rightarrow> nat" where
  "GetItemCnt items = length items"

definition GetItem :: "string option list \<Rightarrow> nat \<Rightarrow> string res" where
  "GetItem items idx =
     (if idx < length items
      then (case items ! idx of Some s \<Rightarrow> Inr s | None \<Rightarrow> Inl Uninit)
      else Inl OutOfBounds)"

text \<open>The destructor frees every slot; freeing an uninitialised pointer is a fault.\<close>

definition explode_destroy :: "string option list \<Rightarrow> unit res" where
  "explode_destroy items = (if None \<in> set items then Inl Uninit else Inr ())"

subsection \<open>Replacement and conversion\<close>

definition ReplaceStr :: "string option \<Rightarrow> char \<Rightarrow> char \<Rightarrow> string option" where
  "ReplaceStr src old_char new_char =
     map_option (map (\<lambda>c. if c = old_char then new_char else c)) src"

definition Int2String :: "32 word \<Rightarrow> string" where
  "Int2String user_id = dec_nat (unat user_id)"

definition String2Int :: "string \<Rightarrow> 32 word" where
  "String2Int value = word_of_int (atoi (c_str value))"

text \<open>\<open>std::string::find\<close> of one character from a start position.\<close>

definition str_find_from :: "string \<Rightarrow> char \<Rightarrow> nat \<Rightarrow> nat option" where
  "str_find_from s c b = map_option ((+) b) (find_char c (drop b s))"

definition replace_at :: "string \<Rightarrow> nat \<Rightarrow> string \<Rightarrow> string" where
  "replace_at s pos new = take pos s @ new @ drop (Suc pos) s"

definition ReplaceMark :: "string \<Rightarrow> string \<Rightarrow> 32 word \<Rightarrow> string \<times> 32 word" where
  "ReplaceMark str new_value begin_pos =
     (case str_find_from str (CHR ''?'') (unat begin_pos) of
        None \<Rightarrow> (str, begin_pos)
      | Some pos \<Rightarrow>
          (let prime_new_value = CHR 0x27 # new_value @ [CHR 0x27]
           in (replace_at str pos prime_new_value, of_nat (pos + length prime_new_value))))"

definition ReplaceMark_uint :: "string \<Rightarrow> 32 word \<Rightarrow> 32 word \<Rightarrow> string \<times> 32 word" where
  "ReplaceMark_uint str new_value begin_pos =
     (let str_value = dec_nat (unat new_value)
      in case str_find_from str (CHR ''?'') (unat begin_pos) of
           None \<Rightarrow> (str, begin_pos)
         | Some pos \<Rightarrow> (replace_at str pos str_value, of_nat (pos + length str_value)))"

subsection \<open>Percent-encoding\<close>

definition ToHex :: "8 word \<Rightarrow> 8 word" where
  "ToHex x = (if x > 9 then x - 10 + 65 else x + 48)"

definition FromHex :: "8 word \<Rightarrow> 8 word" where
  "FromHex x = (if 48 \<le> x \<and> x \<le> 57 then x - 48 else x - 65 + 10)"

definition encode_char :: "char \<Rightarrow> string" where
  "encode_char c =
     (if isalnum c then [c]
      else [CHR ''%'', char_of_uchar (ToHex (drop_bit 4 (uchar c))),
            char_of_uchar (ToHex (uchar c mod 16))])"

fun URLEncode :: "string \<Rightarrow> string" where
  "URLEncode [] = []"
| "URLEncode (c # cs) = encode_char c @ URLEncode cs"

definition decode_pair :: "char \<Rightarrow> char \<Rightarrow> char" where
  "decode_pair a b = char_of_uchar (push_bit 4 (FromHex (uchar a)) OR FromHex (uchar b))"

text \<open>Reading the character at index \<open>size()\<close> gives NUL; reading beyond it is a fault.\<close>

fun URLDecode :: "string \<Rightarrow> string res" where
  "URLDecode [] = Inr []"
| "URLDecode (c # cs) =
     (if c = CHR ''%'' then
        (case cs of
           [] \<Rightarrow> Inl OutOfBounds
         | [a] \<Rightarrow> Inr [decode_pair a NUL]
         | a # b # rest \<Rightarrow> rbind (URLDecode rest) (\<lambda>out. Inr (decode_pair a b # out)))
      else rbind (URLDecode cs) (\<lambda>out. Inr ((if c = CHR ''+'' then SP else c) # out)))"

subsection \<open>\<open>MemFind\<close>\<close>

definition memcmp_eq :: "string \<Rightarrow> nat \<Rightarrow> string \<Rightarrow> nat \<Rightarrow> bool res" where
  "memcmp_eq a i b n =
     (if i + n \<le> length a \<and> n \<le> length b then Inr (take n (drop i a) = take n b)
      else Inl OutOfBounds)"

text \<open>\<open>size_t\<close> subtraction wraps around.\<close>

definition size_sub :: "nat \<Rightarrow> nat \<Rightarrow> nat" where
  "size_sub a b = nat ((int a - int b) mod 2 ^ 64)"

fun memfind_fwd :: "string \<Rightarrow> string \<Rightarrow> nat \<Rightarrow> nat \<Rightarrow> nat \<Rightarrow> nat option res" where
  "memfind_fwd src sub m i 0 = Inr None"
| "memfind_fwd src sub m i (Suc k) =
     rbind (memcmp_eq src i sub m)
       (\<lambda>e. if e then Inr (Some i) else memfind_fwd src sub m (Suc i) k)"

fun memfind_bwd :: "string \<Rightarrow> string \<Rightarrow> nat \<Rightarrow> nat \<Rightarrow> nat option res" where
  "memfind_bwd src sub m 0 =
     rbind (memcmp_eq src 0 sub m) (\<lambda>e. Inr (if e then Some 0 else None))"
| "memfind_bwd src sub m (Suc i) =
     rbind (memcmp_eq src (Suc i) sub m)
       (\<lambda>e. if e then Inr (Some (Suc i)) else memfind_bwd src sub m i)"

definition MemFind ::
  "string option \<Rightarrow> nat \<Rightarrow> string option \<Rightarrow> nat \<Rightarrow> bool \<Rightarrow> nat option res" where
  "MemFind src_str src_len sub_str sub_len flag =
     (case (src_str, sub_str) of
        (Some src, Some sub) \<Rightarrow>
          if src_len = 0 then Inr None
          else if src_len < sub_len then Inr None
          else rbind (if sub_len = 0 then map_sum id length (buf_str sub) else Inr sub_len)
            (\<lambda>m. if src_len = m
                 then rbind (memcmp_eq src 0 sub src_len) (\<lambda>e. Inr (if e then Some 0 else None))
                 else if flag then memfind_fwd src sub m 0 (size_sub src_len m)
                 else (let i = to_int32 (int (size_sub src_len m))
                       in if i < 0 then Inr None else memfind_bwd src sub m (nat i)))
      | _ \<Rightarrow> Inr None)"

subsection \<open>Calls of the system\<close>

text \<open>What the system answers is an argument: the two numbers of \<^verbatim>\<open>gettimeofday\<close>, whether the file could
  be opened, the number of the process, and the size \<^verbatim>\<open>stat\<close> found. The results are the tick, the
  argument of \<^verbatim>\<open>usleep\<close>, the text of \<^verbatim>\<open>server.pid\<close>, and the size.\<close>

definition GetTickCount :: "64 word \<Rightarrow> 64 word \<Rightarrow> 64 word" where
  "GetTickCount tv_sec tv_usec =
     tv_sec * 1000 + word_of_int (sgn (sint tv_usec) * (\<bar>sint tv_usec\<bar> div 1000))"

definition util_sleep :: "32 word \<Rightarrow> 32 word" where
  "util_sleep millisecond = millisecond * 1000"

definition WritePid :: "bool \<Rightarrow> 32 word \<Rightarrow> string res" where
  "WritePid opened curPid =
     (if \<not> opened then Inl AssertFailed else Inr (snprintf_str 32 (dec_int (sint curPid))))"

definition GetFileSize :: "int option \<Rightarrow> int" where
  "GetFileSize st_size = (case st_size of None \<Rightarrow> -1 | Some filesize \<Rightarrow> filesize)"

section \<open>Specifications\<close>

text \<open>The text between separators, empty fields included.\<close>

fun split_fields :: "char \<Rightarrow> string \<Rightarrow> string \<Rightarrow> string list" where
  "split_fields sep cur [] = [cur]"
| "split_fields sep cur (c # cs) =
     (if c = sep then cur # split_fields sep [] cs else split_fields sep (cur @ [c]) cs)"

text \<open>The template with its placeholders filled from left to right.\<close>

fun fill_marks :: "string \<Rightarrow> string list \<Rightarrow> string" where
  "fill_marks [] vs = []"
| "fill_marks (c # cs) vs =
     (if c = CHR ''?''
      then (case vs of [] \<Rightarrow> c # cs
            | v # vs' \<Rightarrow> CHR 0x27 # v @ CHR 0x27 # fill_marks cs vs')
      else c # fill_marks cs vs)"

fun replace_all_marks :: "string \<times> 32 word \<Rightarrow> string list \<Rightarrow> string \<times> 32 word" where
  "replace_all_marks sb [] = sb"
| "replace_all_marks (s, b) (v # vs) = replace_all_marks (ReplaceMark s v b) vs"

definition occurs_at :: "string \<Rightarrow> string \<Rightarrow> nat \<Rightarrow> bool" where
  "occurs_at src sub i \<longleftrightarrow> take (length sub) (drop i src) = sub"

section \<open>\<open>CStrExplode\<close>: lemmas\<close>

lemma length_split_fields: "length (split_fields sep cur s) = 1 + count_list s sep"
  by (induction sep cur s rule: split_fields.induct) auto

lemma explode_loop_bound: "length (explode_loop sep cur s) \<le> explode_count sep s"
proof (induction sep cur s rule: explode_loop.induct)
  case (1 sep cur)
  then show ?case by (simp add: explode_count_def)
next
  case (2 sep cur c cs)
  then show ?case
    by (cases "cur \<noteq> [] \<and> c = sep") (auto simp: explode_count_def)
qed

lemma split_fields_eq_explode_loop:
  "[] \<notin> set (split_fields sep cur s) \<Longrightarrow> explode_loop sep cur s = split_fields sep cur s"
  by (induction sep cur s rule: split_fields.induct) (auto split: if_splits)

lemma explode_loop_short:
  "[] \<in> set (split_fields sep cur s) \<Longrightarrow> length (explode_loop sep cur s) < explode_count sep s"
proof (induction sep cur s rule: explode_loop.induct)
  case (1 sep cur)
  then show ?case by (simp add: explode_count_def)
next
  case (2 sep cur c cs)
  show ?case
  proof (cases "cur = [] \<and> c = sep")
    case True
    then show ?thesis
      using explode_loop_bound [of sep "[sep]" cs] by (simp add: explode_count_def)
  next
    case False
    with 2 show ?thesis
      by (auto simp: explode_count_def split: if_splits)
  qed
qed

text \<open>The slots are never written out of bounds, and one stays unwritten exactly when a field
  between the separators is empty.\<close>

lemma length_CStrExplode: "length (CStrExplode str sep) = explode_count sep (c_str str)"
  using explode_loop_bound [of sep "[]" "c_str str"] by (simp add: CStrExplode_def Let_def)

lemma CStrExplode_fields:
  "[] \<notin> set (split_fields sep [] (c_str str)) \<Longrightarrow>
     CStrExplode str sep = map Some (split_fields sep [] (c_str str))"
  by (simp add: CStrExplode_def Let_def split_fields_eq_explode_loop length_split_fields explode_count_def)

lemma CStrExplode_uninit_iff:
  "None \<in> set (CStrExplode str sep) \<longleftrightarrow> [] \<in> set (split_fields sep [] (c_str str))"
proof (cases "[] \<in> set (split_fields sep [] (c_str str))")
  case True
  then show ?thesis
    using explode_loop_short [OF True] by (auto simp: CStrExplode_def Let_def)
next
  case False
  then show ?thesis by (simp add: CStrExplode_fields)
qed

lemma fields_join:
  "sep \<notin> set f \<Longrightarrow> split_fields sep cur (f @ sep # rest) = (cur @ f) # split_fields sep [] rest"
  by (induction f arbitrary: cur) auto

lemma fields_last: "sep \<notin> set f \<Longrightarrow> split_fields sep cur f = [cur @ f]"
  by (induction f arbitrary: cur) auto

section \<open>Conversion and substitution: lemmas\<close>

lemma word32_of_to_int32: "(word_of_int (to_int32 v) :: 32 word) = word_of_int v"
  by (rule bit_word_eqI) (simp add: to_int32_def bit_simps)

lemma NUL_notin_Int2String: "NUL \<notin> set (Int2String u)"
  by (simp add: Int2String_def NUL_notin_dec_nat)

lemma String2Int_Int2String_aux: "String2Int (Int2String u) = u"
proof -
  have "unat u < 2 ^ 63" using unat_less_32 [of u] by simp
  then have "strtol10 (dec_nat (unat u)) = int (unat u)"
    by (simp only: strtol10_dec_nat clamp_long_nat)
  then show ?thesis
    using NUL_notin_Int2String [of u]
    by (simp add: String2Int_def Int2String_def c_str_id atoi_def word32_of_to_int32)
qed

lemma str_find_from_append:
  "length p = b \<Longrightarrow> c \<notin> set t \<Longrightarrow> str_find_from (p @ t @ c # r) c b = Some (b + length t)"
  by (simp add: str_find_from_def find_char_append_stop)

lemma str_find_from_none: "c \<notin> set t \<Longrightarrow> str_find_from (p @ t) c (length p) = None"
  by (simp add: str_find_from_def find_char_None_iff)

lemma replace_at_append: "replace_at (p @ c # r) (length p) v = p @ v @ r"
  by (simp add: replace_at_def)

lemma fill_marks_no_mark: "CHR ''?'' \<notin> set t \<Longrightarrow> fill_marks (t @ r) vs = t @ fill_marks r vs"
  by (induction t) auto

lemma fill_marks_Nil [simp]: "fill_marks t [] = t"
  by (induction t) auto

lemma fill_marks_none: "CHR ''?'' \<notin> set t \<Longrightarrow> fill_marks t vs = t"
  using fill_marks_no_mark [of t "[]" vs] by simp

lemma replace_all_marks_none:
  "CHR ''?'' \<notin> set t \<Longrightarrow> unat b = length p \<Longrightarrow>
     replace_all_marks (p @ t, b) vs = (p @ t, b)"
  by (induction vs) (auto simp: ReplaceMark_def str_find_from_none)

text \<open>The work left after some placeholders are filled: \<open>p\<close> is finished text, \<open>t\<close> is template.\<close>

lemma replace_all_marks_prefix:
  "unat b = length p \<Longrightarrow> length (p @ fill_marks t vs) < 2 ^ 32 \<Longrightarrow>
     fst (replace_all_marks (p @ t, b) vs) = p @ fill_marks t vs"
proof (induction vs arbitrary: p t b)
  case Nil
  then show ?case by simp
next
  case (Cons v vs)
  show ?case
  proof (cases "CHR ''?'' \<in> set t")
    case False
    show ?thesis
      by (simp only: replace_all_marks_none [OF False Cons.prems(1)] fill_marks_none [OF False]
          fst_conv)
  next
    case True
    then obtain t1 t2 where t: "t = t1 @ CHR ''?'' # t2" and t1: "CHR ''?'' \<notin> set t1"
      by (meson split_list_first)
    let ?q = "CHR 0x27 # v @ [CHR 0x27]"
    let ?b = "of_nat (length p + length t1 + length ?q) :: 32 word"
    have step: "ReplaceMark (p @ t) v b = ((p @ t1 @ ?q) @ t2, ?b)"
      using Cons.prems(1) t1
      by (simp add: t ReplaceMark_def str_find_from_append Let_def
          replace_at_append [of "p @ t1", simplified])
    have fill: "p @ fill_marks t (v # vs) = (p @ t1 @ ?q) @ fill_marks t2 vs"
      by (simp add: t fill_marks_no_mark [OF t1])
    have len: "length p + length t1 + length ?q < 2 ^ 32"
      using Cons.prems(2) unfolding fill by simp
    have "unat ?b = length (p @ t1 @ ?q)"
      unfolding unat_of_nat_32 [OF len] by simp
    from Cons.IH [OF this] Cons.prems(2) show ?thesis
      unfolding fill by (simp add: step del: append.assoc)
  qed
qed

section \<open>Percent-encoding: lemmas\<close>

lemma FromHex_ToHex: "x < 16 \<Longrightarrow> FromHex (ToHex x) = x"
proof -
  assume "x < 16"
  then have "unat x \<in> set [0..<16]" by (simp add: word_less_nat_alt)
  moreover have "\<forall>n \<in> set [0..<16]. FromHex (ToHex (of_nat n)) = of_nat n"
    by (simp add: upt_conv_Cons FromHex_def ToHex_def)
  ultimately have "FromHex (ToHex (of_nat (unat x))) = of_nat (unat x)" by blast
  then show ?thesis by simp
qed

lemma uchar_char_of_uchar [simp]: "uchar (char_of_uchar w) = w"
proof -
  have "unat w < 2 ^ LENGTH(8)" by (rule unsigned_less)
  then show ?thesis by (simp add: uchar_def char_of_uchar_def code_def)
qed

lemma nibbles_join: "push_bit 4 (drop_bit 4 w) OR (w mod 16) = (w :: 8 word)"
proof -
  have "w mod 16 = take_bit 4 w" by (simp add: take_bit_eq_mod)
  then show ?thesis by (auto intro!: bit_word_eqI simp: bit_simps)
qed

lemma decode_pair_encode:
  "decode_pair (char_of_uchar (ToHex (drop_bit 4 (uchar c))))
     (char_of_uchar (ToHex (uchar c mod 16))) = c"
proof -
  have hi: "drop_bit 4 (uchar c) < 16"
    by (simp add: word_less_nat_alt drop_bit_eq_div unat_div less_mult_imp_div_less)
  have lo: "uchar c mod 16 < 16"
    by (simp add: word_mod_less_divisor)
  show ?thesis
    by (simp add: decode_pair_def FromHex_ToHex hi lo nibbles_join)
qed

lemma isalnum_plain: "isalnum c \<Longrightarrow> c \<noteq> CHR ''%'' \<and> c \<noteq> CHR ''+''"
  by (auto simp: isalnum_def isdigit_def code_def)

lemma URLDecode_encode_char:
  "URLDecode (encode_char c @ cs) = rbind (URLDecode cs) (\<lambda>out. Inr (c # out))"
  using isalnum_plain [of c] by (auto simp: encode_char_def decode_pair_encode)

section \<open>\<open>MemFind\<close>: lemmas\<close>

lemma size_sub_le: "b \<le> a \<Longrightarrow> a < 2 ^ 64 \<Longrightarrow> size_sub a b = a - b"
  by (simp add: size_sub_def nat_diff_distrib flip: of_nat_diff)

lemma memcmp_eq_occurs:
  "i + length sub \<le> length src \<Longrightarrow> memcmp_eq src i sub (length sub) = Inr (occurs_at src sub i)"
  by (simp add: memcmp_eq_def occurs_at_def)

lemma memfind_fwd_find:
  "i + k + length sub \<le> length src \<Longrightarrow>
     memfind_fwd src sub (length sub) i k = Inr (find (occurs_at src sub) [i..<i + k])"
proof (induction k arbitrary: i)
  case 0
  then show ?case by simp
next
  case (Suc k)
  have "[i..<i + Suc k] = i # [Suc i..<Suc i + k]"
    by (simp add: upt_rec)
  with Suc show ?case
    by (simp add: memcmp_eq_occurs)
qed

lemma memfind_bwd_find:
  "i + length sub \<le> length src \<Longrightarrow>
     memfind_bwd src sub (length sub) i = Inr (find (occurs_at src sub) (rev [0..<Suc i]))"
  by (induction i) (auto simp: memcmp_eq_occurs)

lemma MemFind_forward:
  assumes "0 < length sub" "length sub < length src" "length src < 2 ^ 31"
  shows "MemFind (Some src) (length src) (Some sub) (length sub) True
           = Inr (find (occurs_at src sub) [0..<length src - length sub])"
  using assms memfind_fwd_find [of 0 "length src - length sub" sub src]
  by (simp add: MemFind_def size_sub_le)

lemma MemFind_backward:
  assumes "0 < length sub" "length sub < length src" "length src < 2 ^ 31"
  shows "MemFind (Some src) (length src) (Some sub) (length sub) False
           = Inr (find (occurs_at src sub) (rev [0..<Suc (length src - length sub)]))"
proof -
  define i where "i = length src - length sub"
  have i: "to_int32 (int (size_sub (length src) (length sub))) = int i"
    using assms by (simp add: i_def size_sub_le to_int32_id)
  have "src \<noteq> []" using assms by auto
  then show ?thesis
    using assms memfind_bwd_find [of i sub src]
    by (simp add: MemFind_def Let_def i i_def [symmetric] del: upt_Suc) (simp add: i_def)
qed

section \<open>Properties\<close>

text \<open>\<open>CStrExplode\<close> allocates one slot per field between separators. When no field is empty
  every slot holds its field, in order; when some field is empty a slot stays uninitialised, so
  that the destructor frees an indeterminate pointer.\<close>

theorem CStrExplode_slots:
  "length (CStrExplode str sep) = length (split_fields sep [] (c_str str)) \<and>
   (if [] \<in> set (split_fields sep [] (c_str str))
    then explode_destroy (CStrExplode str sep) = Inl Uninit
    else CStrExplode str sep = map Some (split_fields sep [] (c_str str)) \<and>
         explode_destroy (CStrExplode str sep) = Inr ())"
  using CStrExplode_uninit_iff [of str sep] CStrExplode_fields [of sep str]
  by (simp add: length_CStrExplode length_split_fields explode_count_def explode_destroy_def)

text \<open>C37. Percent-decoding a percent-encoded string gives back the string, for every byte string,
  and never reads past its end.\<close>

theorem URLDecode_URLEncode: "URLDecode (URLEncode s) = Inr s"
  by (induction s) (simp_all add: URLDecode_encode_char)

text \<open>A 32-bit number printed by \<open>Int2String\<close> is read back by \<open>String2Int\<close>, although the
  latter goes through the signed \<open>atoi\<close>.\<close>

theorem String2Int_Int2String: "String2Int (Int2String u) = u"
  by (rule String2Int_Int2String_aux)

text \<open>Replacing the placeholders one after the other fills the template from left to right, each
  placeholder by its own quoted value, even when the values contain question marks, as long as the
  32-bit start position does not wrap.\<close>

theorem ReplaceMark_fills_template:
  assumes "length (fill_marks t vs) < 2 ^ 32"
  shows "fst (replace_all_marks (t, 0) vs) = fill_marks t vs"
  using replace_all_marks_prefix [of 0 "[]" t vs] assms by simp

theorem ReplaceMark_fills_template_witness:
  "fst (replace_all_marks (''a=? b=?'', 0) [''x?'', ''y'']) =
     ''a='' @ CHR 0x27 # ''x?'' @ CHR 0x27 # '' b='' @ CHR 0x27 # ''y'' @ [CHR 0x27]"
  using ReplaceMark_fills_template [of "''a=? b=?''" "[''x?'', ''y'']"] by simp

text \<open>\<open>MemFind\<close> searching backwards returns the last occurrence, searching forwards the first one
  among all alignments except the last: the loop bound is one short, so an occurrence at the very end
  is not found.\<close>

theorem MemFind_searches:
  assumes "0 < length sub" "length sub < length src" "length src < 2 ^ 31"
  shows "MemFind (Some src) (length src) (Some sub) (length sub) flag =
     Inr (find (occurs_at src sub)
            (if flag then [0..<length src - length sub]
             else rev [0..<Suc (length src - length sub)]))"
  using MemFind_forward [OF assms] MemFind_backward [OF assms] by simp

theorem MemFind_searches_witness:
  "MemFind (Some ''key=v'') (length ''key=v'') (Some ''=v'') (length ''=v'') True = Inr None \<and>
   MemFind (Some ''key=v'') (length ''key=v'') (Some ''=v'') (length ''=v'') False = Inr (Some 3)"
proof -
  have hyps: "0 < length ''=v''" "length ''=v'' < length ''key=v''" "length ''key=v'' < 2 ^ 31"
    by simp_all
  have "find (occurs_at ''key=v'' ''=v'') [0..<length ''key=v'' - length ''=v''] = None"
    by code_simp
  moreover have
    "find (occurs_at ''key=v'' ''=v'') (rev [0..<Suc (length ''key=v'' - length ''=v'')]) = Some 3"
    by code_simp
  ultimately show ?thesis
    using MemFind_searches [OF hyps, of True] MemFind_searches [OF hyps, of False]
    by (simp only: if_True if_False simp_thms)
qed

text \<open>The product is computed in 32 bits: the sleep is the one asked for up to 4294967 milliseconds, and
  shorter than it above.\<close>

theorem util_sleep_exact:
  "unat (util_sleep ms) = unat ms * 1000 \<longleftrightarrow> unat ms \<le> 4294967"
proof -
  have "unat (util_sleep ms) = unat ms * 1000 mod 2 ^ 32"
    by (simp add: util_sleep_def unat_word_ariths)
  then show ?thesis by (simp add: mod_eq_self_iff_div_eq_0 div_eq_0_iff) arith
qed

end
