(* ===== verification/OrdMap.thy ===== *)
theory OrdMap
  imports Prelude
begin

text \<open>
  \<open>std::map\<close> as the sources use it: a list of key/value pairs in increasing key order, with \<open>find\<close>,
  \<open>insert\<close> (which keeps an existing entry), assignment through \<open>operator[]\<close> (which replaces it) and
  \<open>erase\<close>. The interface \<open>std_map\<close> states what its clients rely on.
\<close>

section \<open>Operations\<close>

type_synonym ('k, 'v) omap = "('k \<times> 'v) list"

definition om_empty :: "('k, 'v) omap" where
  "om_empty = []"

definition om_find :: "('k, 'v) omap \<Rightarrow> 'k \<Rightarrow> 'v option" where
  "om_find m k = map_of m k"

fun om_insert :: "'k::linorder \<Rightarrow> 'v \<Rightarrow> ('k, 'v) omap \<Rightarrow> ('k, 'v) omap" where
  "om_insert k v [] = [(k, v)]"
| "om_insert k v ((k', v') # m) =
     (if k < k' then (k, v) # (k', v') # m
      else if k = k' then (k', v') # m
      else (k', v') # om_insert k v m)"

fun om_assign :: "'k::linorder \<Rightarrow> 'v \<Rightarrow> ('k, 'v) omap \<Rightarrow> ('k, 'v) omap" where
  "om_assign k v [] = [(k, v)]"
| "om_assign k v ((k', v') # m) =
     (if k < k' then (k, v) # (k', v') # m
      else if k = k' then (k, v) # m
      else (k', v') # om_assign k v m)"

definition om_ok :: "('k::linorder, 'v) omap \<Rightarrow> bool" where
  "om_ok m \<longleftrightarrow> sorted_wrt (<) (map fst m)"

section \<open>The interface\<close>

locale std_map =
  fixes empty :: "'m"
    and lookup :: "'m \<Rightarrow> 'k \<Rightarrow> 'v option"
    and insert :: "'k \<Rightarrow> 'v \<Rightarrow> 'm \<Rightarrow> 'm"
    and assign :: "'k \<Rightarrow> 'v \<Rightarrow> 'm \<Rightarrow> 'm"
    and wf :: "'m \<Rightarrow> bool"
  assumes wf_empty: "wf empty"
    and wf_insert: "wf m \<Longrightarrow> wf (insert k v m)"
    and wf_assign: "wf m \<Longrightarrow> wf (assign k v m)"
    and lookup_empty: "lookup empty k = None"
    and lookup_insert: "wf m \<Longrightarrow> lookup (insert k v m) k' =
          (if k' = k then (case lookup m k of None \<Rightarrow> Some v | Some w \<Rightarrow> Some w) else lookup m k')"
    and lookup_assign: "wf m \<Longrightarrow> lookup (assign k v m) k' = (if k' = k then Some v else lookup m k')"
begin

lemma wf_fold_insert: "wf m \<Longrightarrow> wf (fold (\<lambda>(k, v). insert k v) kvs m)"
  by (induction kvs arbitrary: m) (auto simp: wf_insert)

text \<open>Filling a map from a list of pairs: what was in the map stays, then the first pair wins.\<close>

lemma lookup_fold_insert:
  "wf m \<Longrightarrow> lookup (fold (\<lambda>(k, v). insert k v) kvs m) k =
     (case lookup m k of None \<Rightarrow> map_of kvs k | Some w \<Rightarrow> Some w)"
  by (induction kvs arbitrary: m) (auto simp: lookup_insert wf_insert split: option.splits)

lemma lookup_fold_insert_empty:
  "lookup (fold (\<lambda>(k, v). insert k v) kvs empty) k = map_of kvs k"
  by (simp add: lookup_fold_insert wf_empty lookup_empty)

lemma lookup_assign_same: "wf m \<Longrightarrow> lookup (assign k v m) k = Some v"
  by (simp add: lookup_assign)

lemma lookup_assign_other: "wf m \<Longrightarrow> k' \<noteq> k \<Longrightarrow> lookup (assign k v m) k' = lookup m k'"
  by (simp add: lookup_assign)

end

section \<open>The sorted list implements it\<close>

lemma om_ok_empty: "om_ok om_empty"
  by (simp add: om_ok_def om_empty_def)

lemma om_find_empty: "om_find om_empty k = None"
  by (simp add: om_find_def om_empty_def)

lemma om_ok_Cons: "om_ok ((k, v) # m) \<longleftrightarrow> (\<forall>k' \<in> fst ` set m. k < k') \<and> om_ok m"
  by (auto simp: om_ok_def)

lemma fst_om_insert: "fst ` set (om_insert k v m) = Set.insert k (fst ` set m)"
  by (induction k v m rule: om_insert.induct) auto

lemma fst_om_assign: "fst ` set (om_assign k v m) = Set.insert k (fst ` set m)"
  by (induction k v m rule: om_assign.induct) auto

lemma om_ok_insert: "om_ok m \<Longrightarrow> om_ok (om_insert k v m)"
  by (induction k v m rule: om_insert.induct) (auto simp: om_ok_Cons fst_om_insert om_ok_def)

lemma om_ok_assign: "om_ok m \<Longrightarrow> om_ok (om_assign k v m)"
  by (induction k v m rule: om_assign.induct) (auto simp: om_ok_Cons fst_om_assign om_ok_def)

lemma om_find_simps [simp]:
  "om_find [] k = None"
  "om_find ((a, b) # m) k = (if k = a then Some b else om_find m k)"
  by (simp_all add: om_find_def)

lemma om_find_fresh: "\<forall>k' \<in> fst ` set m. (k :: 'k::linorder) < k' \<Longrightarrow> om_find m k = None"
  by (induction m) auto

lemma om_find_insert:
  "om_ok m \<Longrightarrow> om_find (om_insert k v m) k' =
     (if k' = k then (case om_find m k of None \<Rightarrow> Some v | Some w \<Rightarrow> Some w) else om_find m k')"
proof (induction k v m rule: om_insert.induct)
  case (1 k v)
  then show ?case by simp
next
  case (2 k v a b m)
  from "2.prems" have m: "om_ok m" "\<forall>k' \<in> fst ` set m. a < k'"
    by (simp_all add: om_ok_Cons)
  consider "k < a" | "k = a" | "\<not> k < a" "k \<noteq> a" by blast
  then show ?case
  proof cases
    case 1
    then have "\<forall>k' \<in> fst ` set m. k < k'" using m(2) by (meson order_less_trans)
    then have "om_find m k = None" by (rule om_find_fresh)
    with 1 show ?thesis by auto
  next
    case 2
    then show ?thesis by simp
  next
    case 3
    then show ?thesis
      using "2.IH" [OF 3 m(1)] by auto
  qed
qed

lemma om_find_assign:
  "om_ok m \<Longrightarrow> om_find (om_assign k v m) k' = (if k' = k then Some v else om_find m k')"
  by (induction k v m rule: om_assign.induct) (auto simp: om_ok_Cons)

interpretation omap: std_map om_empty om_find om_insert om_assign om_ok
  by unfold_locales
    (simp_all add: om_ok_empty om_find_empty om_ok_insert om_ok_assign om_find_insert
      om_find_assign)

text \<open>A map is determined by what is found in it.\<close>

lemma om_find_None_iff: "om_find m k = None \<longleftrightarrow> k \<notin> fst ` set m"
  by (simp add: om_find_def map_of_eq_None_iff)

lemma om_eqI: "om_ok m \<Longrightarrow> om_ok m' \<Longrightarrow> (\<And>k. om_find m k = om_find m' k) \<Longrightarrow> m = m'"
proof (induction m arbitrary: m')
  case Nil
  show ?case
  proof (cases m')
    case (Cons q m2)
    then show ?thesis
      using Nil.prems(3) [of "fst q"] by (cases q) simp
  qed simp
next
  case (Cons p m)
  obtain k v where p: "p = (k, v)" by (cases p)
  have "om_find m' k = Some v"
    using Cons.prems(3) [of k] by (simp add: p)
  then obtain k2 v2 m2 where m': "m' = (k2, v2) # m2"
    by (cases m') auto
  have fresh: "om_find m k = None" "om_find m2 k2 = None"
    using Cons.prems(1,2) by (auto simp: p m' om_ok_Cons intro!: om_find_fresh)
  have "\<not> k < k2"
  proof
    assume "k < k2"
    then have "om_find m' k = None"
      using Cons.prems(2) by (intro om_find_fresh) (auto simp: m' om_ok_Cons)
    then show False using \<open>om_find m' k = Some v\<close> by simp
  qed
  moreover have "\<not> k2 < k"
  proof
    assume "k2 < k"
    then have "om_find (p # m) k2 = None"
      using Cons.prems(1) by (intro om_find_fresh) (auto simp: p om_ok_Cons)
    then show False using Cons.prems(3) [of k2] by (simp add: m')
  qed
  ultimately have k: "k2 = k" by simp
  have "om_find m j = om_find m2 j" for j
    using Cons.prems(3) [of j] fresh by (cases "j = k") (auto simp: p m' k)
  then have "m = m2"
    using Cons.IH [of m2] Cons.prems(1,2) by (auto simp: p m' om_ok_Cons)
  moreover have "v2 = v"
    using \<open>om_find m' k = Some v\<close> by (simp add: m' k)
  ultimately show ?case by (simp add: p m' k)
qed

lemma om_assign_same: "om_ok m \<Longrightarrow> om_find m k = Some v \<Longrightarrow> om_assign k v m = m"
  by (rule om_eqI) (auto simp: om_ok_assign om_find_assign)

end
