(* ===== verification/PoolSpec.thy ===== *)
theory PoolSpec
  imports Prelude
begin

text \<open>
  What the database pool and the cache pool have in common: threads that ask for a connection,
  wait when the pool is exhausted, and give connections back, interleaved in any order. The
  interface \<open>conn_pool\<close> states what a pool promises; the safety of every interleaving is proved from
  it once, and each pool is shown to keep the promises.
\<close>

section \<open>Connections and outcomes\<close>

text \<open>A connection object is identified by the pool that created it and a number; the identity
  stands for the pointer the pool hands out.\<close>

datatype conn = Conn (conn_pool_name: string) (conn_serial: nat)

text \<open>One critical section of a request: a connection is taken, the request is refused with a null
  pointer, or the caller goes to sleep on the condition variable.\<close>

datatype ('c, 'p) acquire = Granted 'c 'p | Refused 'p | MustWait 'p

section \<open>Interleavings of several threads\<close>

text \<open>Each operation runs under the pool's mutex, so a step is one critical section. \<open>po_enter\<close> is
  the section from the start of a request to its end or to the wait, \<open>po_wake\<close> the predicate the
  waiter re-checks, \<open>po_resume\<close> the section after the wait, \<open>po_release\<close> the return of a
  connection, which also tells whether it calls \<open>notify_one\<close>. \<open>'w\<close> is the state of the outside world a
  new connection depends on.\<close>

record ('p, 'c, 'w) pool_ops =
  po_enter :: "'p \<Rightarrow> 'w \<Rightarrow> ('c, 'p) acquire \<times> 'w"
  po_wake :: "'p \<Rightarrow> bool"
  po_resume :: "'p \<Rightarrow> ('c, 'p) acquire"
  po_release :: "'c \<Rightarrow> 'p \<Rightarrow> 'p \<times> bool"

text \<open>\<open>waiting\<close> are the threads inside the wait, \<open>notified\<close> those of them that were woken by a call of
  \<open>notify_one\<close> and have not run yet, \<open>timed\<close> those whose wait has a timeout.\<close>

record ('p, 'c) sched =
  pool :: 'p
  held :: "nat \<Rightarrow> 'c list"
  waiting :: "nat \<Rightarrow> bool"
  notified :: "nat set"
  timed :: "nat \<Rightarrow> bool"

text \<open>\<open>notify_one\<close> wakes one of the threads that are still asleep, any one of them; when there is none
  it has no effect, now or later.\<close>

inductive notify_one :: "(nat \<Rightarrow> bool) \<Rightarrow> nat set \<Rightarrow> nat set \<Rightarrow> bool"
  for wt :: "nat \<Rightarrow> bool" and nt :: "nat set"
where
  notify_sleeper: "wt u \<Longrightarrow> u \<notin> nt \<Longrightarrow> notify_one wt nt (insert u nt)"
| notify_nobody: "(\<And>u. wt u \<Longrightarrow> u \<in> nt) \<Longrightarrow> notify_one wt nt nt"

text \<open>A waiter may run when it was notified, and, because the condition variable of C++ may wake up
  spuriously, also when it was not; it goes on only if its predicate holds or its time is over, else it
  sleeps again.\<close>

inductive sched_step :: "('p, 'c, 'w) pool_ops \<Rightarrow> ('p, 'c) sched \<Rightarrow> ('p, 'c) sched \<Rightarrow> bool"
  for ops :: "('p, 'c, 'w) pool_ops"
where
  step_get: "\<not> waiting s t \<Longrightarrow> po_enter ops (pool s) w = (Granted c p', w') \<Longrightarrow>
     sched_step ops s (s\<lparr>pool := p', held := (held s)(t := c # held s t)\<rparr>)"
| step_refuse: "\<not> waiting s t \<Longrightarrow> po_enter ops (pool s) w = (Refused p', w') \<Longrightarrow>
     sched_step ops s (s\<lparr>pool := p'\<rparr>)"
| step_block: "\<not> waiting s t \<Longrightarrow> po_enter ops (pool s) w = (MustWait p', w') \<Longrightarrow>
     sched_step ops s (s\<lparr>pool := p', waiting := (waiting s)(t := True)\<rparr>)"
| step_wake: "waiting s t \<Longrightarrow> po_wake ops (pool s) \<or> timed s t \<Longrightarrow>
     po_resume ops (pool s) = Granted c p' \<Longrightarrow>
     sched_step ops s (s\<lparr>pool := p', held := (held s)(t := c # held s t),
       waiting := (waiting s)(t := False), notified := notified s - {t}\<rparr>)"
| step_give_up: "waiting s t \<Longrightarrow> po_wake ops (pool s) \<or> timed s t \<Longrightarrow>
     po_resume ops (pool s) = Refused p' \<Longrightarrow>
     sched_step ops s (s\<lparr>pool := p', waiting := (waiting s)(t := False), notified := notified s - {t}\<rparr>)"
| step_sleep: "waiting s t \<Longrightarrow> t \<in> notified s \<Longrightarrow> \<not> po_wake ops (pool s) \<Longrightarrow>
     sched_step ops s (s\<lparr>notified := notified s - {t}\<rparr>)"
| step_release: "\<not> waiting s t \<Longrightarrow> c \<in> set (held s t) \<Longrightarrow> po_release ops c (pool s) = (p', signal) \<Longrightarrow>
     (if signal then notify_one (waiting s) (notified s) nt else nt = notified s) \<Longrightarrow>
     sched_step ops s (s\<lparr>pool := p', held := (held s)(t := remove1 c (held s t)), notified := nt\<rparr>)"

inductive sched_reach :: "('p, 'c, 'w) pool_ops \<Rightarrow> 'p \<Rightarrow> ('p, 'c) sched \<Rightarrow> bool"
  for ops :: "('p, 'c, 'w) pool_ops" and p0 :: 'p
where
  reach_start: "sched_reach ops p0
     \<lparr>pool = p0, held = (\<lambda>_. []), waiting = (\<lambda>_. False), notified = {}, timed = tm\<rparr>"
| reach_step: "sched_reach ops p0 s \<Longrightarrow> sched_step ops s s' \<Longrightarrow> sched_reach ops p0 s'"

section \<open>The abstract pool\<close>

text \<open>The contract seen from outside: a set of free connections and who owns which connection. A
  free connection may be taken, a new one created below the limit, an owned one given back.\<close>

record 'c tokens =
  avail :: "'c set"
  owns :: "(nat \<times> 'c) set"

inductive token_step :: "nat \<Rightarrow> 'c tokens \<Rightarrow> 'c tokens \<Rightarrow> bool" for lim :: nat
where
  token_take: "c \<in> avail a \<Longrightarrow>
     token_step lim a \<lparr>avail = avail a - {c}, owns = insert (t, c) (owns a)\<rparr>"
| token_create: "avail a = {} \<Longrightarrow> c \<notin> snd ` owns a \<Longrightarrow> card (snd ` owns a) < lim \<Longrightarrow>
     token_step lim a \<lparr>avail = {}, owns = insert (t, c) (owns a)\<rparr>"
| token_give: "(t, c) \<in> owns a \<Longrightarrow>
     token_step lim a \<lparr>avail = insert c (avail a), owns = owns a - {(t, c)}\<rparr>"
| token_stay: "token_step lim a a"

text \<open>The view of a system state that the abstract pool describes.\<close>

definition token_view :: "('p \<Rightarrow> 'c list) \<Rightarrow> ('p, 'c) sched \<Rightarrow> 'c tokens" where
  "token_view free s =
     \<lparr>avail = set (free (pool s)), owns = {(t, c). c \<in> set (held s t)}\<rparr>"

text \<open>Free and held connections are disjoint, each is in one place only, and together they are
  the live ones.\<close>

definition sched_inv :: "('p \<Rightarrow> 'c list) \<Rightarrow> ('p \<Rightarrow> 'c set) \<Rightarrow> ('p, 'c) sched \<Rightarrow> bool" where
  "sched_inv free live s \<longleftrightarrow>
     distinct (free (pool s)) \<and> (\<forall>t. distinct (held s t)) \<and>
     (\<forall>t. set (held s t) \<inter> set (free (pool s)) = {}) \<and>
     (\<forall>t u. t \<noteq> u \<longrightarrow> set (held s t) \<inter> set (held s u) = {}) \<and>
     live (pool s) = set (free (pool s)) \<union> (\<Union>t. set (held s t))"

lemma sched_inv_owner:
  assumes "sched_inv free live s" "c \<in> set (held s t)"
  shows "c \<notin> set (free (pool s))" "c \<in> set (held s u) \<Longrightarrow> u = t" "distinct (held s t)"
  using assms unfolding sched_inv_def by blast+

lemma sched_inv_start:
  "distinct (free p0) \<Longrightarrow> live p0 = set (free p0) \<Longrightarrow>
     sched_inv free live \<lparr>pool = p0, held = (\<lambda>_. []), waiting = (\<lambda>_. False), notified = {}, timed = tm\<rparr>"
  by (simp add: sched_inv_def)

lemma sched_inv_take:
  assumes "sched_inv free live s" "free (pool s) = c # free p'" "live p' = live (pool s)"
  shows "sched_inv free live (s\<lparr>pool := p', held := (held s)(t := c # held s t)\<rparr>)"
  using assms unfolding sched_inv_def by (auto split: if_splits)

lemma sched_inv_create:
  assumes "sched_inv free live s" "free (pool s) = []" "free p' = []"
    and "c \<notin> live (pool s)" "live p' = insert c (live (pool s))"
  shows "sched_inv free live (s\<lparr>pool := p', held := (held s)(t := c # held s t)\<rparr>)"
  using assms unfolding sched_inv_def by (auto split: if_splits)

lemma sched_inv_stay:
  assumes "sched_inv free live s" "free p' = free (pool s)" "live p' = live (pool s)"
  shows "sched_inv free live (s\<lparr>pool := p'\<rparr>)"
  using assms unfolding sched_inv_def by simp

lemma sched_inv_give:
  assumes "sched_inv free live s" "c \<in> set (held s t)"
    and "free p' = free (pool s) @ [c]" "live p' = live (pool s)"
  shows "sched_inv free live (s\<lparr>pool := p', held := (held s)(t := remove1 c (held s t))\<rparr>)"
proof -
  note owner = sched_inv_owner [OF assms(1,2)]
  let ?h = "(held s)(t := remove1 c (held s t))"
  have h: "set (?h u) = set (held s u) - {c}" for u
    using owner by auto
  have "(\<Union>u. set (held s u)) = insert c (\<Union>u. set (held s u) - {c})"
    using assms(2) by blast
  then show ?thesis
    using assms owner(1) unfolding sched_inv_def by (simp add: h del: fun_upd_apply) (simp, blast)
qed

lemma token_view_owned: "snd ` owns (token_view free s) = (\<Union>t. set (held s t))"
  by (force simp: token_view_def)

lemma sched_inv_waiting [simp]:
  "sched_inv free live (s\<lparr>notified := nt\<rparr>) = sched_inv free live s"
  "sched_inv free live (s\<lparr>pool := p', waiting := wt\<rparr>) = sched_inv free live (s\<lparr>pool := p'\<rparr>)"
  "sched_inv free live (s\<lparr>pool := p', waiting := wt, notified := nt\<rparr>) = sched_inv free live (s\<lparr>pool := p'\<rparr>)"
  "sched_inv free live (s\<lparr>pool := p', held := h, waiting := wt\<rparr>) =
     sched_inv free live (s\<lparr>pool := p', held := h\<rparr>)"
  "sched_inv free live (s\<lparr>pool := p', held := h, notified := nt\<rparr>) =
     sched_inv free live (s\<lparr>pool := p', held := h\<rparr>)"
  "sched_inv free live (s\<lparr>pool := p', held := h, waiting := wt, notified := nt\<rparr>) =
     sched_inv free live (s\<lparr>pool := p', held := h\<rparr>)"
  by (simp_all add: sched_inv_def)

text \<open>No wake-up is lost: only waiting threads are notified, and as long as one of them is not, there are
  at least as many notified threads as free connections.\<close>

definition wakeups_kept :: "('p \<Rightarrow> 'c list) \<Rightarrow> ('p, 'c) sched \<Rightarrow> bool" where
  "wakeups_kept free s \<longleftrightarrow> finite (notified s) \<and> notified s \<subseteq> {t. waiting s t} \<and>
     ({t. waiting s t} \<subseteq> notified s \<or> length (free (pool s)) \<le> card (notified s))"

lemma wakeups_kept_notify_one:
  assumes "notify_one (waiting s) (notified s) nt" "wakeups_kept free s" "length (free p') \<le> Suc (length (free (pool s)))"
  shows "wakeups_kept free (s\<lparr>pool := p', held := h, notified := nt\<rparr>)"
  using assms(1) by cases (use assms(2,3) in \<open>auto simp: wakeups_kept_def\<close>)

text \<open>A waiter that leaves the wait takes at most its own wake-up with it.\<close>

lemma wakeups_kept_leave:
  assumes "wakeups_kept free s" "free p' = [] \<or> length (free (pool s)) = Suc (length (free p'))"
  shows "wakeups_kept free (s\<lparr>pool := p', held := h, waiting := (waiting s)(t := False), notified := notified s - {t}\<rparr>)"
proof -
  have "card (notified s) \<le> Suc (card (notified s - {t}))"
    using assms(1) by (cases "t \<in> notified s") (simp_all add: wakeups_kept_def card_Suc_Diff1)
  moreover have "{u. waiting s u} \<subseteq> notified s \<Longrightarrow> {u. ((waiting s)(t := False)) u} \<subseteq> notified s - {t}" by auto
  moreover have "notified s \<subseteq> {u. waiting s u} \<Longrightarrow> notified s - {t} \<subseteq> {u. ((waiting s)(t := False)) u}" by auto
  ultimately show ?thesis using assms unfolding wakeups_kept_def by fastforce
qed

section \<open>The interface of a pool\<close>

locale conn_pool =
  fixes ops :: "('p, 'c, 'w) pool_ops"
    and free :: "'p \<Rightarrow> 'c list"
    and live :: "'p \<Rightarrow> 'c set"
    and limit :: "'p \<Rightarrow> nat"
    and closed :: "'p \<Rightarrow> bool"
    and wf :: "'p \<Rightarrow> bool"
  assumes finite_live: "finite (live p)"
    and enter_granted: "po_enter ops p w = (Granted c p', w') \<Longrightarrow> wf p \<Longrightarrow>
          wf p' \<and> limit p' = limit p \<and> closed p' = closed p \<and>
          (free p = c # free p' \<and> live p' = live p \<or>
           free p = [] \<and> free p' = [] \<and> c \<notin> live p \<and> live p' = insert c (live p) \<and>
             card (live p) < limit p)"
    and enter_refused: "po_enter ops p w = (Refused p', w') \<Longrightarrow> wf p \<Longrightarrow>
          wf p' \<and> limit p' = limit p \<and> closed p' = closed p \<and> free p' = free p \<and> live p' = live p"
    and enter_wait: "po_enter ops p w = (MustWait p', w') \<Longrightarrow> wf p \<Longrightarrow>
          wf p' \<and> limit p' = limit p \<and> closed p' = closed p \<and> free p = [] \<and> free p' = free p \<and> live p' = live p"
    and resume_granted: "po_resume ops p = Granted c p' \<Longrightarrow> wf p \<Longrightarrow>
          wf p' \<and> limit p' = limit p \<and> closed p' = closed p \<and> free p = c # free p' \<and> live p' = live p"
    and resume_refused: "po_resume ops p = Refused p' \<Longrightarrow> wf p \<Longrightarrow>
          wf p' \<and> limit p' = limit p \<and> closed p' = closed p \<and> free p' = free p \<and> live p' = live p"
    and resume_open: "free p \<noteq> [] \<Longrightarrow> \<not> closed p \<Longrightarrow> \<exists>c p'. po_resume ops p = Granted c p'"
    and wake_free: "free p \<noteq> [] \<Longrightarrow> po_wake ops p"
    and release: "po_release ops c p = (p', signal) \<Longrightarrow>
          (wf p \<longrightarrow> wf p') \<and> limit p' = limit p \<and> closed p' = closed p \<and> live p' = live p \<and>
          (if c \<in> set (free p) then free p' = free p else free p' = free p @ [c] \<and> signal)"
begin

lemmas section_facts = enter_granted enter_refused enter_wait resume_granted resume_refused

lemma step_wf:
  "sched_step ops s s' \<Longrightarrow> wf (pool s) \<Longrightarrow> wf (pool s') \<and> limit (pool s') = limit (pool s)"
  by (induction rule: sched_step.induct) (auto dest: section_facts release)

lemma step_inv:
  assumes "sched_step ops s s'" "wf (pool s)" "sched_inv free live s"
  shows "sched_inv free live s'"
  using assms
proof (induction rule: sched_step.induct)
  case (step_get s t w c p' w')
  from enter_granted [OF step_get.hyps(2) step_get.prems(1)] step_get.prems show ?case
    by (auto intro: sched_inv_take sched_inv_create)
next
  case (step_release s t c p' signal nt)
  have "c \<notin> set (free (pool s))"
    using step_release by (auto simp: sched_inv_def)
  with release [OF step_release.hyps(3)] have "free p' = free (pool s) @ [c]" "live p' = live (pool s)" by simp_all
  then show ?case
    using step_release.prems(2) step_release.hyps(2) by (simp add: sched_inv_give)
qed (auto dest!: enter_refused enter_wait resume_granted resume_refused
       intro: sched_inv_stay sched_inv_take)

lemma reach_inv:
  assumes "sched_reach ops p0 s" "wf p0" "distinct (free p0)" "live p0 = set (free p0)"
  shows "wf (pool s) \<and> limit (pool s) = limit p0 \<and> sched_inv free live s"
  using assms
  by (induction rule: sched_reach.induct) (auto simp: sched_inv_start step_inv step_wf)

text \<open>No connection is in two hands, nor in a hand and in the free list.\<close>

lemma exclusive:
  assumes "sched_reach ops p0 s" "wf p0" "distinct (free p0)" "live p0 = set (free p0)"
    and "c \<in> set (held s t)"
  shows "c \<notin> set (free (pool s)) \<and> (\<forall>u. c \<in> set (held s u) \<longrightarrow> u = t) \<and>
    count_list (held s t) c = 1"
proof -
  have inv: "sched_inv free live s" using reach_inv assms(1-4) by blast
  note owner = sched_inv_owner [OF inv assms(5)]
  show ?thesis
    using owner(1,2) distinct_count_list [OF owner(3) assms(5)] by blast
qed

lemma step_bound:
  assumes "sched_step ops s s'" "wf (pool s)" "card (live (pool s)) \<le> max n (limit (pool s))"
  shows "card (live (pool s')) \<le> max n (limit (pool s))"
  using assms
proof (induction rule: sched_step.induct)
  case (step_get s t w c p' w')
  from enter_granted [OF step_get.hyps(2) step_get.prems(1)] step_get.prems show ?case
    by (auto simp: finite_live)
qed (auto dest!: enter_refused enter_wait resume_granted resume_refused release)

lemma bound:
  assumes "sched_reach ops p0 s" "wf p0"
  shows "wf (pool s) \<and> limit (pool s) = limit p0 \<and>
    card (live (pool s)) \<le> max (card (live p0)) (limit p0)"
  using assms
proof (induction rule: sched_reach.induct)
  case (reach_step s s')
  then have IH: "wf (pool s)" "limit (pool s) = limit p0"
    "card (live (pool s)) \<le> max (card (live p0)) (limit (pool s))" by simp_all
  show ?case
    using step_wf [OF reach_step.hyps(2) IH(1)] step_bound [OF reach_step.hyps(2) IH(1,3)] IH(2)
    by simp
qed simp

text \<open>Every step is a step of the abstract pool.\<close>

lemma refines:
  assumes "sched_step ops s s'" "wf (pool s)" "sched_inv free live s"
  shows "token_step (limit (pool s)) (token_view free s) (token_view free s')"
  using assms
proof (induction rule: sched_step.induct)
  case (step_get s t w c p' w')
  let ?v = "token_view free s"
  have owns: "{(u, d). d \<in> set (((held s)(t := c # held s t)) u)} = insert (t, c) (owns ?v)"
    by (auto simp: token_view_def split: if_splits)
  from enter_granted [OF step_get.hyps(2) step_get.prems(1)] consider
      (old) "free (pool s) = c # free p'"
    | (new) "free (pool s) = []" "free p' = []" "c \<notin> live (pool s)"
        "card (live (pool s)) < limit (pool s)" by blast
  then show ?case
  proof cases
    case old
    then have "avail ?v - {c} = set (free p')" "c \<in> avail ?v"
      using step_get.prems by (auto simp: token_view_def sched_inv_def)
    then show ?thesis
      using token_take [of c ?v "limit (pool s)" t] owns by (simp add: token_view_def)
  next
    case new
    have "snd ` owns ?v = live (pool s)"
      using new(1) step_get.prems by (simp add: token_view_owned sched_inv_def)
    then show ?thesis
      using token_create [of ?v c "limit (pool s)" t] owns new by (simp add: token_view_def)
  qed
next
  case (step_wake s t c p')
  let ?v = "token_view free s"
  have free: "free (pool s) = c # free p'" using resume_granted [OF step_wake.hyps(3) step_wake.prems(1)] by simp
  have "{(u, d). d \<in> set (((held s)(t := c # held s t)) u)} = insert (t, c) (owns ?v)"
    by (auto simp: token_view_def split: if_splits)
  moreover have "avail ?v - {c} = set (free p')" "c \<in> avail ?v"
    using step_wake.prems free by (auto simp: token_view_def sched_inv_def)
  ultimately show ?case
    using token_take [of c ?v "limit (pool s)" t] by (simp add: token_view_def)
next
  case (step_release s t c p' signal nt)
  let ?v = "token_view free s"
  have "c \<notin> set (free (pool s))" using step_release by (auto simp: sched_inv_def)
  then have free: "set (free p') = insert c (set (free (pool s)))"
    using release [OF step_release.hyps(3)] by simp
  have "(t, c) \<in> owns ?v" "c \<notin> set (free (pool s))" "distinct (held s t)"
    using step_release by (auto simp: token_view_def sched_inv_def)

  moreover from this have
    "{(u, d). d \<in> set (((held s)(t := remove1 c (held s t))) u)} = owns ?v - {(t, c)}"
    by (auto simp: token_view_def split: if_splits)
  ultimately show ?case
    using token_give [of t c ?v "limit (pool s)"] by (simp add: token_view_def free)
qed (auto dest!: enter_refused enter_wait resume_refused simp: token_view_def token_stay)

text \<open>Every return of a connection wakes a waiter, so while a connection is free and a thread waits, some
  waiter has been notified and not run yet; its next step takes a connection.\<close>

lemma step_wakeups:
  assumes "sched_step ops s s'" "wf (pool s)" "\<not> closed (pool s)" "wakeups_kept free s"
  shows "wakeups_kept free s' \<and> \<not> closed (pool s')"
  using assms
proof (induction rule: sched_step.induct)
  case (step_get s t w c p' w')
  from enter_granted [OF step_get.hyps(2) step_get.prems(1)] step_get.prems show ?case
    by (auto simp: wakeups_kept_def)
next
  case (step_block s t w p' w')
  from enter_wait [OF step_block.hyps(2) step_block.prems(1)] step_block.prems show ?case
    by (auto simp: wakeups_kept_def)
next
  case (step_wake s t c p')
  from resume_granted [OF step_wake.hyps(3) step_wake.prems(1)] step_wake.prems show ?case
    by (simp add: wakeups_kept_leave)
next
  case (step_give_up s t p')
  note refused = resume_refused [OF step_give_up.hyps(3) step_give_up.prems(1)]
  have "free (pool s) = []" using resume_open step_give_up by force
  then show ?case
    using refused step_give_up.prems wakeups_kept_leave [where free = free and s = s and p' = p' and h = "held s" and t = t] by simp
next
  case (step_sleep s t)
  then have "free (pool s) = []" using wake_free by blast
  then show ?case using step_sleep by (auto simp: wakeups_kept_def)
next
  case (step_release s t c p' signal nt)
  note rel = release [OF step_release.hyps(3)]
  show ?case
  proof (cases "signal")
    case True
    then have "notify_one (waiting s) (notified s) nt" using step_release.hyps(4) by simp
    then show ?thesis
      using rel step_release.prems wakeups_kept_notify_one [of s nt free p']
      by (simp split: if_splits)
  next
    case False
    then show ?thesis using rel step_release by (auto simp: wakeups_kept_def split: if_splits)
  qed
qed (auto dest!: enter_refused simp: wakeups_kept_def)

lemma reach_wakeups:
  assumes "sched_reach ops p0 s" "wf p0" "\<not> closed p0"
  shows "wf (pool s) \<and> wakeups_kept free s \<and> \<not> closed (pool s)"
  using assms
proof (induction rule: sched_reach.induct)
  case (reach_start tm)
  then show ?case by (simp add: wakeups_kept_def)
next
  case (reach_step s s')
  then show ?case using step_wakeups [OF reach_step.hyps(2)] step_wf [OF reach_step.hyps(2)] by simp
qed

lemma wakeup_not_lost:
  assumes "sched_reach ops p0 s" "wf p0" "\<not> closed p0" "waiting s t" "free (pool s) \<noteq> []"
  shows "\<exists>u c s'. waiting s u \<and> u \<in> notified s \<and> sched_step ops s s' \<and> held s' u = c # held s u \<and>
    \<not> waiting s' u"
proof -
  note ok = reach_wakeups [OF assms(1-3)]
  then obtain u where u: "u \<in> notified s" "waiting s u"
    using assms(4,5) by (cases "notified s = {}") (auto simp: wakeups_kept_def)
  obtain c p' where "po_resume ops (pool s) = Granted c p'"
    using resume_open [OF assms(5)] ok by blast
  from step_wake [OF u(2) _ this] have "sched_step ops s (s\<lparr>pool := p', held := (held s)(u := c # held s u),
      waiting := (waiting s)(u := False), notified := notified s - {u}\<rparr>)"
    using wake_free [OF assms(5)] by blast
  moreover have "held (s\<lparr>pool := p', held := (held s)(u := c # held s u),
      waiting := (waiting s)(u := False), notified := notified s - {u}\<rparr>) u = c # held s u" by simp
  moreover have "\<not> waiting (s\<lparr>pool := p', held := (held s)(u := c # held s u),
      waiting := (waiting s)(u := False), notified := notified s - {u}\<rparr>) u" by simp
  ultimately show ?thesis using u by blast
qed

text \<open>An exhausted pool hands out nothing.\<close>

lemma exhausted:
  assumes "wf p" "free p = []" "limit p \<le> card (live p)"
  shows "fst (po_enter ops p w) \<noteq> Granted c p'"
  using assms enter_granted [of p w c p'] by (cases "po_enter ops p w") auto

end

end
