(* ===== verification/MySql.thy ===== *)
theory MySql
  imports CString OrdMap PoolSpec
begin

text \<open>
  The database access objects (\<^verbatim>\<open>src/db-conn-pool\<close>): \<open>ResultSet\<close>, \<open>DBConn\<close> and \<open>PrepareStatement\<close>. The
  MySQL client library is a record of functions on an outside world of type \<open>'w\<close>, which holds the
  server, the network and every connection's session; nothing is assumed about it here.
\<close>

section \<open>The client library\<close>

text \<open>A stored result: the column names and the rows, each cell a C string or NULL.\<close>

record mysql_res =
  res_fields :: "string list"
  res_rows :: "string option list list"

text \<open>A bound parameter of a prepared statement: never set, a buffer, or a pointer whose object is
  gone.\<close>

datatype bind = BindUnset | BindStr string | BindDangling

text \<open>Each function is named after the library function it stands for. Functions that report an
  error code report it here as a boolean that is true on error.\<close>

record 'w mysql_lib =
  my_init :: "conn \<Rightarrow> 'w \<Rightarrow> bool \<times> 'w"
  my_set_charset :: "conn \<Rightarrow> string \<Rightarrow> 'w \<Rightarrow> 'w"
  my_real_connect :: "conn \<Rightarrow> string \<Rightarrow> string \<Rightarrow> string \<Rightarrow> string \<Rightarrow> 16 word \<Rightarrow> 'w \<Rightarrow> bool \<times> 'w"
  my_close :: "conn \<Rightarrow> 'w \<Rightarrow> 'w"
  my_ping :: "conn \<Rightarrow> 'w \<Rightarrow> 'w"
  my_real_query :: "conn \<Rightarrow> string \<Rightarrow> 'w \<Rightarrow> bool \<times> 'w"
  my_store_result :: "conn \<Rightarrow> 'w \<Rightarrow> mysql_res option \<times> 'w"
  my_affected_rows :: "conn \<Rightarrow> 'w \<Rightarrow> 64 word \<times> 'w"
  my_insert_id :: "conn \<Rightarrow> 'w \<Rightarrow> 64 word \<times> 'w"
  my_stmt_init :: "conn \<Rightarrow> 'w \<Rightarrow> bool \<times> 'w"
  my_stmt_prepare :: "conn \<Rightarrow> string \<Rightarrow> 'w \<Rightarrow> bool \<times> 'w"
  my_stmt_param_count :: "conn \<Rightarrow> 'w \<Rightarrow> nat \<times> 'w"
  my_stmt_bind_param :: "conn \<Rightarrow> bind list \<Rightarrow> 'w \<Rightarrow> bool \<times> 'w"
  my_stmt_execute :: "conn \<Rightarrow> bind list \<Rightarrow> 'w \<Rightarrow> bool \<times> 'w"
  my_stmt_affected_rows :: "conn \<Rightarrow> 'w \<Rightarrow> 64 word \<times> 'w"
  my_stmt_insert_id :: "conn \<Rightarrow> 'w \<Rightarrow> 64 word \<times> 'w"
  my_stmt_close :: "conn \<Rightarrow> 'w \<Rightarrow> 'w"

text \<open>A library on which every call succeeds and every query returns no rows, for examples.\<close>

definition quiet_mysql :: "'w mysql_lib" where
  "quiet_mysql =
     \<lparr>my_init = \<lambda>c w. (True, w), my_set_charset = \<lambda>c s w. w,
      my_real_connect = \<lambda>c ip u pw db port w. (True, w), my_close = \<lambda>c w. w, my_ping = \<lambda>c w. w,
      my_real_query = \<lambda>c sql w. (False, w),
      my_store_result = \<lambda>c w. (Some \<lparr>res_fields = [], res_rows = []\<rparr>, w),
      my_affected_rows = \<lambda>c w. (1, w), my_insert_id = \<lambda>c w. (1, w),
      my_stmt_init = \<lambda>c w. (True, w), my_stmt_prepare = \<lambda>c sql w. (False, w),
      my_stmt_param_count = \<lambda>c w. (6, w), my_stmt_bind_param = \<lambda>c bs w. (False, w),
      my_stmt_execute = \<lambda>c bs w. (False, w), my_stmt_affected_rows = \<lambda>c w. (1, w),
      my_stmt_insert_id = \<lambda>c w. (1, w), my_stmt_close = \<lambda>c w. w\<rparr>"

section \<open>\<open>ResultSet\<close>\<close>

datatype row_ptr = RowUninit | RowNull | Row "string option list"

record result_set =
  rs_key_map :: "(string, int) omap"
  rs_row :: row_ptr
  rs_rest :: "string option list list"

fun index_fields :: "string list \<Rightarrow> int \<Rightarrow> (string, int) omap \<Rightarrow> (string, int) omap" where
  "index_fields [] i m = m"
| "index_fields (f # fs) i m = index_fields fs (i + 1) (om_insert f i m)"

definition ResultSet :: "mysql_res \<Rightarrow> result_set" where
  "ResultSet res =
     \<lparr>rs_key_map = index_fields (res_fields res) 0 om_empty, rs_row = RowUninit,
      rs_rest = res_rows res\<rparr>"

definition rs_next :: "result_set \<Rightarrow> bool \<times> result_set" where
  "rs_next r =
     (case rs_rest r of
        [] \<Rightarrow> (False, r\<lparr>rs_row := RowNull\<rparr>)
      | row # rest \<Rightarrow> (True, r\<lparr>rs_row := Row row, rs_rest := rest\<rparr>))"

definition getIndex :: "result_set \<Rightarrow> string \<Rightarrow> int" where
  "getIndex r key = (case om_find (rs_key_map r) key of Some i \<Rightarrow> i | None \<Rightarrow> -1)"

definition row_cell :: "row_ptr \<Rightarrow> int \<Rightarrow> string option res" where
  "row_cell row idx =
     (case row of
        RowUninit \<Rightarrow> Inl Uninit
      | RowNull \<Rightarrow> Inl NullDeref
      | Row cells \<Rightarrow>
          if 0 \<le> idx \<and> nat idx < length cells then Inr (map_option c_str (cells ! nat idx))
          else Inl OutOfBounds)"

definition getString :: "result_set \<Rightarrow> string \<Rightarrow> string option res" where
  "getString r key =
     (let idx = getIndex r key in if idx \<noteq> -1 then row_cell (rs_row r) idx else Inr None)"

definition getInt :: "result_set \<Rightarrow> string \<Rightarrow> int res" where
  "getInt r key =
     (let idx = getIndex r key
      in if idx \<noteq> -1
         then rbind (row_cell (rs_row r) idx)
                (\<lambda>cell. case cell of None \<Rightarrow> Inl NullDeref | Some s \<Rightarrow> Inr (atoi s))
         else Inr (-1))"

text \<open>Constructing or assigning a \<open>std::string\<close> from a \<open>char*\<close>.\<close>

definition string_of_ptr :: "string option \<Rightarrow> string res" where
  "string_of_ptr p = (case p of None \<Rightarrow> Inl NullDeref | Some s \<Rightarrow> Inr s)"

definition get_std_string :: "result_set \<Rightarrow> string \<Rightarrow> string res" where
  "get_std_string r key = rbind (getString r key) string_of_ptr"

section \<open>\<open>DBConn\<close>\<close>

text \<open>The bytes a query of \<open>sql_len\<close> bytes reads from the caller's memory.\<close>

definition sql_bytes :: "string \<Rightarrow> nat \<Rightarrow> string res" where
  "sql_bytes mem sql_len = (if sql_len \<le> length mem then Inr (take sql_len mem) else Inl OutOfBounds)"

definition run_query :: "'w mysql_lib \<Rightarrow> conn \<Rightarrow> string \<Rightarrow> 'w \<Rightarrow> bool \<times> 'w" where
  "run_query L c sql w = my_real_query L c sql (my_ping L c w)"

definition executeCreate :: "'w mysql_lib \<Rightarrow> conn \<Rightarrow> string \<Rightarrow> 'w \<Rightarrow> bool \<times> 'w" where
  "executeCreate L c sql w = apfst Not (run_query L c sql w)"

definition executePassQuery :: "'w mysql_lib \<Rightarrow> conn \<Rightarrow> string \<Rightarrow> 'w \<Rightarrow> bool \<times> 'w" where
  "executePassQuery L c sql w = apfst Not (run_query L c sql w)"

definition executeDrop :: "'w mysql_lib \<Rightarrow> conn \<Rightarrow> string \<Rightarrow> 'w \<Rightarrow> bool \<times> 'w" where
  "executeDrop L c sql w = apfst Not (run_query L c sql w)"

text \<open>The result set, the value of \<open>m_row_num\<close> after the call, and the world.\<close>

definition executeQuery ::
  "'w mysql_lib \<Rightarrow> conn \<Rightarrow> string \<Rightarrow> 'w \<Rightarrow> result_set option \<times> nat \<times> 'w" where
  "executeQuery L c sql w =
     (let (err, w) = run_query L c sql w
      in if err then (None, 0, w)
         else (let (res, w) = my_store_result L c w
               in case res of
                    None \<Rightarrow> (None, 0, w)
                  | Some r \<Rightarrow> (Some (ResultSet r), length (res_rows r), w)))"

definition executeUpdate :: "'w mysql_lib \<Rightarrow> conn \<Rightarrow> string \<Rightarrow> bool \<Rightarrow> 'w \<Rightarrow> bool \<times> 'w" where
  "executeUpdate L c sql if_care w =
     (let (err, w) = run_query L c sql w
      in if err then (False, w)
         else (let (n, w) = my_affected_rows L c w
               in if n > 0 then (True, w) else if if_care then (False, w) else (True, w)))"

definition startTransaction :: "'w mysql_lib \<Rightarrow> conn \<Rightarrow> 'w \<Rightarrow> bool \<times> 'w" where
  "startTransaction L c w = apfst Not (run_query L c (take 17 (''start transaction'' @ [LF])) w)"

definition rollback :: "'w mysql_lib \<Rightarrow> conn \<Rightarrow> 'w \<Rightarrow> bool \<times> 'w" where
  "rollback L c w = apfst Not (run_query L c (take 8 (''rollback'' @ [LF])) w)"

definition commit :: "'w mysql_lib \<Rightarrow> conn \<Rightarrow> 'w \<Rightarrow> bool \<times> 'w" where
  "commit L c w = apfst Not (run_query L c (take 6 (''commit'' @ [LF])) w)"

definition getInsertId :: "'w mysql_lib \<Rightarrow> conn \<Rightarrow> 'w \<Rightarrow> 32 word \<times> 'w" where
  "getInsertId L c w = apfst ucast (my_insert_id L c w)"

section \<open>\<open>PrepareStatement\<close>\<close>

record prepare_statement =
  ps_stmt :: bool
  ps_bind :: "bind list option"
  ps_param_count :: nat

definition PrepareStatement :: prepare_statement where
  "PrepareStatement = \<lparr>ps_stmt = False, ps_bind = None, ps_param_count = 0\<rparr>"

definition ps_init ::
  "'w mysql_lib \<Rightarrow> conn \<Rightarrow> string \<Rightarrow> prepare_statement \<Rightarrow> 'w \<Rightarrow> bool \<times> prepare_statement \<times> 'w" where
  "ps_init L c sql ps w =
     (let (ok, w) = my_stmt_init L c (my_ping L c w);
          ps = ps\<lparr>ps_stmt := ok\<rparr>
      in if \<not> ok then (False, ps, w)
         else (let (err, w) = my_stmt_prepare L c sql w
               in if err then (False, ps, w)
                  else (let (n, w) = my_stmt_param_count L c w;
                            ps = ps\<lparr>ps_param_count := n\<rparr>
                        in (True, if n > 0 then ps\<lparr>ps_bind := Some (replicate n BindUnset)\<rparr> else ps,
                            w))))"

text \<open>The buffer of a parameter is set to point at the caller's object. The two integer overloads
  store the address of their own by-value parameter, which is gone when the call returns; the string
  overload stores the address of the caller's string, which is gone if that string is a temporary.\<close>

definition ps_set :: "nat \<Rightarrow> bind \<Rightarrow> prepare_statement \<Rightarrow> prepare_statement" where
  "ps_set index b ps =
     (if index \<ge> ps_param_count ps then ps
      else ps\<lparr>ps_bind := map_option (\<lambda>bs. bs[index := b]) (ps_bind ps)\<rparr>)"

definition setParam_int :: "nat \<Rightarrow> int \<Rightarrow> prepare_statement \<Rightarrow> prepare_statement" where
  "setParam_int index value ps = ps_set index BindDangling ps"

definition setParam_uint :: "nat \<Rightarrow> 32 word \<Rightarrow> prepare_statement \<Rightarrow> prepare_statement" where
  "setParam_uint index value ps = ps_set index BindDangling ps"

definition setParam_string :: "nat \<Rightarrow> string \<Rightarrow> prepare_statement \<Rightarrow> prepare_statement" where
  "setParam_string index value ps = ps_set index (BindStr value) ps"

definition setParam_temporary :: "nat \<Rightarrow> string \<Rightarrow> prepare_statement \<Rightarrow> prepare_statement" where
  "setParam_temporary index value ps = ps_set index BindDangling (setParam_string index value ps)"

definition ps_binds :: "prepare_statement \<Rightarrow> bind list" where
  "ps_binds ps = (case ps_bind ps of None \<Rightarrow> [] | Some bs \<Rightarrow> bs)"

text \<open>Executing the statement reads every bound buffer.\<close>

definition ps_executeUpdate ::
  "'w mysql_lib \<Rightarrow> conn \<Rightarrow> prepare_statement \<Rightarrow> 'w \<Rightarrow> (bool \<times> 'w) res" where
  "ps_executeUpdate L c ps w =
     (if \<not> ps_stmt ps then Inr (False, w)
      else (let (err, w) = my_stmt_bind_param L c (ps_binds ps) w
            in if err then Inr (False, w)
               else if BindDangling \<in> set (ps_binds ps) then Inl Dangling
               else (let (err, w) = my_stmt_execute L c (ps_binds ps) w
                     in if err then Inr (False, w)
                        else (let (n, w) = my_stmt_affected_rows L c w
                              in Inr (n \<noteq> 0, w)))))"

definition ps_getInsertId :: "'w mysql_lib \<Rightarrow> conn \<Rightarrow> 'w \<Rightarrow> 32 word \<times> 'w" where
  "ps_getInsertId L c w = apfst ucast (my_stmt_insert_id L c w)"

definition ps_destroy :: "'w mysql_lib \<Rightarrow> conn \<Rightarrow> prepare_statement \<Rightarrow> 'w \<Rightarrow> 'w" where
  "ps_destroy L c ps w = (if ps_stmt ps then my_stmt_close L c w else w)"

section \<open>Lemmas\<close>

lemma index_fields_ok: "om_ok m \<Longrightarrow> om_ok (index_fields fs i m)"
  by (induction fs i m rule: index_fields.induct) (auto simp: om_ok_insert)

lemma om_find_index_fields:
  "om_ok m \<Longrightarrow> om_find (index_fields fs i m) f =
     (case om_find m f of
        Some j \<Rightarrow> Some j
      | None \<Rightarrow> map_option ((+) i) (map_of (zip fs (map int [0..<length fs])) f))"
proof (induction fs i m rule: index_fields.induct)
  case (1 i m)
  then show ?case by (simp split: option.splits)
next
  case (2 g fs i m)
  have shift: "map int [0..<length (g # fs)] = 0 # map (\<lambda>n. int n + 1) [0..<length fs]"
    by (simp add: map_upt_Suc add.commute del: upt_Suc)
  have zip: "map_of (zip fs (map (\<lambda>n. int n + 1) ns)) f =
      map_option (\<lambda>n. n + 1) (map_of (zip fs (map int ns)) f)" for ns
    by (simp add: zip_map2 map_of_map option.map_comp comp_def)
  show ?case
    unfolding index_fields.simps "2.IH" [OF om_ok_insert [OF "2.prems"]] shift
    using "2.prems"
    by (cases "map_of (zip fs (map int [0..<length fs])) f")
      (auto simp: om_find_insert zip simp del: map_of_zip_is_None split: option.splits)
qed

text \<open>The column found for a name is the first one with that name.\<close>

lemma getIndex_map_of:
  "rs_key_map r = rs_key_map (ResultSet res) \<Longrightarrow> getIndex r key =
     (case map_of (zip (res_fields res) (map int [0..<length (res_fields res)])) key of
        Some i \<Rightarrow> i | None \<Rightarrow> -1)"
  by (auto simp: getIndex_def ResultSet_def om_find_index_fields om_ok_empty om_find_empty
      simp del: map_of_zip_is_None split: option.splits)

lemma map_of_zip_index:
  assumes "length xs = length fs"
  shows "case map_of (zip fs (map int [0..<length fs])) k of
           Some i \<Rightarrow> 0 \<le> i \<and> nat i < length fs \<and> map_of (zip fs xs) k = Some (xs ! nat i)
         | None \<Rightarrow> map_of (zip fs xs) k = None"
proof -
  let ?is = "[0..<length fs]"
  have "map_of (zip fs (map int ?is)) k = map_option int (map_of (zip fs ?is) k)"
    by (simp add: zip_map2 map_of_map)
  moreover have "map_of (zip fs xs) k = map_option ((!) xs) (map_of (zip fs ?is) k)"
  proof -
    have "zip fs xs = zip fs (map ((!) xs) ?is)" using assms by (simp add: map_nth flip: assms)
    then show ?thesis by (simp add: zip_map2 map_of_map)
  qed
  moreover have "map_of (zip fs ?is) k = Some i \<Longrightarrow> i < length fs" for i
    by (auto dest!: map_of_SomeD set_zip_rightD)
  ultimately show ?thesis
    by (cases "map_of (zip fs ?is) k") (auto simp del: map_of_zip_is_None)
qed

lemma getString_row:
  assumes "rs_key_map r = rs_key_map (ResultSet res)" "rs_row r = Row row"
    and "length row = length (res_fields res)"
  shows "getString r key =
    Inr (case map_of (zip (res_fields res) row) key of
           None \<Rightarrow> None | Some cell \<Rightarrow> map_option c_str cell)"
  using map_of_zip_index [OF assms(3), of key] assms(2,3)
  by (auto simp: getString_def getIndex_map_of [OF assms(1)] row_cell_def Let_def
      simp del: map_of_zip_is_None split: option.splits)

lemma getInt_row:
  assumes "rs_key_map r = rs_key_map (ResultSet res)" "rs_row r = Row row"
    and "length row = length (res_fields res)"
  shows "getInt r key =
    (case map_of (zip (res_fields res) row) key of
       None \<Rightarrow> Inr (-1) | Some None \<Rightarrow> Inl NullDeref | Some (Some s) \<Rightarrow> Inr (atoi (c_str s)))"
  using map_of_zip_index [OF assms(3), of key] assms(2,3)
  by (auto simp: getInt_def getIndex_map_of [OF assms(1)] row_cell_def Let_def
      simp del: map_of_zip_is_None split: option.splits)

lemma rs_next_ResultSet:
  "rs_next (ResultSet res) =
     (case res_rows res of
        [] \<Rightarrow> (False, (ResultSet res)\<lparr>rs_row := RowNull\<rparr>)
      | row # rest \<Rightarrow> (True, (ResultSet res)\<lparr>rs_row := Row row, rs_rest := rest\<rparr>))"
  by (simp add: rs_next_def ResultSet_def split: list.splits)

section \<open>Properties\<close>

text \<open>After each row is fetched, reading a column by name gives the cell of the first column of
  that name (a null pointer for SQL NULL and for an unknown column), and reading it as a number gives
  -1 for an unknown column but dereferences a null pointer for SQL NULL.\<close>

theorem ResultSet_column_access:
  assumes "res_rows res = row # rest" "length row = length (res_fields res)"
    and "rs_next (ResultSet res) = (b, r)"
  shows "b \<and> getString r key =
           Inr (case map_of (zip (res_fields res) row) key of
                  None \<Rightarrow> None | Some cell \<Rightarrow> map_option c_str cell) \<and>
         getInt r key =
           (case map_of (zip (res_fields res) row) key of
              None \<Rightarrow> Inr (-1) | Some None \<Rightarrow> Inl NullDeref | Some (Some s) \<Rightarrow> Inr (atoi (c_str s)))"
proof -
  have "b" "rs_key_map r = rs_key_map (ResultSet res)" "rs_row r = Row row"
    using assms(1,3) by (auto simp: rs_next_ResultSet)
  with getString_row getInt_row assms(2) show ?thesis by blast
qed

theorem ResultSet_column_access_witness:
  "getInt (snd (rs_next (ResultSet
       \<lparr>res_fields = [''pv'', ''pv''], res_rows = [[Some ''7'', Some ''9'']]\<rparr>))) ''pv'' = Inr 7"
proof -
  let ?res = "\<lparr>res_fields = [''pv'', ''pv''], res_rows = [[Some ''7'', Some ''9'']]\<rparr>"
  have "atoi (c_str ''7'') = 7"
    by (simp add: atoi_def strtol10_def c_str_def isspace_def isdigit_def code_def clamp_long_def
        to_int32_def)
  then show ?thesis
    using ResultSet_column_access [of ?res "[Some ''7'', Some ''9'']" "[]" True
        "snd (rs_next (ResultSet ?res))" "''pv''"]
    by (simp add: rs_next_def ResultSet_def)
qed

end
