(* ===== verification/Config.thy ===== *)
theory Config
  imports Util OrdMap
begin

text \<open>
  The configuration file reader (\<^verbatim>\<open>src/config_file_reader.cc\<close>): reading a file line by line into a
  map of keys and values, looking a key up, changing a value and writing the file back.
\<close>

section \<open>Files\<close>

text \<open>
  What the reader needs of the file system: the contents of the files that can be opened for reading,
  the paths that can be opened for writing, and which writes succeed.
\<close>

record fsys =
  fs_files :: "string \<rightharpoonup> string"
  fs_can_write :: "string \<Rightarrow> bool"
  fs_fwrite_ok :: "string \<Rightarrow> bool"

text \<open>\<open>fgets\<close> with a buffer of \<open>n + 1\<close> bytes: at most \<open>n\<close> characters, up to the newline included.\<close>

definition fgets_len :: "nat \<Rightarrow> string \<Rightarrow> nat" where
  "fgets_len n s = min n (case find_char LF s of None \<Rightarrow> length s | Some i \<Rightarrow> Suc i)"

section \<open>Definitions\<close>

text \<open>The constructor leaves \<open>load_ok_\<close> uninitialised (\<open>None\<close>) when the file cannot be opened.\<close>

record config =
  load_ok :: "bool option"
  config_map :: "(string, string) omap"
  config_file :: string

definition blank :: "char \<Rightarrow> bool" where
  "blank c \<longleftrightarrow> c = SP \<or> c = TAB"

definition TrimSpace_cfg :: "string \<Rightarrow> string option" where
  "TrimSpace_cfg name =
     (let start = length (takeWhile blank name)
      in if drop start name = [] then None
         else (let stop = length name - length (takeWhile blank (rev name));
                   len = int stop - int start
               in if len \<le> 0 then None else Some (take (nat len) (drop start name))))"

definition ParseLine :: "string \<Rightarrow> (string, string) omap \<Rightarrow> (string, string) omap" where
  "ParseLine line m =
     (case find_char (CHR ''='') line of
        None \<Rightarrow> m
      | Some p \<Rightarrow>
          (case (TrimSpace_cfg (take p line), TrimSpace_cfg (drop (Suc p) line)) of
             (Some key, Some value) \<Rightarrow> om_insert key value m
           | _ \<Rightarrow> m))"

definition load_chunk :: "string \<Rightarrow> (string, string) omap \<Rightarrow> (string, string) omap res" where
  "load_chunk chunk m =
     (let buf = c_str chunk
      in if buf = [] then Inl OutOfBounds
         else (let line = (if last buf = LF then butlast buf else buf);
                   line = takeWhile (\<lambda>c. c \<noteq> CHR ''#'') line
               in Inr (if line = [] then m else ParseLine line m)))"

function load_loop :: "string \<Rightarrow> (string, string) omap \<Rightarrow> (string, string) omap res" where
  "load_loop s m =
     (if s = [] then Inr m
      else rbind (load_chunk (take (fgets_len 255 s) s) m) (load_loop (drop (fgets_len 255 s) s)))"
  by pat_completeness auto
termination
  by (relation "measure (\<lambda>(s, m). length s)") (auto simp: fgets_len_def split: option.splits)

declare load_loop.simps [simp del]

definition LoadFile :: "fsys \<Rightarrow> string \<Rightarrow> config \<Rightarrow> config res" where
  "LoadFile fs filename cfg =
     (let cfg = cfg\<lparr>config_file := filename\<rparr>
      in case fs_files fs filename of
           None \<Rightarrow> Inr cfg
         | Some text \<Rightarrow>
             rbind (load_loop text (config_map cfg))
               (\<lambda>m. Inr (cfg\<lparr>config_map := m, load_ok := Some True\<rparr>)))"

definition CConfigFileReader :: "fsys \<Rightarrow> string \<Rightarrow> config res" where
  "CConfigFileReader fs filename =
     LoadFile fs filename \<lparr>load_ok = None, config_map = om_empty, config_file = []\<rparr>"

definition read_load_ok :: "config \<Rightarrow> bool res" where
  "read_load_ok cfg = (case load_ok cfg of None \<Rightarrow> Inl Uninit | Some b \<Rightarrow> Inr b)"

definition GetConfigName :: "config \<Rightarrow> string \<Rightarrow> string option res" where
  "GetConfigName cfg name =
     rbind (read_load_ok cfg)
       (\<lambda>b. Inr (if b then map_option c_str (om_find (config_map cfg) name) else None))"

definition config_line :: "string \<Rightarrow> string \<Rightarrow> string" where
  "config_line k v = snprintf_str 128 (c_str k @ [CHR ''=''] @ c_str v @ [LF])"

fun write_pairs :: "(string \<Rightarrow> bool) \<Rightarrow> (string, string) omap \<Rightarrow> string \<Rightarrow> string \<times> bool" where
  "write_pairs fw [] out = (out, True)"
| "write_pairs fw ((k, v) # m) out =
     (if fw (config_line k v) then write_pairs fw m (out @ config_line k v) else (out, False))"

definition WriteFile :: "fsys \<Rightarrow> config \<Rightarrow> string option \<Rightarrow> int \<times> fsys" where
  "WriteFile fs cfg filename =
     (let path = (case filename of None \<Rightarrow> config_file cfg | Some f \<Rightarrow> f)
      in if \<not> fs_can_write fs path then (-1, fs)
         else (let (out, ok) = write_pairs (fs_fwrite_ok fs) (config_map cfg) []
               in (if ok then 0 else -1, fs\<lparr>fs_files := (fs_files fs)(path \<mapsto> out)\<rparr>)))"

definition SetConfigValue :: "fsys \<Rightarrow> config \<Rightarrow> string \<Rightarrow> string \<Rightarrow> (int \<times> fsys \<times> config) res" where
  "SetConfigValue fs cfg name value =
     rbind (read_load_ok cfg)
       (\<lambda>b. if \<not> b then Inr (-1, fs, cfg)
            else (let cfg = cfg\<lparr>config_map :=
                       (case om_find (config_map cfg) name of
                          Some _ \<Rightarrow> om_assign name value (config_map cfg)
                        | None \<Rightarrow> om_insert name value (config_map cfg))\<rparr>;
                      (r, fs) = WriteFile fs cfg None
                  in Inr (r, fs, cfg)))"

section \<open>Specifications\<close>

text \<open>What one line of a configuration file means: the text before a comment sign, cut at the first
  equals sign, both sides freed of blanks; neither side may be empty.\<close>

definition trim :: "string \<Rightarrow> string" where
  "trim s = rev (dropWhile blank (rev (dropWhile blank s)))"

definition line_pair :: "string \<Rightarrow> (string \<times> string) option" where
  "line_pair line =
     (let text = takeWhile (\<lambda>c. c \<noteq> CHR ''#'') line
      in case find_char (CHR ''='') text of
           None \<Rightarrow> None
         | Some p \<Rightarrow>
             if trim (take p text) \<noteq> [] \<and> trim (drop (Suc p) text) \<noteq> []
             then Some (trim (take p text), trim (drop (Suc p) text)) else None)"

definition plain_line :: "string \<Rightarrow> bool" where
  "plain_line l \<longleftrightarrow> LF \<notin> set l \<and> NUL \<notin> set l \<and> length l < 255"

definition clean :: "string \<Rightarrow> bool" where
  "clean s \<longleftrightarrow> s \<noteq> [] \<and> \<not> blank (hd s) \<and> \<not> blank (last s) \<and>
     CHR ''#'' \<notin> set s \<and> LF \<notin> set s \<and> NUL \<notin> set s"

definition storable :: "string \<Rightarrow> string \<Rightarrow> bool" where
  "storable k v \<longleftrightarrow> clean k \<and> CHR ''='' \<notin> set k \<and> clean v \<and> length k + length v \<le> 125"

definition storable_map :: "(string, string) omap \<Rightarrow> bool" where
  "storable_map m \<longleftrightarrow> om_ok m \<and> (\<forall>(k, v) \<in> set m. storable k v)"

section \<open>Reading lines: lemmas\<close>

lemma TrimSpace_cfg_trim: "TrimSpace_cfg s = (if trim s = [] then None else Some (trim s))"
proof -
  define t where "t = dropWhile blank s"
  define b where "b = takeWhile blank s"
  have s: "s = b @ t" by (simp add: b_def t_def)
  have drop_b: "drop (length b) s = t" by (simp add: s)
  show ?thesis
  proof (cases "t = []")
    case True
    then show ?thesis
      using drop_b by (simp add: TrimSpace_cfg_def trim_def Let_def flip: b_def t_def)
  next
    case False
    then have hd: "\<not> blank (hd t)" by (metis hd_dropWhile t_def)
    define w where "w = takeWhile blank (rev t)"
    have w: "takeWhile blank (rev s) = w"
      using False hd by (cases t) (auto simp: s w_def takeWhile_append)
    define d where "d = dropWhile blank (rev t)"
    have ne: "d \<noteq> []"
      using False hd by (cases t) (auto simp: d_def dropWhile_append)
    have "rev t = w @ d" by (simp add: w_def d_def)
    then have t: "t = rev d @ rev w" by (metis rev_append rev_rev_ident)
    then have "length t = length d + length w" by (metis length_append length_rev)
    then have len: "length w < length t" and k: "length t - length w = length (rev d)"
      using ne by simp_all
    have shape: "take (length t - length w) t = rev d"
      unfolding k by (subst t) simp
    have lens: "length s = length b + length t"
      by (metis s length_append)
    have "nat (int (length b + length t - length w) - int (length b)) = length t - length w"
      using len by simp
    then have "TrimSpace_cfg s = Some (take (length t - length w) t)"
      unfolding TrimSpace_cfg_def b_def [symmetric] drop_b w Let_def lens
      using False len by (simp del: of_nat_add of_nat_diff)
    moreover have "trim s = rev d"
      by (simp only: trim_def t_def d_def)
    ultimately show ?thesis
      using ne shape by simp
  qed
qed

lemma ParseLine_pair:
  "ParseLine (takeWhile (\<lambda>c. c \<noteq> CHR ''#'') l) m =
     (case line_pair l of None \<Rightarrow> m | Some (k, v) \<Rightarrow> om_insert k v m)"
  by (auto simp: ParseLine_def line_pair_def TrimSpace_cfg_trim Let_def split: option.splits)

lemma line_pair_Nil: "takeWhile (\<lambda>c. c \<noteq> CHR ''#'') l = [] \<Longrightarrow> line_pair l = None"
  by (simp add: line_pair_def)

lemma fgets_len_line: "plain_line l \<Longrightarrow> fgets_len 255 (l @ LF # rest) = Suc (length l)"
  by (simp add: plain_line_def fgets_len_def find_char_append_stop)

lemma load_chunk_line:
  assumes "plain_line l"
  shows "load_chunk (l @ [LF]) m =
     Inr (case line_pair l of None \<Rightarrow> m | Some (k, v) \<Rightarrow> om_insert k v m)"
proof -
  have "c_str (l @ [LF]) = l @ [LF]"
    using assms by (intro c_str_id) (auto simp: plain_line_def)
  then show ?thesis
    by (simp add: load_chunk_def Let_def ParseLine_pair line_pair_Nil)
qed

definition load_lines ::
  "string list \<Rightarrow> (string, string) omap \<Rightarrow> (string, string) omap" where
  "load_lines ls m = fold (\<lambda>(k, v). om_insert k v) (List.map_filter line_pair ls) m"

lemma load_loop_lines:
  "(\<forall>l \<in> set ls. plain_line l) \<Longrightarrow>
     load_loop (concat (map (\<lambda>l. l @ [LF]) ls)) m = Inr (load_lines ls m)"
proof (induction ls arbitrary: m)
  case Nil
  then show ?case by (simp add: load_loop.simps load_lines_def map_filter_def)
next
  case (Cons l ls)
  let ?rest = "concat (map (\<lambda>l. l @ [LF]) ls)"
  have l: "plain_line l" using Cons.prems by simp
  have "load_loop (l @ LF # ?rest) m = rbind (load_chunk (l @ [LF]) m) (load_loop ?rest)"
    by (subst load_loop.simps) (simp add: fgets_len_line [OF l])
  also have "\<dots> = Inr (load_lines (l # ls) m)"
    using Cons by (simp add: load_chunk_line [OF l] load_lines_def map_filter_def
        split: option.splits)
  finally show ?case by simp
qed

section \<open>Writing and reading back: lemmas\<close>

lemma clean_trim: "clean s \<Longrightarrow> trim s = s"
  by (simp add: clean_def trim_def dropWhile_id hd_rev)

lemma line_pair_storable:
  assumes "storable k v"
  shows "line_pair (k @ CHR ''='' # v) = Some (k, v)"
proof -
  have body: "takeWhile (\<lambda>c. c \<noteq> CHR ''#'') (k @ CHR ''='' # v) = k @ CHR ''='' # v"
    using assms by (simp del: takeWhile_append takeWhile.simps) (auto simp: storable_def clean_def)
  have eq: "find_char (CHR ''='') (k @ CHR ''='' # v) = Some (length k)"
    using assms by (simp add: find_char_append_stop storable_def)
  have "trim k = k" "trim v = v" "k \<noteq> []" "v \<noteq> []"
    using assms by (simp_all add: storable_def clean_trim) (simp_all add: clean_def)
  then show ?thesis
    by (simp only: line_pair_def body eq Let_def) simp
qed

lemma plain_line_storable: "storable k v \<Longrightarrow> plain_line (k @ CHR ''='' # v)"
  by (auto simp: storable_def clean_def plain_line_def)

lemma config_line_storable: "storable k v \<Longrightarrow> config_line k v = (k @ CHR ''='' # v) @ [LF]"
proof -
  assume "storable k v"
  then have "NUL \<notin> set k" "NUL \<notin> set v" and len: "length (k @ [CHR ''=''] @ v @ [LF]) \<le> 127"
    by (simp_all add: storable_def clean_def)
  then have "config_line k v = take 127 (k @ [CHR ''=''] @ v @ [LF])"
    by (simp add: config_line_def snprintf_str_def c_str_id)
  also have "\<dots> = k @ [CHR ''=''] @ v @ [LF]"
    using len by (rule take_all)
  finally show ?thesis by simp
qed

lemma write_pairs_storable:
  "\<forall>(k, v) \<in> set m. storable k v \<and> fw (config_line k v) \<Longrightarrow>
     write_pairs fw m out =
       (out @ concat (map (\<lambda>l. l @ [LF]) (map (\<lambda>(k, v). k @ CHR ''='' # v) m)), True)"
  by (induction fw m out rule: write_pairs.induct) (auto simp: config_line_storable)

lemma map_filter_line_pair:
  "\<forall>(k, v) \<in> set m. storable k v \<Longrightarrow>
     List.map_filter line_pair (map (\<lambda>(k, v). k @ CHR ''='' # v) m) = m"
  by (induction m) (auto simp: map_filter_def line_pair_storable)

lemma load_lines_storable:
  assumes "storable_map m"
  shows "load_lines (map (\<lambda>(k, v). k @ CHR ''='' # v) m) om_empty = m"
proof (rule om_eqI)
  have fold: "load_lines (map (\<lambda>(k, v). k @ CHR ''='' # v) m) om_empty
          = fold (\<lambda>(k, v). om_insert k v) m om_empty"
    using assms by (simp add: load_lines_def map_filter_line_pair storable_map_def)
  show "om_ok (load_lines (map (\<lambda>(k, v). k @ CHR ''='' # v) m) om_empty)"
    unfolding fold by (rule omap.wf_fold_insert [OF om_ok_empty])
  show "om_find (load_lines (map (\<lambda>(k, v). k @ CHR ''='' # v) m) om_empty) j = om_find m j" for j
    unfolding fold omap.lookup_fold_insert_empty by (simp add: om_find_def)
  show "om_ok m" using assms by (simp add: storable_map_def)
qed

text \<open>Writing a storable configuration succeeds, and reading the file gives it back.\<close>

lemma WriteFile_then_read:
  assumes "storable_map (config_map cfg)" "load_ok cfg = Some True"
    and "fs_can_write fs (config_file cfg)"
    and "\<forall>(k, v) \<in> set (config_map cfg). fs_fwrite_ok fs (config_line k v)"
  shows "\<exists>fs'. WriteFile fs cfg None = (0, fs') \<and>
           CConfigFileReader fs' (config_file cfg) = Inr cfg"
proof -
  define ls where "ls = map (\<lambda>(k, v). k @ CHR ''='' # v) (config_map cfg)"
  define out where "out = concat (map (\<lambda>l. l @ [LF]) ls)"
  have w: "write_pairs (fs_fwrite_ok fs) (config_map cfg) [] = (out, True)"
    using assms(1,4) write_pairs_storable [of "config_map cfg" "fs_fwrite_ok fs" "[]"]
    by (auto simp: storable_map_def out_def ls_def)
  have plain: "\<forall>l \<in> set ls. plain_line l"
    using assms(1) by (auto simp: ls_def storable_map_def dest!: plain_line_storable)
  have read: "load_loop out om_empty = Inr (config_map cfg)"
    unfolding out_def load_loop_lines [OF plain]
    by (simp add: ls_def load_lines_storable [OF assms(1)])
  show ?thesis
    using assms(2,3) w read by (auto simp: WriteFile_def CConfigFileReader_def LoadFile_def)
qed

lemma storable_map_update:
  assumes "storable_map m" "storable k v"
  shows "storable_map (om_insert k v m)" "storable_map (om_assign k v m)"
proof -
  have "set (om_insert k v m) \<subseteq> insert (k, v) (set m)" "set (om_assign k v m) \<subseteq> insert (k, v) (set m)"
    by (induction m) (auto split: if_splits)
  with assms show "storable_map (om_insert k v m)" "storable_map (om_assign k v m)"
    by (auto simp: storable_map_def om_ok_insert om_ok_assign)
qed

definition set_value :: "(string, string) omap \<Rightarrow> string \<Rightarrow> string \<Rightarrow> (string, string) omap" where
  "set_value m name value =
     (case om_find m name of Some _ \<Rightarrow> om_assign name value m | None \<Rightarrow> om_insert name value m)"

lemma storable_map_set_value:
  "storable_map m \<Longrightarrow> storable k v \<Longrightarrow> storable_map (set_value m k v)"
  by (auto simp: set_value_def storable_map_update split: option.splits)

lemma om_find_set_value:
  "om_ok m \<Longrightarrow> om_find (set_value m k v) j = (if j = k then Some v else om_find m j)"
  by (auto simp: set_value_def om_find_insert om_find_assign split: option.splits)

lemma SetConfigValue_set_value:
  "load_ok cfg = Some True \<Longrightarrow> SetConfigValue fs cfg name value =
     (let cfg' = cfg\<lparr>config_map := set_value (config_map cfg) name value\<rparr>
      in Inr (fst (WriteFile fs cfg' None), snd (WriteFile fs cfg' None), cfg'))"
  by (simp add: SetConfigValue_def read_load_ok_def set_value_def Let_def split_beta)

section \<open>Properties\<close>

text \<open>C35. A value set through \<open>SetConfigValue\<close> persists: the call writes a file from which a new reader
  loads exactly the updated configuration, in which the name has the new value and every other name
  its old one, provided keys and values are free of the file's own syntax and each line fits the
  128-byte line buffer.\<close>

theorem SetConfigValue_persists:
  assumes "load_ok cfg = Some True" "storable_map (config_map cfg)" "storable name value"
    and "fs_can_write fs (config_file cfg)" "\<forall>line. fs_fwrite_ok fs line"
  shows "\<exists>fs' cfg'. SetConfigValue fs cfg name value = Inr (0, fs', cfg') \<and>
           CConfigFileReader fs' (config_file cfg) = Inr cfg' \<and>
           GetConfigName cfg' name = Inr (Some value) \<and>
           (\<forall>k. k \<noteq> name \<longrightarrow> GetConfigName cfg' k = GetConfigName cfg k)"
proof -
  define cfg' where "cfg' = cfg\<lparr>config_map := set_value (config_map cfg) name value\<rparr>"
  have m: "storable_map (config_map cfg')"
    using assms(2,3) by (simp add: cfg'_def storable_map_set_value)
  have "om_ok (config_map cfg)" using assms(2) by (simp add: storable_map_def)
  note find = om_find_set_value [OF this]
  have "c_str value = value"
    using assms(3) by (auto simp: storable_def clean_def c_str_id)
  then have get: "GetConfigName cfg' name = Inr (Some value)"
    "k \<noteq> name \<Longrightarrow> GetConfigName cfg' k = GetConfigName cfg k" for k
    using assms(1) by (simp_all add: GetConfigName_def read_load_ok_def cfg'_def find)
  obtain fs' where "WriteFile fs cfg' None = (0, fs')"
    "CConfigFileReader fs' (config_file cfg') = Inr cfg'"
    using WriteFile_then_read [OF m, of fs] assms(1,4,5) by (auto simp: cfg'_def)
  moreover have "config_file cfg' = config_file cfg" by (simp add: cfg'_def)
  ultimately show ?thesis
    using get by (auto simp: SetConfigValue_set_value [OF assms(1)] Let_def simp flip: cfg'_def)
qed

definition cfg_example :: config where
  "cfg_example = \<lparr>load_ok = Some True, config_map = [(''a'', ''1'')], config_file = ''c''\<rparr>"

definition fs_example :: fsys where
  "fs_example = \<lparr>fs_files = [''c'' \<mapsto> ''a=1'' @ [LF]], fs_can_write = (\<lambda>_. True),
     fs_fwrite_ok = (\<lambda>_. True)\<rparr>"

theorem SetConfigValue_persists_witness:
  "\<exists>fs' cfg'. SetConfigValue fs_example cfg_example ''port'' ''80'' = Inr (0, fs', cfg') \<and>
     CConfigFileReader fs' ''c'' = Inr cfg' \<and> GetConfigName cfg' ''port'' = Inr (Some ''80'') \<and>
     GetConfigName cfg' ''a'' = Inr (Some ''1'')"
proof -
  have "storable ''port'' ''80''" "storable_map (config_map cfg_example)"
    by (simp_all add: storable_def clean_def blank_def storable_map_def om_ok_def cfg_example_def)
  then have "\<exists>fs' cfg'. SetConfigValue fs_example cfg_example ''port'' ''80'' = Inr (0, fs', cfg') \<and>
      CConfigFileReader fs' (config_file cfg_example) = Inr cfg' \<and>
      GetConfigName cfg' ''port'' = Inr (Some ''80'') \<and>
      (\<forall>k. k \<noteq> ''port'' \<longrightarrow> GetConfigName cfg' k = GetConfigName cfg_example k)"
    by (intro SetConfigValue_persists) (simp_all add: cfg_example_def fs_example_def)
  moreover have "GetConfigName cfg_example ''a'' = Inr (Some ''1'')"
    by (simp add: GetConfigName_def read_load_ok_def cfg_example_def c_str_def)
  ultimately show ?thesis by (auto simp: cfg_example_def)
qed

text \<open>C36. Loading a file of lines shorter than the 256-byte buffer succeeds, and a name is mapped to the
  value of the first line that defines it: comments, blanks and lines without a key or a value are
  skipped, later definitions are ignored.\<close>

theorem LoadFile_first_definition_wins:
  assumes "\<forall>l \<in> set ls. plain_line l"
    and "fs_files fs f = Some (concat (map (\<lambda>l. l @ [LF]) ls))"
  shows "\<exists>cfg. CConfigFileReader fs f = Inr cfg \<and> load_ok cfg = Some True \<and>
           om_find (config_map cfg) name = map_of (List.map_filter line_pair ls) name"
  using assms by (auto simp: CConfigFileReader_def LoadFile_def load_loop_lines load_lines_def
      omap.lookup_fold_insert_empty)

theorem LoadFile_first_definition_wins_witness:
  "\<exists>cfg. CConfigFileReader
       \<lparr>fs_files = [''f'' \<mapsto> concat (map (\<lambda>l. l @ [LF]) [''k = 1 # old'', ''k=2''])],
        fs_can_write = (\<lambda>_. False), fs_fwrite_ok = (\<lambda>_. False)\<rparr> ''f'' = Inr cfg \<and>
     load_ok cfg = Some True \<and> om_find (config_map cfg) ''k'' = Some ''1''"
proof -
  let ?ls = "[''k = 1 # old'', ''k=2'']"
  have "\<forall>l \<in> set ?ls. plain_line l" by (simp add: plain_line_def)
  moreover have "map_of (List.map_filter line_pair ?ls) ''k'' = Some ''1''"
    by (simp add: map_filter_def line_pair_def trim_def blank_def)
  ultimately show ?thesis
    using LoadFile_first_definition_wins [of ?ls _ "''f''" "''k''"] by simp
qed

text \<open>When the file cannot be opened the constructor leaves its success flag uninitialised, so that
  every later lookup and update branches on an indeterminate value.\<close>

theorem missing_file_reads_uninit_flag:
  assumes "fs_files fs f = None"
  shows "\<exists>cfg. CConfigFileReader fs f = Inr cfg \<and> GetConfigName cfg name = Inl Uninit \<and>
           SetConfigValue fs cfg name value = Inl Uninit"
  using assms
  by (simp add: CConfigFileReader_def LoadFile_def GetConfigName_def SetConfigValue_def
      read_load_ok_def)

theorem missing_file_reads_uninit_flag_witness:
  "\<exists>cfg. CConfigFileReader fs_example ''missing'' = Inr cfg \<and>
     GetConfigName cfg ''DBInstances'' = Inl Uninit \<and>
     SetConfigValue fs_example cfg ''DBInstances'' ''m'' = Inl Uninit"
  by (rule missing_file_reads_uninit_flag) (simp add: fs_example_def)

end
