(* ===== verification/DbPool.thy ===== *)
theory DbPool
  imports MySql Config
begin

text \<open>
  The database connection pool \<open>DBPool\<close>, the manager \<open>DBManager\<close> that builds the pools from the
  configuration file and finds them by name, and the scope guard \<open>AutoRelConn\<close>
  (\<^verbatim>\<open>src/db-conn-pool/db_pool.cc, DBManager.cc, AutoRelConn.cc\<close>).
\<close>

section \<open>\<open>DBPool\<close>\<close>

text \<open>\<open>dp_live\<close> is the number of connection objects that exist; a connection that fails to initialise
  is deleted at once, so the next one may reuse its address.\<close>

record dbpool =
  dp_pool_name :: string
  dp_ip :: string
  dp_port :: "16 word"
  dp_user_name :: string
  dp_pwd :: string
  dp_db_name :: string
  dp_cur_conn_cnt :: int
  dp_max_conn_cnt :: int
  dp_free_list :: "conn list"
  dp_abort_request :: bool
  dp_live :: nat

definition MIN_DB_CONN_CNT :: int where
  "MIN_DB_CONN_CNT = 1"

definition DBPool ::
  "string \<Rightarrow> string \<Rightarrow> 16 word \<Rightarrow> string \<Rightarrow> string \<Rightarrow> string \<Rightarrow> int \<Rightarrow> dbpool" where
  "DBPool pool_name ip port user_name pwd db_name max_conn_cnt =
     \<lparr>dp_pool_name = pool_name, dp_ip = ip, dp_port = port, dp_user_name = user_name,
      dp_pwd = pwd, dp_db_name = db_name, dp_cur_conn_cnt = MIN_DB_CONN_CNT,
      dp_max_conn_cnt = max_conn_cnt, dp_free_list = [], dp_abort_request = False, dp_live = 0\<rparr>"

text \<open>\<open>DBConn::init\<close>: 0 on success. A connection that fails to connect is deleted by its creator, and
  its destructor closes the handle.\<close>

definition DBConn_init :: "'w mysql_lib \<Rightarrow> dbpool \<Rightarrow> conn \<Rightarrow> 'w \<Rightarrow> int \<times> 'w" where
  "DBConn_init L p c w =
     (let (ok, w) = my_init L c w
      in if \<not> ok then (-1, w)
         else (let w = my_set_charset L c ''utf8mb4'' w;
                   (ok, w) = my_real_connect L c (c_str (dp_ip p)) (c_str (dp_user_name p))
                               (c_str (dp_pwd p)) (c_str (dp_db_name p)) (dp_port p) w
               in if ok then (0, w) else (-1, my_close L c w)))"

definition new_DBConn :: "dbpool \<Rightarrow> conn" where
  "new_DBConn p = Conn (dp_pool_name p) (dp_live p)"

fun dp_init_loop :: "'w mysql_lib \<Rightarrow> nat \<Rightarrow> dbpool \<Rightarrow> 'w \<Rightarrow> int \<times> dbpool \<times> 'w" where
  "dp_init_loop L 0 p w = (0, p, w)"
| "dp_init_loop L (Suc n) p w =
     (let c = new_DBConn p; (retval, w) = DBConn_init L p c w
      in if retval \<noteq> 0 then (retval, p, w)
         else dp_init_loop L n
                (p\<lparr>dp_free_list := dp_free_list p @ [c], dp_live := Suc (dp_live p)\<rparr>) w)"

definition dp_init :: "'w mysql_lib \<Rightarrow> dbpool \<Rightarrow> 'w \<Rightarrow> int \<times> dbpool \<times> 'w" where
  "dp_init L p w = dp_init_loop L (nat (dp_cur_conn_cnt p)) p w"

text \<open>The end of \<open>getConnection\<close>: the first free connection.\<close>

definition dp_pop :: "dbpool \<Rightarrow> (conn, dbpool) acquire" where
  "dp_pop p =
     (case dp_free_list p of
        [] \<Rightarrow> Refused p
      | c # rest \<Rightarrow> Granted c (p\<lparr>dp_free_list := rest\<rparr>))"

text \<open>\<open>getConnection\<close> up to its end or to the wait on the condition variable.\<close>

definition dp_enter :: "'w mysql_lib \<Rightarrow> dbpool \<Rightarrow> 'w \<Rightarrow> (conn, dbpool) acquire \<times> 'w" where
  "dp_enter L p w =
     (if dp_abort_request p then (Refused p, w)
      else if dp_free_list p = [] then
        (if dp_cur_conn_cnt p \<ge> dp_max_conn_cnt p then (MustWait p, w)
         else (let c = new_DBConn p; (retval, w) = DBConn_init L p c w
               in if retval \<noteq> 0 then (Refused p, w)
                  else (dp_pop (p\<lparr>dp_free_list := dp_free_list p @ [c],
                          dp_cur_conn_cnt := dp_cur_conn_cnt p + 1,
                          dp_live := Suc (dp_live p)\<rparr>), w)))
      else (dp_pop p, w))"

text \<open>The predicate the wait re-checks, and \<open>getConnection\<close> after the wait.\<close>

definition dp_wake :: "dbpool \<Rightarrow> bool" where
  "dp_wake p \<longleftrightarrow> dp_free_list p \<noteq> [] \<or> dp_abort_request p"

definition dp_resume :: "dbpool \<Rightarrow> (conn, dbpool) acquire" where
  "dp_resume p = (if dp_free_list p = [] then Refused p else dp_pop p)"

text \<open>The second component tells that \<open>notify_one\<close> is called.\<close>

definition releaseConnection :: "conn \<Rightarrow> dbpool \<Rightarrow> dbpool \<times> bool" where
  "releaseConnection c p =
     (if c \<in> set (dp_free_list p) then (p, False) else (p\<lparr>dp_free_list := dp_free_list p @ [c]\<rparr>, True))"

text \<open>\<open>getConnection\<close> of a thread that runs alone: a wait without timeout ends only if its predicate
  holds, since nobody else changes the pool; a wait with timeout ends in any case.\<close>

definition getConnection ::
  "'w mysql_lib \<Rightarrow> int \<Rightarrow> dbpool \<Rightarrow> 'w \<Rightarrow> (conn option \<times> dbpool \<times> 'w) res" where
  "getConnection L timeout_ms p w =
     (case dp_enter L p w of
        (Granted c p, w) \<Rightarrow> Inr (Some c, p, w)
      | (Refused p, w) \<Rightarrow> Inr (None, p, w)
      | (MustWait p, w) \<Rightarrow>
          if timeout_ms \<le> 0 \<and> \<not> dp_wake p then Inl WaitsForever
          else (case dp_resume p of
                  Granted c p \<Rightarrow> Inr (Some c, p, w)
                | Refused p \<Rightarrow> Inr (None, p, w)
                | MustWait p \<Rightarrow> Inl WaitsForever))"

definition dp_destroy :: "'w mysql_lib \<Rightarrow> dbpool \<Rightarrow> 'w \<Rightarrow> dbpool \<times> 'w" where
  "dp_destroy L p w =
     (p\<lparr>dp_abort_request := True, dp_free_list := []\<rparr>, fold (my_close L) (dp_free_list p) w)"

section \<open>\<open>DBManager\<close> and \<open>AutoRelConn\<close>\<close>

type_synonym dbpools = "(string, dbpool) omap"

text \<open>The value of a configuration key, a null pointer when it is missing.\<close>

definition cfg_key :: "string \<Rightarrow> string \<Rightarrow> string" where
  "cfg_key pool_name field = snprintf_str 64 (pool_name @ field)"

definition dbm_add_pool ::
  "'w mysql_lib \<Rightarrow> config \<Rightarrow> string \<Rightarrow> dbpools \<Rightarrow> 'w \<Rightarrow> (int \<times> dbpools \<times> 'w) res" where
  "dbm_add_pool L cfg pool_name pools w =
     rbind (GetConfigName cfg (cfg_key pool_name ''_host'')) (\<lambda>db_host.
     rbind (GetConfigName cfg (cfg_key pool_name ''_port'')) (\<lambda>str_db_port.
     rbind (GetConfigName cfg (cfg_key pool_name ''_dbname'')) (\<lambda>db_dbname.
     rbind (GetConfigName cfg (cfg_key pool_name ''_username'')) (\<lambda>db_username.
     rbind (GetConfigName cfg (cfg_key pool_name ''_password'')) (\<lambda>db_password.
     rbind (GetConfigName cfg (cfg_key pool_name ''_maxconncnt'')) (\<lambda>str_maxconncnt.
       case (db_host, str_db_port, db_dbname, db_username, db_password, str_maxconncnt) of
         (Some host, Some port, Some dbname, Some username, Some password, Some maxconncnt) \<Rightarrow>
           (let p = DBPool pool_name host (word_of_int (atoi port)) username password dbname
                      (atoi maxconncnt);
                (r, p, w) = dp_init L p w
            in if r \<noteq> 0 then Inr (3, pools, w)
               else Inr (0, om_insert pool_name p pools, w))
       | _ \<Rightarrow> Inr (2, pools, w)))))))"

fun dbm_init_loop ::
  "'w mysql_lib \<Rightarrow> config \<Rightarrow> string option list \<Rightarrow> nat \<Rightarrow> nat \<Rightarrow> dbpools \<Rightarrow> 'w \<Rightarrow> (int \<times> dbpools \<times> 'w) res"
where
  "dbm_init_loop L cfg names i 0 pools w = Inr (0, pools, w)"
| "dbm_init_loop L cfg names i (Suc n) pools w =
     rbind (GetItem names i) (\<lambda>pool_name.
     rbind (dbm_add_pool L cfg pool_name pools w) (\<lambda>(r, pools, w).
       if r \<noteq> 0 then Inr (r, pools, w)
       else dbm_init_loop L cfg names (Suc i) n pools w))"

text \<open>Every way out of the loop runs the destructor of the splitter.\<close>

definition dbm_init ::
  "'w mysql_lib \<Rightarrow> fsys \<Rightarrow> string \<Rightarrow> 'w \<Rightarrow> (int \<times> dbpools \<times> 'w) res" where
  "dbm_init L fs conf_path w =
     rbind (CConfigFileReader fs conf_path) (\<lambda>cfg.
     rbind (GetConfigName cfg ''DBInstances'') (\<lambda>db_instances.
       case db_instances of
         None \<Rightarrow> Inr (-1, om_empty, w)
       | Some inst \<Rightarrow>
           (let names = CStrExplode inst (CHR '','')
            in rbind (dbm_init_loop L cfg names 0 (GetItemCnt names) om_empty w)
                 (\<lambda>(r, pools, w). rbind (explode_destroy names) (\<lambda>_. Inr (r, pools, w))))))"

text \<open>The singleton is built at its first use, and again at every use while that fails.\<close>

definition dbm_getInstance ::
  "'w mysql_lib \<Rightarrow> fsys \<Rightarrow> string \<Rightarrow> dbpools option \<Rightarrow> 'w \<Rightarrow> (dbpools option \<times> 'w) res" where
  "dbm_getInstance L fs conf_path inst w =
     (case inst of
        Some pools \<Rightarrow> Inr (Some pools, w)
      | None \<Rightarrow>
          rbind (dbm_init L fs conf_path w)
            (\<lambda>(r, pools, w). Inr (if r \<noteq> 0 then None else Some pools, w)))"

definition getConn ::
  "'w mysql_lib \<Rightarrow> string \<Rightarrow> dbpools \<Rightarrow> 'w \<Rightarrow> (conn option \<times> dbpools \<times> 'w) res" where
  "getConn L pool_name pools w =
     (case om_find pools pool_name of
        None \<Rightarrow> Inr (None, pools, w)
      | Some p \<Rightarrow>
          rbind (getConnection L 0 p w)
            (\<lambda>(c, p, w). Inr (c, om_assign pool_name p pools, w)))"

definition releaseConn :: "conn option \<Rightarrow> dbpools \<Rightarrow> dbpools" where
  "releaseConn conn pools =
     (case conn of
        None \<Rightarrow> pools
      | Some c \<Rightarrow>
          (case om_find pools (conn_pool_name c) of
             None \<Rightarrow> pools
           | Some p \<Rightarrow> om_assign (conn_pool_name c) (fst (releaseConnection c p)) pools))"

text \<open>The destructor of the guard.\<close>

definition AutoRelConn_destroy :: "dbpools option \<Rightarrow> conn option \<Rightarrow> dbpools option" where
  "AutoRelConn_destroy manager conn =
     (case (manager, conn) of
        (Some pools, Some c) \<Rightarrow> Some (releaseConn (Some c) pools)
      | _ \<Rightarrow> manager)"

section \<open>The pool keeps the contract\<close>

definition db_ops :: "'w mysql_lib \<Rightarrow> (dbpool, conn, 'w) pool_ops" where
  "db_ops L = \<lparr>po_enter = dp_enter L, po_wake = dp_wake, po_resume = dp_resume,
     po_release = releaseConnection\<rparr>"

definition dp_live_conns :: "dbpool \<Rightarrow> conn set" where
  "dp_live_conns p = Conn (dp_pool_name p) ` {0..<dp_live p}"

definition dp_limit :: "dbpool \<Rightarrow> nat" where
  "dp_limit p = nat (dp_max_conn_cnt p)"

definition dp_wf :: "dbpool \<Rightarrow> bool" where
  "dp_wf p \<longleftrightarrow> dp_cur_conn_cnt p = int (dp_live p)"

lemmas dp_defs = dp_pop_def dp_live_conns_def dp_limit_def dp_wf_def new_DBConn_def

lemma card_dp_live_conns [simp]: "card (dp_live_conns p) = dp_live p"
  by (simp add: dp_live_conns_def card_image inj_on_def)

lemma new_DBConn_fresh: "new_DBConn p \<notin> dp_live_conns p"
  by (auto simp: dp_defs)

lemma dp_live_conns_add:
  "dp_live_conns (p\<lparr>dp_live := Suc (dp_live p)\<rparr>) = insert (new_DBConn p) (dp_live_conns p)"
  by (auto simp: dp_defs atLeast0_lessThan_Suc)

lemma dp_live_conns_frame [simp]:
  "dp_live_conns (p\<lparr>dp_free_list := fl\<rparr>) = dp_live_conns p"
  "dp_live_conns (p\<lparr>dp_free_list := fl, dp_cur_conn_cnt := n, dp_live := m\<rparr>) =
     dp_live_conns (p\<lparr>dp_live := m\<rparr>)"
  by (simp_all add: dp_live_conns_def)

lemma dp_enter_cases:
  assumes "dp_enter L p w = (r, w')"
  obtains (refused) "r = Refused p" "dp_abort_request p \<or> dp_free_list p = []"
    | (taken) c rest where "dp_free_list p = c # rest" "r = Granted c (p\<lparr>dp_free_list := rest\<rparr>)"
    | (wait) "r = MustWait p" "dp_free_list p = []" "dp_max_conn_cnt p \<le> dp_cur_conn_cnt p"
    | (created) "dp_free_list p = []" "dp_cur_conn_cnt p < dp_max_conn_cnt p"
        "r = Granted (new_DBConn p) (p\<lparr>dp_free_list := [], dp_cur_conn_cnt := dp_cur_conn_cnt p + 1,
               dp_live := Suc (dp_live p)\<rparr>)"
  using assms
  by (auto simp: dp_enter_def dp_pop_def Let_def split: if_splits list.splits prod.splits)

interpretation dbp: conn_pool "db_ops L" dp_free_list dp_live_conns dp_limit dp_abort_request dp_wf
  for L
proof (unfold_locales, goal_cases)
  case 1
  then show ?case by (simp add: dp_live_conns_def)
next
  case (2 p w c p' w')
  from 2(1) have "dp_enter L p w = (Granted c p', w')" by (simp add: db_ops_def)
  then show ?case
  proof (cases rule: dp_enter_cases)
    case created
    then show ?thesis
      using 2(2) by (auto simp: dp_live_conns_add new_DBConn_fresh dp_limit_def dp_wf_def)
  qed (use 2(2) in \<open>auto simp: dp_limit_def dp_wf_def\<close>)
next
  case (3 p w p' w')
  from 3(1) have "dp_enter L p w = (Refused p', w')" by (simp add: db_ops_def)
  then show ?case by (cases rule: dp_enter_cases) (use 3(2) in auto)
next
  case (4 p w p' w')
  from 4(1) have "dp_enter L p w = (MustWait p', w')" by (simp add: db_ops_def)
  then show ?case by (cases rule: dp_enter_cases) (use 4(2) in auto)
qed (auto simp: db_ops_def dp_resume_def dp_pop_def dp_wake_def releaseConnection_def dp_limit_def
      dp_wf_def split: list.splits if_splits)

lemma dp_init_DBPool:
  assumes "dp_init L (DBPool name ip port user pwd dbname maxc) w = (0, p, w')"
  shows "p = (DBPool name ip port user pwd dbname maxc)\<lparr>dp_free_list := [Conn name 0], dp_live := 1\<rparr>"
  using assms
  by (auto simp: dp_init_def DBPool_def MIN_DB_CONN_CNT_def new_DBConn_def Let_def
      split: prod.splits if_splits)

lemma dp_init_contract:
  assumes "dp_init L (DBPool name ip port user pwd dbname maxc) w = (0, p, w')"
  shows "dp_wf p" "distinct (dp_free_list p)" "dp_live_conns p = set (dp_free_list p)"
    "dp_limit p = nat maxc" "dp_live p = 1" "\<not> dp_abort_request p"
  by (simp_all add: dp_init_DBPool [OF assms] dp_wf_def dp_live_conns_def dp_limit_def DBPool_def
      MIN_DB_CONN_CNT_def)

section \<open>Requests of one thread\<close>

text \<open>How many more connections a pool can hand out before it is exhausted.\<close>

definition capacity :: "dbpool \<Rightarrow> int" where
  "capacity p = int (length (dp_free_list p)) + max 0 (dp_max_conn_cnt p - dp_cur_conn_cnt p)"

definition dp_named :: "dbpool \<Rightarrow> bool" where
  "dp_named p \<longleftrightarrow> (\<forall>c \<in> set (dp_free_list p). conn_pool_name c = dp_pool_name p)"

definition pools_ok :: "dbpools \<Rightarrow> bool" where
  "pools_ok pools \<longleftrightarrow> om_ok pools \<and>
     (\<forall>n p. om_find pools n = Some p \<longrightarrow>
        dp_pool_name p = n \<and> dp_named p \<and> distinct (dp_free_list p))"

lemma getConnection_Some:
  assumes "getConnection L timeout_ms p w = Inr (Some c, p', w')"
  shows "capacity p' = capacity p - 1 \<and> dp_pool_name p' = dp_pool_name p \<and>
    (dp_named p \<longrightarrow> dp_named p' \<and> conn_pool_name c = dp_pool_name p) \<and>
    (distinct (dp_free_list p) \<longrightarrow> distinct (dp_free_list p') \<and> c \<notin> set (dp_free_list p'))"
proof -
  obtain r w2 where enter: "dp_enter L p w = (r, w2)" by fastforce
  show ?thesis
    using enter
  proof (cases rule: dp_enter_cases)
    case (created)
    then show ?thesis
      using assms enter
      by (auto simp: getConnection_def capacity_def dp_named_def new_DBConn_def)
  qed (use assms enter in \<open>auto simp: getConnection_def capacity_def dp_named_def dp_resume_def
        split: if_splits\<close>)
qed

text \<open>Alone, a request for an exhausted pool never returns.\<close>

lemma getConnection_exhausted:
  assumes "capacity p = 0" "\<not> dp_abort_request p" "timeout_ms \<le> 0"
  shows "getConnection L timeout_ms p w = Inl WaitsForever"
proof -
  have "dp_free_list p = []" "dp_max_conn_cnt p \<le> dp_cur_conn_cnt p"
    using assms(1) max.cobounded1 [of 0 "dp_max_conn_cnt p - dp_cur_conn_cnt p"]
      max.cobounded2 [of "dp_max_conn_cnt p - dp_cur_conn_cnt p" 0]
    unfolding capacity_def by (simp_all flip: length_0_conv)
  then show ?thesis
    using assms(2,3) by (simp add: getConnection_def dp_enter_def dp_wake_def)
qed

lemma releaseConnection_capacity:
  assumes "c \<notin> set (dp_free_list p)"
  shows "capacity (fst (releaseConnection c p)) = capacity p + 1"
  using assms by (simp add: releaseConnection_def capacity_def)

lemma getConn_Some:
  assumes "getConn L n pools w = Inr (Some c, pools', w')" "pools_ok pools"
  shows "\<exists>p p'. om_find pools n = Some p \<and> om_find pools' n = Some p' \<and>
    capacity p' = capacity p - 1 \<and> c \<notin> set (dp_free_list p') \<and> conn_pool_name c = n \<and>
    pools_ok pools' \<and> (\<forall>m. m \<noteq> n \<longrightarrow> om_find pools' m = om_find pools m)"
proof -
  obtain p p' where p: "om_find pools n = Some p"
    "getConnection L 0 p w = Inr (Some c, p', w')" "pools' = om_assign n p' pools"
    using assms(1) by (auto simp: getConn_def rbind_eq_Inr_iff split: option.splits)
  have ok: "om_ok pools" "dp_pool_name p = n" "dp_named p" "distinct (dp_free_list p)"
    using assms(2) p(1) by (auto simp: pools_ok_def)
  note get = getConnection_Some [OF p(2)]
  have "pools_ok pools'"
    using assms(2) get ok by (auto simp: pools_ok_def p(3) om_ok_assign om_find_assign)
  with get ok p show ?thesis by (auto simp: om_find_assign)
qed

lemma getConn_None:
  assumes "getConn L n pools w = Inr (None, pools', w')" "om_ok pools"
  shows "pools' = pools"
proof (cases "om_find pools n")
  case (Some p)
  then obtain p' where get: "getConnection L 0 p w = Inr (None, p', w')" "pools' = om_assign n p' pools"
    using assms(1) by (auto simp: getConn_def elim!: rbind_InrE)
  obtain r w2 where enter: "dp_enter L p w = (r, w2)" by fastforce
  have "p' = p"
    using enter
    by (cases rule: dp_enter_cases)
      (use get(1) enter in \<open>auto simp: getConnection_def dp_wake_def dp_resume_def split: if_splits\<close>)
  then show ?thesis using get(2) Some assms(2) by (simp add: om_assign_same)
qed (use assms in \<open>simp add: getConn_def\<close>)

lemma releaseConn_Some:
  assumes "pools_ok pools" "om_find pools n = Some p" "conn_pool_name c = n"
    and "c \<notin> set (dp_free_list p)"
  shows "\<exists>p'. om_find (releaseConn (Some c) pools) n = Some p' \<and> capacity p' = capacity p + 1 \<and>
    pools_ok (releaseConn (Some c) pools) \<and>
    (\<forall>m. m \<noteq> n \<longrightarrow> om_find (releaseConn (Some c) pools) m = om_find pools m)"
proof -
  let ?p = "fst (releaseConnection c p)"
  have ok: "om_ok pools" "dp_pool_name p = n" "dp_named p" "distinct (dp_free_list p)"
    using assms(1,2) by (auto simp: pools_ok_def)
  then have "dp_pool_name ?p = n" "dp_named ?p" "distinct (dp_free_list ?p)"
    using assms(3,4) by (auto simp: releaseConnection_def dp_named_def)
  moreover have rel: "releaseConn (Some c) pools = om_assign n ?p pools"
    using assms(2,3) by (simp add: releaseConn_def)
  ultimately have "pools_ok (releaseConn (Some c) pools)"
    using assms(1) by (auto simp: rel pools_ok_def om_ok_assign om_find_assign)
  then show ?thesis
    using ok(1) releaseConnection_capacity [OF assms(4)] by (simp add: rel om_find_assign)
qed

section \<open>Building the pools\<close>

text \<open>A pool as the configuration describes it, freshly initialised.\<close>

definition configured_pool :: "config \<Rightarrow> string \<Rightarrow> dbpool \<Rightarrow> bool" where
  "configured_pool cfg n p \<longleftrightarrow>
     (\<exists>maxc. GetConfigName cfg (cfg_key n ''_maxconncnt'') = Inr (Some maxc) \<and>
        dp_max_conn_cnt p = atoi maxc) \<and>
     (\<exists>host. GetConfigName cfg (cfg_key n ''_host'') = Inr (Some host) \<and> dp_ip p = host) \<and>
     dp_pool_name p = n \<and> dp_wf p \<and> dp_free_list p = [Conn n 0] \<and> \<not> dp_abort_request p"

lemma dbm_add_pool_success:
  assumes "dbm_add_pool L cfg n pools w = Inr (0, pools', w')"
  shows "\<exists>p. configured_pool cfg n p \<and> pools' = om_insert n p pools"
proof -
  obtain host port dbname user pwd maxc p where
      host: "GetConfigName cfg (cfg_key n ''_host'') = Inr (Some host)"
    and maxc: "GetConfigName cfg (cfg_key n ''_maxconncnt'') = Inr (Some maxc)"
    and p: "dp_init L (DBPool n host (word_of_int (atoi port)) user pwd dbname (atoi maxc)) w
              = (0, p, w')" "pools' = om_insert n p pools"
    using assms unfolding dbm_add_pool_def
    by (auto elim!: rbind_InrE split: option.split_asm prod.split_asm if_split_asm)
  have "configured_pool cfg n p"
    using host maxc by (simp add: configured_pool_def dp_init_DBPool [OF p(1)] DBPool_def dp_wf_def
        MIN_DB_CONN_CNT_def)
  with p(2) show ?thesis by blast
qed

lemma dbm_init_loop_success:
  assumes "dbm_init_loop L cfg names i k pools w = Inr (0, pools', w')" "pools_ok pools"
    and "\<forall>n p. om_find pools n = Some p \<longrightarrow> configured_pool cfg n p"
  shows "pools_ok pools' \<and> (\<forall>n p. om_find pools' n = Some p \<longrightarrow> configured_pool cfg n p) \<and>
    (\<forall>n. om_find pools n \<noteq> None \<longrightarrow> om_find pools' n \<noteq> None) \<and>
    (\<forall>j. i \<le> j \<and> j < i + k \<longrightarrow> (\<exists>n. names ! j = Some n \<and> om_find pools' n \<noteq> None))"
  using assms
proof (induction k arbitrary: i pools w)
  case 0
  then show ?case by auto
next
  case (Suc k)
  from Suc.prems(1) obtain n pools1 w1 where
      item: "GetItem names i = Inr n"
    and add: "dbm_add_pool L cfg n pools w = Inr (0, pools1, w1)"
    and rest: "dbm_init_loop L cfg names (Suc i) k pools1 w1 = Inr (0, pools', w')"
    by (auto simp: rbind_eq_Inr_iff split: if_splits)
  from dbm_add_pool_success [OF add] obtain p where
    p: "configured_pool cfg n p" "pools1 = om_insert n p pools" by blast
  have ok: "om_ok pools" using Suc.prems(2) by (simp add: pools_ok_def)
  note find = om_find_insert [OF ok, of n p]
  have conf: "\<forall>m q. om_find pools1 m = Some q \<longrightarrow> configured_pool cfg m q"
    using Suc.prems(3) p(1) by (auto simp: p(2) find split: if_splits option.splits)
  have "pools_ok pools1"
    using ok conf by (auto simp: pools_ok_def p(2) om_ok_insert configured_pool_def dp_named_def)
  note IH = Suc.IH [OF rest this conf]
  have "names ! i = Some n"
    using item by (auto simp: GetItem_def split: if_splits option.splits)
  moreover have "om_find pools1 n \<noteq> None" by (simp add: p(2) find split: option.splits)
  ultimately have "\<exists>m. names ! i = Some m \<and> om_find pools' m \<noteq> None" using IH by blast
  moreover have "\<forall>m. om_find pools m \<noteq> None \<longrightarrow> om_find pools1 m \<noteq> None"
    by (auto simp: p(2) find split: option.splits)
  ultimately show ?case
    using IH by (auto simp: less_Suc_eq_le le_less_Suc_eq Suc_le_eq) (metis Suc_leI le_neq_implies_less)
qed

section \<open>Properties\<close>

definition pool_example :: dbpool where
  "pool_example = (DBPool ''m'' ''h'' 1 ''u'' ''p'' ''d'' 2)\<lparr>dp_free_list := [Conn ''m'' 0], dp_live := 1\<rparr>"

definition sched_example :: "(dbpool, conn) sched" where
  "sched_example = \<lparr>pool = pool_example\<lparr>dp_free_list := []\<rparr>,
     held = (\<lambda>_. [])(0 := [Conn ''m'' 0]), waiting = (\<lambda>_. False), notified = {}, timed = (\<lambda>_. False)\<rparr>"

lemma pool_example_init:
  "dp_init (quiet_mysql :: unit mysql_lib) (DBPool ''m'' ''h'' 1 ''u'' ''p'' ''d'' 2) () = (0, pool_example, ())"
  by (simp add: dp_init_def DBPool_def MIN_DB_CONN_CNT_def DBConn_init_def quiet_mysql_def
      new_DBConn_def pool_example_def Let_def)

lemma sched_example_reach: "sched_reach (db_ops (quiet_mysql :: unit mysql_lib)) pool_example sched_example"
proof (rule reach_step [OF reach_start])
  let ?s = "\<lparr>pool = pool_example, held = (\<lambda>_. []), waiting = (\<lambda>_. False), notified = {}, timed = (\<lambda>_. False)\<rparr>"
  have "sched_step (db_ops (quiet_mysql :: unit mysql_lib)) ?s
      (?s\<lparr>pool := pool_example\<lparr>dp_free_list := []\<rparr>,
          held := (held ?s)(0 := Conn ''m'' 0 # held ?s 0)\<rparr>)"
    by (rule step_get) (simp_all add: db_ops_def dp_enter_def dp_pop_def pool_example_def DBPool_def)
  then show "sched_step (db_ops (quiet_mysql :: unit mysql_lib)) ?s sched_example"
    by (simp add: sched_example_def)
qed

text \<open>C1. Whatever the interleaving of requests, waits, wake-ups and returns of any number of threads,
  a database connection is in the hands of at most one thread, once, and never at the same time in the
  free list.\<close>

theorem db_connections_exclusive:
  assumes "dp_init L (DBPool name ip port user pwd dbname maxc) w = (0, p0, w0)"
    and "sched_reach (db_ops L) p0 s" "c \<in> set (held s t)"
  shows "c \<notin> set (dp_free_list (pool s)) \<and> (\<forall>u. c \<in> set (held s u) \<longrightarrow> u = t) \<and>
    count_list (held s t) c = 1"
  using dbp.exclusive [OF assms(2) dp_init_contract(1-3) [OF assms(1)] assms(3)] .

theorem db_connections_exclusive_witness:
  "Conn ''m'' 0 \<notin> set (dp_free_list (pool sched_example)) \<and>
   count_list (held sched_example 0) (Conn ''m'' 0) = 1"
  using db_connections_exclusive [OF pool_example_init sched_example_reach, of "Conn ''m'' 0" 0]
  by (simp add: sched_example_def)

text \<open>C8. No connection is lost and none is created beyond the limit: the connections that exist are
  exactly the free and the held ones, their number is the pool's counter, and it never exceeds the
  configured maximum (or one, the number the pool starts with).\<close>

theorem db_pool_bounded:
  assumes "dp_init L (DBPool name ip port user pwd dbname maxc) w = (0, p0, w0)"
    and "sched_reach (db_ops L) p0 s"
  shows "dp_live_conns (pool s) = set (dp_free_list (pool s)) \<union> (\<Union>t. set (held s t)) \<and>
    dp_cur_conn_cnt (pool s) = int (card (dp_live_conns (pool s))) \<and>
    dp_cur_conn_cnt (pool s) \<le> max 1 maxc"
proof -
  note p0 = dp_init_contract [OF assms(1)]
  have inv: "sched_inv dp_free_list dp_live_conns s"
    using dbp.reach_inv [OF assms(2) p0(1-3)] by simp
  have "dp_wf (pool s)" "dp_live (pool s) \<le> max 1 (nat maxc)"
    using dbp.bound [OF assms(2) p0(1)] p0(4,5) by simp_all
  then have "dp_cur_conn_cnt (pool s) = int (dp_live (pool s))" "dp_cur_conn_cnt (pool s) \<le> max 1 maxc"
    by (auto simp: dp_wf_def)
  moreover have "dp_live_conns (pool s) = set (dp_free_list (pool s)) \<union> (\<Union>t. set (held s t))"
    using inv by (simp add: sched_inv_def)
  ultimately show ?thesis unfolding card_dp_live_conns by blast
qed

theorem db_pool_bounded_witness: "dp_cur_conn_cnt (pool sched_example) \<le> max 1 2"
  using db_pool_bounded [OF pool_example_init sched_example_reach] by simp

text \<open>C9. Every step of the pool, seen as a set of free connections and a relation between threads and
  the connections they own, is a step of the abstract pool: taking a free connection, creating one
  when none is free and fewer than the maximum exist, giving one back, or nothing.\<close>

theorem db_pool_refines_tokens:
  assumes "dp_init L (DBPool name ip port user pwd dbname maxc) w = (0, p0, w0)"
    and "sched_reach (db_ops L) p0 s" "sched_step (db_ops L) s s'"
  shows "token_step (nat maxc) (token_view dp_free_list s) (token_view dp_free_list s')"
proof -
  note p0 = dp_init_contract [OF assms(1)]
  show ?thesis
    using dbp.refines [OF assms(3)] dbp.reach_inv [OF assms(2) p0(1-3)] p0(4) by simp
qed

theorem db_pool_refines_tokens_witness:
  "token_step 2 (token_view dp_free_list sched_example)
     (token_view dp_free_list (sched_example\<lparr>pool := pool_example, held := \<lambda>_. []\<rparr>))"
proof -
  have "releaseConnection (Conn ''m'' 0) (pool sched_example) = (pool_example, True)"
    by (simp add: releaseConnection_def sched_example_def pool_example_def DBPool_def)
  moreover have "notify_one (waiting sched_example) (notified sched_example) (notified sched_example)"
    by (rule notify_nobody) (simp add: sched_example_def)
  ultimately have "sched_step (db_ops (quiet_mysql :: unit mysql_lib)) sched_example
     (sched_example\<lparr>pool := pool_example, held := (held sched_example)(0 := remove1 (Conn ''m'' 0) (held sched_example 0)),
        notified := notified sched_example\<rparr>)"
    by (intro step_release [where signal = True]) (simp_all add: sched_example_def db_ops_def)
  from db_pool_refines_tokens [OF pool_example_init sched_example_reach this]
  show ?thesis by (simp add: sched_example_def fun_upd_idem)
qed

text \<open>C17. No wake-up is lost: in every reachable state in which a connection is free while threads wait, one
  of the waiting threads has been notified by the return of a connection and has not run since, and it
  has a step that takes a connection.\<close>

theorem db_wakeup_not_lost:
  assumes "dp_init L (DBPool name ip port user pwd dbname maxc) w = (0, p0, w0)"
    and "sched_reach (db_ops L) p0 s" "waiting s t" "dp_free_list (pool s) \<noteq> []"
  shows "\<exists>u c s'. waiting s u \<and> u \<in> notified s \<and> sched_step (db_ops L) s s' \<and> held s' u = c # held s u \<and>
    \<not> waiting s' u"
  using dbp.wakeup_not_lost [OF assms(2) dp_init_contract(1,6) [OF assms(1)] assms(3,4)] .

text \<open>With a maximum of one, thread 1 waits for the connection of thread 0, which gives it back.\<close>

definition small_pool :: dbpool where
  "small_pool = (DBPool ''m'' ''h'' 1 ''u'' ''p'' ''d'' 1)\<lparr>dp_free_list := [Conn ''m'' 0], dp_live := 1\<rparr>"

definition woken_example :: "(dbpool, conn) sched" where
  "woken_example = \<lparr>pool = small_pool, held = \<lambda>_. [], waiting = (\<lambda>_. False)(1 := True), notified = {1},
     timed = \<lambda>_. False\<rparr>"

lemma small_pool_init:
  "dp_init (quiet_mysql :: unit mysql_lib) (DBPool ''m'' ''h'' 1 ''u'' ''p'' ''d'' 1) () = (0, small_pool, ())"
  by (simp add: dp_init_def DBPool_def MIN_DB_CONN_CNT_def DBConn_init_def quiet_mysql_def
      new_DBConn_def small_pool_def Let_def)

lemma woken_example_reach: "sched_reach (db_ops (quiet_mysql :: unit mysql_lib)) small_pool woken_example"
proof -
  let ?ops = "db_ops (quiet_mysql :: unit mysql_lib)" and ?p = "small_pool\<lparr>dp_free_list := []\<rparr>"
  let ?s0 = "\<lparr>pool = small_pool, held = \<lambda>_. [], waiting = \<lambda>_. False, notified = {}, timed = \<lambda>_. False\<rparr>"
  let ?s1 = "?s0\<lparr>pool := ?p, held := (held ?s0)(0 := Conn ''m'' 0 # held ?s0 0)\<rparr>"
  let ?s2 = "?s1\<lparr>pool := ?p, waiting := (waiting ?s1)(1 := True)\<rparr>"
  have "sched_step ?ops ?s0 ?s1"
    by (rule step_get) (simp_all add: db_ops_def dp_enter_def dp_pop_def small_pool_def DBPool_def)
  then have "sched_reach ?ops small_pool ?s1" by (rule reach_step [OF reach_start])
  moreover have "sched_step ?ops ?s1 ?s2"
    by (rule step_block) (simp_all add: db_ops_def dp_enter_def small_pool_def DBPool_def MIN_DB_CONN_CNT_def)
  ultimately have "sched_reach ?ops small_pool ?s2" by (rule reach_step)
  moreover have "notify_one (waiting ?s2) (notified ?s2) (insert 1 (notified ?s2))"
    by (rule notify_sleeper) simp_all
  then have "sched_step ?ops ?s2 (?s2\<lparr>pool := small_pool, held := (held ?s2)(0 := remove1 (Conn ''m'' 0) (held ?s2 0)),
      notified := insert 1 (notified ?s2)\<rparr>)"
    by (intro step_release [where signal = True])
      (simp_all add: db_ops_def releaseConnection_def small_pool_def DBPool_def)
  ultimately show ?thesis
    by (auto dest: reach_step simp: woken_example_def fun_upd_idem)
qed

theorem db_wakeup_not_lost_witness:
  "\<exists>u c s'. waiting woken_example u \<and> u \<in> notified woken_example \<and>
     sched_step (db_ops (quiet_mysql :: unit mysql_lib)) woken_example s' \<and> held s' u = c # held woken_example u \<and>
     \<not> waiting s' u"
  by (rule db_wakeup_not_lost [OF small_pool_init woken_example_reach, of 1])
    (simp_all add: woken_example_def small_pool_def)

text \<open>C13. A connection obtained by pool name belongs to that pool, leaves the pool with one connection
  less to hand out, and giving it back to the manager restores the capacity of the pool and touches no
  other pool.\<close>

theorem getConn_release_roundtrip:
  assumes "pools_ok pools" "getConn L n pools w = Inr (Some c, pools', w')"
  shows "\<exists>p p' p''. om_find pools n = Some p \<and> om_find pools' n = Some p' \<and>
    om_find (releaseConn (Some c) pools') n = Some p'' \<and>
    capacity p' = capacity p - 1 \<and> capacity p'' = capacity p \<and> pools_ok (releaseConn (Some c) pools') \<and>
    (\<forall>m. m \<noteq> n \<longrightarrow> om_find (releaseConn (Some c) pools') m = om_find pools m)"
proof -
  obtain p p' where g: "om_find pools n = Some p" "om_find pools' n = Some p'"
    "capacity p' = capacity p - 1" "c \<notin> set (dp_free_list p')" "conn_pool_name c = n"
    "pools_ok pools'" "\<forall>m. m \<noteq> n \<longrightarrow> om_find pools' m = om_find pools m"
    using getConn_Some [OF assms(2,1)] by blast
  then show ?thesis
    using releaseConn_Some [OF g(6,2,5,4)] by auto
qed

theorem getConn_release_roundtrip_witness:
  "\<exists>p''. om_find (releaseConn (Some (Conn ''m'' 0)) [(''m'', pool_example\<lparr>dp_free_list := []\<rparr>)]) ''m'' = Some p'' \<and>
     capacity p'' = capacity pool_example"
proof -
  have "pools_ok [(''m'', pool_example)]"
    by (auto simp: pools_ok_def om_ok_def pool_example_def DBPool_def dp_named_def)
  moreover have "getConn (quiet_mysql :: unit mysql_lib) ''m'' [(''m'', pool_example)] () =
      Inr (Some (Conn ''m'' 0), [(''m'', pool_example\<lparr>dp_free_list := []\<rparr>)], ())"
    by (simp add: getConn_def getConnection_def dp_enter_def dp_pop_def pool_example_def DBPool_def)
  ultimately show ?thesis
    using getConn_release_roundtrip [of "[(''m'', pool_example)]" quiet_mysql "''m''"] by fastforce
qed

lemma dbm_init_success:
  assumes "dbm_init L fs path w = Inr (0, pools, w')"
  shows "\<exists>cfg inst. CConfigFileReader fs path = Inr cfg \<and>
    GetConfigName cfg ''DBInstances'' = Inr (Some inst) \<and>
    [] \<notin> set (split_fields (CHR '','') [] (c_str inst)) \<and> pools_ok pools \<and>
    (\<forall>n \<in> set (split_fields (CHR '','') [] (c_str inst)). \<exists>p. om_find pools n = Some p \<and> configured_pool cfg n p)"
proof -
  obtain cfg inst r where cfg: "CConfigFileReader fs path = Inr cfg"
      "GetConfigName cfg ''DBInstances'' = Inr (Some inst)"
    and loop: "dbm_init_loop L cfg (CStrExplode inst (CHR '','')) 0
        (GetItemCnt (CStrExplode inst (CHR '',''))) om_empty w = Inr (0, pools, w')"
    and destroy: "explode_destroy (CStrExplode inst (CHR '','')) = Inr r"
    using assms unfolding dbm_init_def Let_def
    by (auto elim!: rbind_InrE split: option.split_asm prod.split_asm)
  have names: "[] \<notin> set (split_fields (CHR '','') [] (c_str inst))"
    using destroy CStrExplode_uninit_iff [of inst "CHR '',''"]
    by (auto simp: explode_destroy_def split: if_splits)
  note items = CStrExplode_fields [OF names]
  have "pools_ok om_empty" "\<forall>n p. om_find om_empty n = Some p \<longrightarrow> configured_pool cfg n p"
    by (simp_all add: pools_ok_def om_ok_empty om_find_empty)
  note loop_facts = dbm_init_loop_success [OF loop this]
  note pools_fact = loop_facts [THEN conjunct1]
    and configured_fact = loop_facts [THEN conjunct2, THEN conjunct1]
    and filled_fact = loop_facts [THEN conjunct2, THEN conjunct2, THEN conjunct2]
  have "\<exists>p. om_find pools n = Some p \<and> configured_pool cfg n p"
    if n: "n \<in> set (split_fields (CHR '','') [] (c_str inst))" for n
  proof -
    let ?names = "split_fields (CHR '','') [] (c_str inst)"
    obtain j where j: "j < length ?names" "?names ! j = n"
      using n by (auto simp: in_set_conv_nth)
    then have "om_find pools n \<noteq> None"
      using filled_fact [rule_format, of j] by (auto simp: items GetItemCnt_def)
    then obtain p where p: "om_find pools n = Some p" by blast
    show ?thesis using p configured_fact [rule_format, OF p] by blast
  qed
  then show ?thesis using cfg names pools_fact by blast
qed

text \<open>C15. When the manager starts successfully, the instance list and every named instance are
  configured, the list has no empty name, and for every name in it there is a pool of that name with
  the address and the maximum of the configuration, holding one idle connection.\<close>

theorem dbm_init_builds_all_pools:
  assumes "dbm_init L fs path w = Inr (0, pools, w')"
  shows "\<exists>cfg inst. CConfigFileReader fs path = Inr cfg \<and>
    GetConfigName cfg ''DBInstances'' = Inr (Some inst) \<and>
    [] \<notin> set (split_fields (CHR '','') [] (c_str inst)) \<and> pools_ok pools \<and>
    (\<forall>n \<in> set (split_fields (CHR '','') [] (c_str inst)). \<exists>p. om_find pools n = Some p \<and> configured_pool cfg n p)"
  by (rule dbm_init_success [OF assms])

definition dbm_fs_example :: fsys where
  "dbm_fs_example = \<lparr>fs_files = [''c'' \<mapsto> concat (map (\<lambda>l. l @ [LF])
      [''DBInstances=m'', ''m_host=h'', ''m_port=1'', ''m_dbname=d'', ''m_username=u'',
       ''m_password=p'', ''m_maxconncnt=2''])],
     fs_can_write = (\<lambda>_. True), fs_fwrite_ok = (\<lambda>_. True)\<rparr>"

theorem dbm_init_builds_all_pools_witness:
  "dbm_init (quiet_mysql :: unit mysql_lib) dbm_fs_example ''c'' () = Inr (0, [(''m'', pool_example)], ()) \<and>
   pools_ok [(''m'', pool_example)]"
proof -
  have run: "dbm_init (quiet_mysql :: unit mysql_lib) dbm_fs_example ''c'' () =
      Inr (0, [(''m'', pool_example)], ())"
    by code_simp
  show ?thesis using run dbm_init_builds_all_pools [OF run] by blast
qed

end
