(* ===== verification/Redis.thy ===== *)
theory Redis
  imports CString OrdMap "HOL-Library.AList"
begin

text \<open>
  The redis client object \<open>CacheConn\<close> (\<^verbatim>\<open>src/cache-pool/cache_pool.cc\<close>): connecting and reconnecting, and
  one operation per redis command. The hiredis library is a parameter, the record \<open>redis_lib\<close>; its
  functions take the state of the outside world \<open>'w\<close>.
\<close>

section \<open>The client library\<close>

text \<open>A reply as hiredis documents it. A reply is allocated zeroed, so the fields its type does not
  set read as zero and as the null pointer.\<close>

datatype redis_reply =
    RString string
  | RStatus string
  | RError string
  | RInteger int
  | RNil
  | RArray "redis_reply list"

fun reply_integer :: "redis_reply \<Rightarrow> int" where
  "reply_integer (RInteger i) = i"
| "reply_integer _ = 0"

fun reply_str :: "redis_reply \<Rightarrow> string option" where
  "reply_str (RString s) = Some s"
| "reply_str (RStatus s) = Some s"
| "reply_str (RError s) = Some s"
| "reply_str _ = None"

text \<open>The bytes \<open>reply->str, reply->len\<close>: none when the pointer is null, since the length is 0.\<close>

definition reply_bytes :: "redis_reply \<Rightarrow> string" where
  "reply_bytes r = (case reply_str r of None \<Rightarrow> [] | Some s \<Rightarrow> s)"

text \<open>\<open>reply->str\<close> read as a C string.\<close>

definition reply_cstr :: "redis_reply \<Rightarrow> string res" where
  "reply_cstr r = (case reply_str r of None \<Rightarrow> Inl NullDeref | Some s \<Rightarrow> Inr (c_str s))"

datatype redis_arg = ArgS string | ArgD int

type_synonym redis_ctx = nat

text \<open>\<open>rd_connect\<close> gives no context, or one with its error flag. A command gets the format string
  as the code passes it and the arguments; no reply is the null pointer.\<close>

record 'w redis_lib =
  rd_time :: "'w \<Rightarrow> 64 word \<times> 'w"
  rd_connect :: "string \<Rightarrow> int \<Rightarrow> int \<times> int \<Rightarrow> 'w \<Rightarrow> (redis_ctx \<times> bool) option \<times> 'w"
  rd_free :: "redis_ctx \<Rightarrow> 'w \<Rightarrow> 'w"
  rd_command :: "redis_ctx \<Rightarrow> string \<Rightarrow> redis_arg list \<Rightarrow> 'w \<Rightarrow> redis_reply option \<times> 'w"
  rd_commandArgv :: "redis_ctx \<Rightarrow> string list \<Rightarrow> 'w \<Rightarrow> redis_reply option \<times> 'w"

section \<open>The connection object\<close>

record cache_conn =
  cc_context :: "redis_ctx option"
  cc_last_connect_time :: "64 word"
  cc_server_port :: "16 word"
  cc_server_ip :: string
  cc_password :: string
  cc_db_index :: "16 word"
  cc_pool_name :: string

definition CacheConn :: "string \<Rightarrow> int \<Rightarrow> int \<Rightarrow> string \<Rightarrow> string \<Rightarrow> cache_conn" where
  "CacheConn server_ip server_port db_index password pool_name =
     \<lparr>cc_context = None, cc_last_connect_time = 0, cc_server_port = word_of_int server_port,
      cc_server_ip = server_ip, cc_password = password, cc_db_index = word_of_int db_index,
      cc_pool_name = pool_name\<rparr>"

definition cc_auth :: "'w redis_lib \<Rightarrow> redis_ctx \<Rightarrow> string \<Rightarrow> 'w \<Rightarrow> bool \<times> 'w" where
  "cc_auth L ctx password w =
     (if password = [] then (True, w)
      else (let (reply, w) = rd_command L ctx ''AUTH %s'' [ArgS (c_str password)] w
            in case reply of
                 None \<Rightarrow> (False, w)
               | Some (RError _) \<Rightarrow> (False, w)
               | Some _ \<Rightarrow> (True, w)))"

definition cc_select :: "'w redis_lib \<Rightarrow> redis_ctx \<Rightarrow> 'w \<Rightarrow> int \<times> 'w" where
  "cc_select L ctx w =
     (let (reply, w) = rd_command L ctx ''SELECT %d'' [ArgD 0] w
      in case reply of
           Some (RStatus s) \<Rightarrow> (if take 2 (c_str s) = ''OK'' then 0 else 2, w)
         | _ \<Rightarrow> (2, w))"

text \<open>The context is kept when authentication or the choice of the database fails.\<close>

definition cc_Init :: "'w redis_lib \<Rightarrow> cache_conn \<Rightarrow> 'w \<Rightarrow> int \<times> cache_conn \<times> 'w" where
  "cc_Init L c w =
     (if cc_context c \<noteq> None then (0, c, w)
      else (let (cur_time, w) = rd_time L w
            in if cur_time < cc_last_connect_time c + 1 then (1, c, w)
               else (let c = c\<lparr>cc_last_connect_time := cur_time\<rparr>;
                         (r, w) = rd_connect L (c_str (cc_server_ip c)) (uint (cc_server_port c))
                                    (0, 1000000) w
                     in case r of
                          None \<Rightarrow> (1, c, w)
                        | Some (ctx, err) \<Rightarrow>
                            if err then (1, c, rd_free L ctx w)
                            else (let c = c\<lparr>cc_context := Some ctx\<rparr>;
                                      (authenticated, w) = cc_auth L ctx (cc_password c) w
                                  in if \<not> authenticated then (-1, c, w)
                                     else (let (r, w) = cc_select L ctx w in (r, c, w))))))"

text \<open>\<open>redisFree(context_); context_ = NULL\<close> under its null test.\<close>

definition cc_DeInit :: "'w redis_lib \<Rightarrow> cache_conn \<Rightarrow> 'w \<Rightarrow> cache_conn \<times> 'w" where
  "cc_DeInit L c w =
     (case cc_context c of
        None \<Rightarrow> (c, w)
      | Some ctx \<Rightarrow> (c\<lparr>cc_context := None\<rparr>, rd_free L ctx w))"

definition cc_destroy :: "'w redis_lib \<Rightarrow> cache_conn \<Rightarrow> 'w \<Rightarrow> 'w" where
  "cc_destroy L c w = snd (cc_DeInit L c w)"

section \<open>How a command runs\<close>

text \<open>What a method does: a result, the connection and the world after it.\<close>

type_synonym ('w, 'a) cc_op = "cache_conn \<Rightarrow> 'w \<Rightarrow> ('a \<times> cache_conn \<times> 'w) res"

text \<open>One request on the context the connection holds.\<close>

definition cc_send ::
  "(redis_ctx \<Rightarrow> 'w \<Rightarrow> redis_reply option \<times> 'w) \<Rightarrow> cache_conn \<Rightarrow> 'w \<Rightarrow> (redis_reply option \<times> 'w) res"
where
  "cc_send request c w =
     (case cc_context c of None \<Rightarrow> Inl NullDeref | Some ctx \<Rightarrow> Inr (request ctx w))"

text \<open>The frame most methods share: \<open>Init\<close>, the request, and when there is no reply the context is
  freed, so that the next method reconnects. \<open>fail\<close> is the value returned in both cases.\<close>

definition cc_call ::
  "'w redis_lib \<Rightarrow> 'a \<Rightarrow> (redis_ctx \<Rightarrow> 'w \<Rightarrow> redis_reply option \<times> 'w) \<Rightarrow> (redis_reply \<Rightarrow> 'a res) \<Rightarrow>
     ('w, 'a) cc_op" where
  "cc_call L fail request use c w =
     (let (r, c, w) = cc_Init L c w
      in if r \<noteq> 0 then Inr (fail, c, w)
         else rbind (cc_send request c w) (\<lambda>(reply, w).
                case reply of
                  None \<Rightarrow> Inr (fail, cc_DeInit L c w)
                | Some reply \<Rightarrow> rbind (use reply) (\<lambda>a. Inr (a, c, w))))"

text \<open>The frame of the sorted-set methods: the reply is used without a null test.\<close>

definition cc_call_unchecked ::
  "'w redis_lib \<Rightarrow> 'a \<Rightarrow> (redis_ctx \<Rightarrow> 'w \<Rightarrow> redis_reply option \<times> 'w) \<Rightarrow> (redis_reply \<Rightarrow> 'a res) \<Rightarrow>
     ('w, 'a) cc_op" where
  "cc_call_unchecked L fail request use c w =
     (let (r, c, w) = cc_Init L c w
      in if r \<noteq> 0 then Inr (fail, c, w)
         else rbind (cc_send request c w) (\<lambda>(reply, w).
                case reply of
                  None \<Rightarrow> Inl NullDeref
                | Some reply \<Rightarrow> rbind (use reply) (\<lambda>a. Inr (a, c, w))))"

text \<open>A request built from a format; string arguments are passed as C strings.\<close>

definition redis_cmd :: "'w redis_lib \<Rightarrow> string \<Rightarrow> redis_arg list \<Rightarrow> redis_ctx \<Rightarrow> 'w \<Rightarrow> redis_reply option \<times> 'w"
where
  "redis_cmd L fmt args ctx = rd_command L ctx fmt args"

definition S :: "string \<Rightarrow> redis_arg" where
  "S s = ArgS (c_str s)"

section \<open>Strings and keys\<close>

definition cc_Get :: "'w redis_lib \<Rightarrow> string \<Rightarrow> ('w, string) cc_op" where
  "cc_Get L key = cc_call L [] (redis_cmd L ''GET %s'' [S key])
     (\<lambda>reply. case reply of RString s \<Rightarrow> Inr s | _ \<Rightarrow> Inr [])"

definition cc_Set :: "'w redis_lib \<Rightarrow> string \<Rightarrow> string \<Rightarrow> ('w, string) cc_op" where
  "cc_Set L key value = cc_call L [] (redis_cmd L ''SET %s %s'' [S key, S value])
     (\<lambda>reply. Inr (reply_bytes reply))"

definition cc_SetEx :: "'w redis_lib \<Rightarrow> string \<Rightarrow> int \<Rightarrow> string \<Rightarrow> ('w, string) cc_op" where
  "cc_SetEx L key timeout value =
     cc_call L [] (redis_cmd L ''SETEX %s %d %s'' [S key, ArgD timeout, S value])
       (\<lambda>reply. Inr (reply_bytes reply))"

text \<open>The keys are pasted into the format string, so a conversion in a key reads an argument that
  is not there.\<close>

fun join_keys :: "string list \<Rightarrow> string" where
  "join_keys [] = []"
| "join_keys [k] = k"
| "join_keys (k # ks) = k @ SP # join_keys ks"

fun has_conversion :: "string \<Rightarrow> bool" where
  "has_conversion (a # b # s) =
     (if a = CHR 0x25 then (if b = CHR 0x25 then has_conversion s else True)
      else has_conversion (b # s))"
| "has_conversion _ = False"

fun mget_fill :: "string list \<Rightarrow> redis_reply list \<Rightarrow> (string, string) omap \<Rightarrow> (string, string) omap res"
where
  "mget_fill keys [] m = Inr m"
| "mget_fill (k # keys) (RString s # rs) m = mget_fill keys rs (om_assign k (c_str s) m)"
| "mget_fill [] (RString s # rs) m = Inl OutOfBounds"
| "mget_fill (k # keys) (r # rs) m = mget_fill keys rs m"
| "mget_fill [] (r # rs) m = mget_fill [] rs m"

definition cc_MGet ::
  "'w redis_lib \<Rightarrow> string list \<Rightarrow> (string, string) omap \<Rightarrow> ('w, bool \<times> (string, string) omap) cc_op"
where
  "cc_MGet L keys ret_value c w =
     (let (r, c, w) = cc_Init L c w
      in if r \<noteq> 0 then Inr ((False, ret_value), c, w)
         else if keys = [] \<or> join_keys keys = [] then Inr ((False, ret_value), c, w)
         else (let fmt = c_str (''MGET '' @ join_keys keys)
               in if has_conversion fmt then Inl OutOfBounds
                  else rbind (cc_send (redis_cmd L fmt []) c w) (\<lambda>(reply, w).
                    case reply of
                      None \<Rightarrow> Inr ((False, ret_value), cc_DeInit L c w)
                    | Some (RArray rs) \<Rightarrow>
                        rbind (mget_fill keys rs ret_value) (\<lambda>m. Inr ((True, m), c, w))
                    | Some _ \<Rightarrow> Inr ((True, ret_value), c, w))))"

definition cc_IsExists :: "'w redis_lib \<Rightarrow> string \<Rightarrow> ('w, bool) cc_op" where
  "cc_IsExists L key = cc_call L False (redis_cmd L ''EXISTS %s'' [S key])
     (\<lambda>reply. Inr (reply_integer reply \<noteq> 0))"

definition cc_Del :: "'w redis_lib \<Rightarrow> string \<Rightarrow> ('w, int) cc_op" where
  "cc_Del L key = cc_call L 0 (redis_cmd L ''DEL %s'' [S key]) (\<lambda>reply. Inr (reply_integer reply))"

definition cc_IncrBy :: "'w redis_lib \<Rightarrow> string \<Rightarrow> int \<Rightarrow> ('w, int) cc_op" where
  "cc_IncrBy L key value = cc_call L (-1) (redis_cmd L ''INCRBY %s %ld'' [S key, ArgD value])
     (\<lambda>reply. Inr (reply_integer reply))"

text \<open>The second component is the out parameter: \<open>Incr\<close> clears it first, \<open>Decr\<close> leaves it alone when
  it fails.\<close>

definition cc_Incr :: "'w redis_lib \<Rightarrow> string \<Rightarrow> int \<Rightarrow> ('w, int \<times> int) cc_op" where
  "cc_Incr L key value = cc_call L (-1, 0) (redis_cmd L ''INCR %s'' [S key])
     (\<lambda>reply. Inr (0, reply_integer reply))"

definition cc_Decr :: "'w redis_lib \<Rightarrow> string \<Rightarrow> int \<Rightarrow> ('w, int \<times> int) cc_op" where
  "cc_Decr L key value = cc_call L (-1, value) (redis_cmd L ''DECR %s'' [S key])
     (\<lambda>reply. Inr (0, reply_integer reply))"

section \<open>Hashes\<close>

definition cc_Hdel :: "'w redis_lib \<Rightarrow> string \<Rightarrow> string \<Rightarrow> ('w, int) cc_op" where
  "cc_Hdel L key field = cc_call L (-1) (redis_cmd L ''HDEL %s %s'' [S key, S field])
     (\<lambda>reply. Inr (reply_integer reply))"

definition cc_Hget :: "'w redis_lib \<Rightarrow> string \<Rightarrow> string \<Rightarrow> ('w, string) cc_op" where
  "cc_Hget L key field = cc_call L [] (redis_cmd L ''HGET %s %s'' [S key, S field])
     (\<lambda>reply. case reply of RString s \<Rightarrow> Inr s | _ \<Rightarrow> Inr [])"

definition VALUES_ID_SIZE :: nat where
  "VALUES_ID_SIZE = 1024"

text \<open>\<open>Hget\<close> into a caller's buffer: the terminator goes behind the copied bytes, and a missing
  reply is an error that keeps the context.\<close>

definition cc_Hget_buf :: "'w redis_lib \<Rightarrow> string \<Rightarrow> string \<Rightarrow> string \<Rightarrow> ('w, int \<times> string) cc_op" where
  "cc_Hget_buf L key field value c w =
     (let (r, c, w) = cc_Init L c w
      in if r \<noteq> 0 then Inr ((-1, value), c, w)
         else rbind (cc_send (redis_cmd L ''hget %s %s'' [S key, S field]) c w) (\<lambda>(reply, w).
                case reply of
                  Some (RString s) \<Rightarrow>
                    (let len = (if length s > VALUES_ID_SIZE then VALUES_ID_SIZE else length s)
                     in rbind (strncpy value (c_str s) len) (\<lambda>value.
                        rbind (buf_set value len NUL) (\<lambda>value. Inr ((0, value), c, w))))
                | _ \<Rightarrow> Inr ((-1, value), c, w)))"

fun hash_pairs :: "redis_reply list \<Rightarrow> (string \<times> string) list" where
  "hash_pairs (f # v # rs) = (reply_bytes f, reply_bytes v) # hash_pairs rs"
| "hash_pairs _ = []"

definition cc_HgetAll ::
  "'w redis_lib \<Rightarrow> string \<Rightarrow> (string, string) omap \<Rightarrow> ('w, bool \<times> (string, string) omap) cc_op"
where
  "cc_HgetAll L key ret_value = cc_call L (False, ret_value) (redis_cmd L ''HGETALL %s'' [S key])
     (\<lambda>reply. case reply of
        RArray rs \<Rightarrow>
          Inr (True, if even (length rs)
                     then fold (\<lambda>(f, v). om_insert f v) (hash_pairs rs) ret_value
                     else ret_value)
      | _ \<Rightarrow> Inr (True, ret_value))"

definition cc_Hset :: "'w redis_lib \<Rightarrow> string \<Rightarrow> string \<Rightarrow> string \<Rightarrow> ('w, int) cc_op" where
  "cc_Hset L key field value =
     cc_call L (-1) (redis_cmd L ''HSET %s %s %s'' [S key, S field, S value])
       (\<lambda>reply. Inr (reply_integer reply))"

definition cc_HincrBy :: "'w redis_lib \<Rightarrow> string \<Rightarrow> string \<Rightarrow> int \<Rightarrow> ('w, int) cc_op" where
  "cc_HincrBy L key field value =
     cc_call L (-1) (redis_cmd L ''HINCRBY %s %s %ld'' [S key, S field, ArgD value])
       (\<lambda>reply. Inr (reply_integer reply))"

definition hmset_argv :: "string \<Rightarrow> (string, string) omap \<Rightarrow> string list" where
  "hmset_argv key hash =
     ''HMSET'' # c_str key # concat (map (\<lambda>(f, v). [c_str f, c_str v]) hash)"

definition cc_Hmset :: "'w redis_lib \<Rightarrow> string \<Rightarrow> (string, string) omap \<Rightarrow> ('w, string) cc_op" where
  "cc_Hmset L key hash = cc_call L [] (\<lambda>ctx. rd_commandArgv L ctx (hmset_argv key hash))
     (\<lambda>reply. Inr (reply_bytes reply))"

definition cc_Hmget ::
  "'w redis_lib \<Rightarrow> string \<Rightarrow> string list \<Rightarrow> string list \<Rightarrow> ('w, bool \<times> string list) cc_op" where
  "cc_Hmget L key flds ret_value =
     cc_call L (False, ret_value)
       (\<lambda>ctx. rd_commandArgv L ctx (''HMGET'' # c_str key # map c_str flds))
       (\<lambda>reply. case reply of
          RArray rs \<Rightarrow> Inr (True, ret_value @ map reply_bytes rs)
        | _ \<Rightarrow> Inr (True, ret_value))"

section \<open>Lists\<close>

definition cc_Lpush :: "'w redis_lib \<Rightarrow> string \<Rightarrow> string \<Rightarrow> ('w, int) cc_op" where
  "cc_Lpush L key value = cc_call L (-1) (redis_cmd L ''LPUSH %s %s'' [S key, S value])
     (\<lambda>reply. Inr (reply_integer reply))"

definition cc_Rpush :: "'w redis_lib \<Rightarrow> string \<Rightarrow> string \<Rightarrow> ('w, int) cc_op" where
  "cc_Rpush L key value = cc_call L (-1) (redis_cmd L ''RPUSH %s %s'' [S key, S value])
     (\<lambda>reply. Inr (reply_integer reply))"

definition cc_Llen :: "'w redis_lib \<Rightarrow> string \<Rightarrow> ('w, int) cc_op" where
  "cc_Llen L key = cc_call L (-1) (redis_cmd L ''LLEN %s'' [S key]) (\<lambda>reply. Inr (reply_integer reply))"

text \<open>The bounds are \<open>long\<close> but printed with a conversion for \<open>int\<close>.\<close>

definition cc_Lrange ::
  "'w redis_lib \<Rightarrow> string \<Rightarrow> int \<Rightarrow> int \<Rightarrow> string list \<Rightarrow> ('w, bool \<times> string list) cc_op" where
  "cc_Lrange L key start stop ret_value =
     cc_call L (False, ret_value)
       (redis_cmd L ''LRANGE %s %d %d'' [S key, ArgD (to_int32 start), ArgD (to_int32 stop)])
       (\<lambda>reply. case reply of
          RArray rs \<Rightarrow> Inr (True, ret_value @ map reply_bytes rs)
        | _ \<Rightarrow> Inr (True, ret_value))"

section \<open>Sorted sets\<close>

definition cc_ZsetExit :: "'w redis_lib \<Rightarrow> string \<Rightarrow> string \<Rightarrow> ('w, int) cc_op" where
  "cc_ZsetExit L key member =
     cc_call_unchecked L (-1) (redis_cmd L ''zlexcount %s [%s [%s'' [S key, S member, S member])
       (\<lambda>reply. case reply of RInteger i \<Rightarrow> Inr (to_int32 i) | _ \<Rightarrow> Inr (-1))"

definition cc_ZsetAdd :: "'w redis_lib \<Rightarrow> string \<Rightarrow> int \<Rightarrow> string \<Rightarrow> ('w, int) cc_op" where
  "cc_ZsetAdd L key score member =
     cc_call_unchecked L (-1) (redis_cmd L ''ZADD %s %ld %s'' [S key, ArgD score, S member])
       (\<lambda>reply. case reply of RInteger i \<Rightarrow> Inr 0 | _ \<Rightarrow> Inr (-1))"

definition cc_ZsetZrem :: "'w redis_lib \<Rightarrow> string \<Rightarrow> string \<Rightarrow> ('w, int) cc_op" where
  "cc_ZsetZrem L key member =
     cc_call_unchecked L (-1) (redis_cmd L ''ZREM %s %s'' [S key, S member])
       (\<lambda>reply. case reply of RInteger i \<Rightarrow> Inr 0 | _ \<Rightarrow> Inr (-1))"

text \<open>A failed \<open>Init\<close> returns \<open>false\<close>, which is the value of success.\<close>

definition cc_ZsetIncr :: "'w redis_lib \<Rightarrow> string \<Rightarrow> string \<Rightarrow> ('w, int) cc_op" where
  "cc_ZsetIncr L key member =
     cc_call_unchecked L 0 (redis_cmd L ''ZINCRBY %s 1 %s'' [S key, S member])
       (\<lambda>reply. rbind (reply_cstr reply) (\<lambda>s. Inr (if s \<noteq> ''OK'' then -1 else 0)))"

definition cc_ZsetZcard :: "'w redis_lib \<Rightarrow> string \<Rightarrow> ('w, int) cc_op" where
  "cc_ZsetZcard L key =
     cc_call_unchecked L (-1) (redis_cmd L ''ZCARD %s'' [S key])
       (\<lambda>reply. case reply of RInteger i \<Rightarrow> Inr (to_int32 i) | _ \<Rightarrow> Inr (-1))"

text \<open>\<open>values\<close> is an array of character arrays. The comparison with \<open>elements\<close> is unsigned.\<close>

fun zset_copy :: "redis_reply list \<Rightarrow> nat \<Rightarrow> nat \<Rightarrow> string list \<Rightarrow> string list res" where
  "zset_copy rs i 0 values = Inr values"
| "zset_copy rs i (Suc n) values =
     (if i < length values \<and> i < length rs then
        rbind (reply_cstr (rs ! i)) (\<lambda>s.
        rbind (strncpy (values ! i) s (VALUES_ID_SIZE - 1)) (\<lambda>v.
        rbind (buf_set v (VALUES_ID_SIZE - 1) NUL) (\<lambda>v.
          zset_copy rs (Suc i) n (values[i := v]))))
      else Inl OutOfBounds)"

definition zset_max_count :: "nat \<Rightarrow> int \<Rightarrow> int" where
  "zset_max_count elements count =
     to_int32 (if int elements > count mod 2 ^ 64 then count else int elements)"

definition cc_ZsetZrevrange ::
  "'w redis_lib \<Rightarrow> string \<Rightarrow> int \<Rightarrow> int \<Rightarrow> string list \<Rightarrow> int \<Rightarrow> ('w, int \<times> string list \<times> int) cc_op"
where
  "cc_ZsetZrevrange L key from_pos end_pos values get_num =
     cc_call_unchecked L (-1, values, get_num)
       (redis_cmd L ''ZREVRANGE %s %d %d'' [S key, ArgD from_pos, ArgD end_pos])
       (\<lambda>reply. case reply of
          RArray rs \<Rightarrow>
            (let max_count = zset_max_count (length rs) (to_int32 (end_pos - from_pos + 1))
             in rbind (zset_copy rs 0 (nat max_count) values) (\<lambda>vs. Inr (0, vs, max_count)))
        | _ \<Rightarrow> Inr (-1, values, get_num))"

definition cc_ZsetGetScore :: "'w redis_lib \<Rightarrow> string \<Rightarrow> string \<Rightarrow> ('w, int) cc_op" where
  "cc_ZsetGetScore L key member =
     cc_call_unchecked L (-1) (redis_cmd L ''ZSCORE %s %s'' [S key, S member])
       (\<lambda>reply. case reply of RString s \<Rightarrow> Inr (atoi (c_str s)) | _ \<Rightarrow> Inr (-1))"

definition cc_FlushDb :: "'w redis_lib \<Rightarrow> ('w, bool) cc_op" where
  "cc_FlushDb L = cc_call L False (redis_cmd L ''FLUSHDB'' [])
     (\<lambda>reply. case reply of RString s \<Rightarrow> Inr (take 2 (c_str s) = ''OK'') | _ \<Rightarrow> Inr False)"

section \<open>Lemmas\<close>

lemmas cc_op_defs = cc_Get_def cc_Set_def cc_SetEx_def cc_IsExists_def cc_Del_def cc_IncrBy_def
  cc_Incr_def cc_Decr_def cc_Hdel_def cc_Hget_def cc_HgetAll_def cc_Hset_def cc_HincrBy_def
  cc_Hmset_def cc_Hmget_def cc_Lpush_def cc_Rpush_def cc_Llen_def cc_Lrange_def cc_FlushDb_def

lemmas cc_zset_defs = cc_ZsetExit_def cc_ZsetAdd_def cc_ZsetZrem_def cc_ZsetIncr_def
  cc_ZsetZcard_def cc_ZsetZrevrange_def cc_ZsetGetScore_def

lemma cc_Init_connected [simp]: "cc_context c = Some ctx \<Longrightarrow> cc_Init L c w = (0, c, w)"
  by (simp add: cc_Init_def)

lemma cc_Init_context:
  "cc_Init L c w = (r, c', w') \<Longrightarrow>
     r \<in> {0, 1, 2, -1} \<and> (r = 1 \<longleftrightarrow> cc_context c' = None) \<and>
     c' = c\<lparr>cc_context := cc_context c', cc_last_connect_time := cc_last_connect_time c'\<rparr>"
  by (auto simp: cc_Init_def cc_select_def Let_def
        split: if_splits option.splits prod.splits redis_reply.splits)

lemma cc_Init_0: "cc_Init L c w = (0, c', w') \<Longrightarrow> \<exists>ctx. cc_context c' = Some ctx"
  using cc_Init_context [of L c w 0 c' w'] by auto

text \<open>The shared frame, by what happened: not connected, no reply, or a reply.\<close>

lemma cc_call_cases:
  obtains (refused) r c1 w1 where "cc_Init L c w = (r, c1, w1)" "r \<noteq> 0"
      "cc_call L fail request use c w = Inr (fail, c1, w1)"
  | (lost) ctx c1 w1 w2 where "cc_Init L c w = (0, c1, w1)" "cc_context c1 = Some ctx"
      "request ctx w1 = (None, w2)"
      "cc_call L fail request use c w = Inr (fail, c1\<lparr>cc_context := None\<rparr>, rd_free L ctx w2)"
  | (replied) ctx c1 w1 reply w2 where "cc_Init L c w = (0, c1, w1)" "cc_context c1 = Some ctx"
      "request ctx w1 = (Some reply, w2)"
      "cc_call L fail request use c w = rbind (use reply) (\<lambda>a. Inr (a, c1, w2))"
proof -
  obtain r c1 w1 where i: "cc_Init L c w = (r, c1, w1)" by (metis prod_cases3)
  show thesis
  proof (cases "r = 0")
    case False
    then show ?thesis using i by (intro refused) (auto simp: cc_call_def)
  next
    case True
    then obtain ctx where ctx: "cc_context c1 = Some ctx"
      using i cc_Init_0 [of L c w c1 w1] by auto
    obtain rep w2 where req: "request ctx w1 = (rep, w2)" by fastforce
    show ?thesis
    proof (cases rep)
      case None
      then show ?thesis
        using i True ctx req by (intro lost) (auto simp: cc_call_def cc_send_def cc_DeInit_def)
    next
      case (Some reply)
      then show ?thesis
        using i True ctx req by (intro replied) (auto simp: cc_call_def cc_send_def)
    qed
  qed
qed

lemma cc_call_total:
  assumes "\<And>reply. \<exists>a. use reply = Inr a"
  shows "\<exists>r. cc_call L fail request use c w = Inr r"
proof (cases rule: cc_call_cases [of L c w fail request use])
  case (replied ctx c1 w1 reply w2)
  then show ?thesis using assms [of reply] by auto
qed auto

lemma cc_call_success:
  assumes "cc_call L fail request use c w = Inr (a, c1, w1)" "a \<noteq> fail"
  obtains ctx w0 reply where "cc_context c1 = Some ctx" "request ctx w0 = (Some reply, w1)"
    "use reply = Inr a"
proof (cases rule: cc_call_cases [of L c w fail request use])
  case (replied ctx c2 w2 reply w3)
  then have "use reply = Inr a" "c2 = c1" "w3 = w1"
    using assms(1) by (auto simp: rbind_eq_Inr_iff dest: sym)
  with replied show ?thesis using that by blast
qed (use assms in auto)

lemma cc_call_connected:
  assumes "cc_context c = Some ctx"
  shows "cc_call L fail request use c w =
    (case request ctx w of
       (None, w') \<Rightarrow> Inr (fail, c\<lparr>cc_context := None\<rparr>, rd_free L ctx w')
     | (Some reply, w') \<Rightarrow> rbind (use reply) (\<lambda>a. Inr (a, c, w')))"
  using assms by (auto simp: cc_call_def cc_send_def cc_DeInit_def split: prod.split option.split)

text \<open>Commands keep the name stored in the object.\<close>

lemma cc_Init_pool_name: "cc_Init L c w = (r, c', w') \<Longrightarrow> cc_pool_name c' = cc_pool_name c"
  by (auto simp: cc_Init_def Let_def split: if_splits option.splits prod.splits)

lemma cc_call_pool_name:
  assumes "cc_call L fail request use c w = Inr (a, c', w')"
  shows "cc_pool_name c' = cc_pool_name c"
proof (cases rule: cc_call_cases [of L c w fail request use])
  case (replied ctx c2 w2 reply w3)
  then show ?thesis
    using assms cc_Init_pool_name [of L c w 0 c2 w2] by (auto simp: rbind_eq_Inr_iff dest: sym)
qed (use assms cc_Init_pool_name [of L c w] in auto)

section \<open>What the methods guarantee\<close>

text \<open>Connecting ends in one of four results, and result 1 is the only one without a context: after
  a refused authentication (-1) or a failed choice of the database (2) the context stays, so the next
  \<open>Init\<close> reports success without any request and commands run on the half-open connection. The
  address, the password and the pool name never change.\<close>

theorem cc_Init_outcomes:
  assumes "cc_Init L c w = (r, c', w')"
  shows "r \<in> {0, 1, 2, -1} \<and> (r = 1 \<longleftrightarrow> cc_context c' = None) \<and>
    (r \<noteq> 1 \<longrightarrow> (\<forall>v. cc_Init L c' v = (0, c', v))) \<and>
    c' = c\<lparr>cc_context := cc_context c', cc_last_connect_time := cc_last_connect_time c'\<rparr>"
  using cc_Init_context [OF assms] by auto

text \<open>A small in-memory server for the examples: strings, hashes, and a status for everything else.\<close>

type_synonym mem = "(string \<Rightarrow> string option) \<times> (string \<Rightarrow> (string \<times> string) list)"

fun argv_pairs :: "string list \<Rightarrow> (string \<times> string) list" where
  "argv_pairs (f # v # rest) = (f, v) # argv_pairs rest"
| "argv_pairs _ = []"

fun mem_command :: "string \<Rightarrow> redis_arg list \<Rightarrow> mem \<Rightarrow> redis_reply option \<times> mem" where
  "mem_command fmt [ArgS k] (kv, hv) =
     (if fmt = ''GET %s'' then (Some (case kv k of Some v \<Rightarrow> RString v | None \<Rightarrow> RNil), (kv, hv))
      else if fmt = ''HGETALL %s''
      then (Some (RArray (concat (map (\<lambda>(f, v). [RString f, RString v]) (hv k)))), (kv, hv))
      else (Some (RStatus ''OK''), (kv, hv)))"
| "mem_command fmt [ArgS k, ArgD t, ArgS v] (kv, hv) =
     (if fmt = ''SETEX %s %d %s'' then (Some (RStatus ''OK''), (kv(k \<mapsto> v), hv))
      else (Some (RStatus ''OK''), (kv, hv)))"
| "mem_command fmt _ w = (Some (RStatus ''OK''), w)"

fun mem_commandArgv :: "string list \<Rightarrow> mem \<Rightarrow> redis_reply option \<times> mem" where
  "mem_commandArgv (name # k # rest) (kv, hv) =
     (if name = ''HMSET''
      then (Some (RStatus ''OK''), (kv, hv(k := AList.updates (map fst (argv_pairs rest))
                                       (map snd (argv_pairs rest)) (hv k))))
      else (None, (kv, hv)))"
| "mem_commandArgv _ w = (None, w)"

definition mem_redis :: "mem redis_lib" where
  "mem_redis = \<lparr>rd_time = (\<lambda>w. (1, w)), rd_connect = (\<lambda>_ _ _ w. (Some (0, False), w)),
     rd_free = (\<lambda>_ w. w), rd_command = (\<lambda>_. mem_command), rd_commandArgv = (\<lambda>_. mem_commandArgv)\<rparr>"

definition conn_example :: cache_conn where
  "conn_example = CacheConn ''h'' 6379 0 [] ''token''"

theorem cc_Init_outcomes_witness:
  "cc_Init (mem_redis\<lparr>rd_command := \<lambda>_ _ _ w. (Some (RError ''ERR''), w)\<rparr>)
     (conn_example\<lparr>cc_context := Some 0, cc_last_connect_time := 1, cc_password := ''p''\<rparr>) (Map.empty, \<lambda>_. []) =
     (0, conn_example\<lparr>cc_context := Some 0, cc_last_connect_time := 1, cc_password := ''p''\<rparr>, (Map.empty, \<lambda>_. []))"
proof -
  have "cc_Init (mem_redis\<lparr>rd_command := \<lambda>_ _ _ w. (Some (RError ''ERR''), w)\<rparr>)
      (conn_example\<lparr>cc_password := ''p''\<rparr>) (Map.empty, \<lambda>_. []) =
      (-1, conn_example\<lparr>cc_context := Some 0, cc_last_connect_time := 1, cc_password := ''p''\<rparr>, (Map.empty, \<lambda>_. []))"
    by (simp add: cc_Init_def cc_auth_def mem_redis_def conn_example_def CacheConn_def)
  from cc_Init_outcomes [OF this] show ?thesis by simp
qed

text \<open>\<open>MGet\<close> and \<open>Hget\<close> into a buffer are the two methods that test the reply and can still fault.\<close>

lemma mget_fill_total: "length rs \<le> length keys \<Longrightarrow> \<exists>m'. mget_fill keys rs m = Inr m'"
  by (induction keys rs m rule: mget_fill.induct) auto

lemma cc_MGet_returns:
  assumes "\<not> has_conversion (c_str (''MGET '' @ join_keys keys))"
    and "\<forall>ctx w rs w'. rd_command L ctx (c_str (''MGET '' @ join_keys keys)) [] w = (Some (RArray rs), w') \<longrightarrow>
      length rs \<le> length keys"
  shows "\<exists>r. cc_MGet L keys m c w = Inr r"
proof -
  let ?fmt = "c_str (''MGET '' @ join_keys keys)"
  obtain r c1 w1 where i: "cc_Init L c w = (r, c1, w1)" by (metis prod_cases3)
  show ?thesis
  proof (cases "r = 0 \<and> keys \<noteq> [] \<and> join_keys keys \<noteq> []")
    case True
    then obtain ctx where ctx: "cc_context c1 = Some ctx" using i cc_Init_0 [of L c w c1 w1] by auto
    obtain rep w2 where req: "rd_command L ctx ?fmt [] w1 = (rep, w2)" by fastforce
    note run = cc_MGet_def cc_send_def redis_cmd_def
    show ?thesis
    proof (cases "\<exists>rs. rep = Some (RArray rs)")
      case array: True
      then obtain rs where rs: "rep = Some (RArray rs)" by blast
      then obtain m' where "mget_fill keys rs m = Inr m'" using assms(2) req mget_fill_total by metis
      then show ?thesis using True assms(1) rs i ctx req by (auto simp: run)
    next
      case False
      then show ?thesis
        using True assms(1) i ctx req by (auto simp: run split: option.split redis_reply.split)
    qed
  qed (use i in \<open>auto simp: cc_MGet_def\<close>)
qed

lemma cc_Hget_buf_returns:
  assumes "VALUES_ID_SIZE < length value"
  shows "\<exists>r. cc_Hget_buf L k f value c w = Inr r"
proof -
  obtain r c1 w1 where i: "cc_Init L c w = (r, c1, w1)" by (metis prod_cases3)
  show ?thesis
  proof (cases "r = 0")
    case True
    then obtain ctx where ctx: "cc_context c1 = Some ctx" using i cc_Init_0 [of L c w c1 w1] by auto
    obtain rep w2 where req: "redis_cmd L ''hget %s %s'' [S k, S f] ctx w1 = (rep, w2)" by fastforce
    show ?thesis
      using True i ctx req assms
      by (auto simp: cc_Hget_buf_def cc_send_def strncpy_def buf_set_def Let_def split: option.split redis_reply.split)
  qed (use i in \<open>auto simp: cc_Hget_buf_def\<close>)
qed

text \<open>C34. The methods that test the reply never fault, whatever the server answers or does not answer: all
  string, key, hash and list commands return, \<open>MGet\<close> if its keys have no percent sign that makes a conversion and
  no reply has more elements than there are keys, and \<open>Hget\<close> into a buffer if that has more than 1024 bytes.\<close>

theorem cc_commands_return:
  "(\<exists>r. cc_Get L k c w = Inr r) \<and> (\<exists>r. cc_Set L k v c w = Inr r) \<and> (\<exists>r. cc_SetEx L k t v c w = Inr r) \<and>
   (\<exists>r. cc_IsExists L k c w = Inr r) \<and> (\<exists>r. cc_Del L k c w = Inr r) \<and>
   (\<exists>r. cc_IncrBy L k n c w = Inr r) \<and> (\<exists>r. cc_Incr L k n c w = Inr r) \<and> (\<exists>r. cc_Decr L k n c w = Inr r) \<and>
   (\<exists>r. cc_Hdel L k f c w = Inr r) \<and> (\<exists>r. cc_Hget L k f c w = Inr r) \<and> (\<exists>r. cc_HgetAll L k m c w = Inr r) \<and>
   (\<exists>r. cc_Hset L k f v c w = Inr r) \<and> (\<exists>r. cc_HincrBy L k f n c w = Inr r) \<and>
   (\<exists>r. cc_Hmset L k m c w = Inr r) \<and> (\<exists>r. cc_Hmget L k fs vs c w = Inr r) \<and>
   (\<exists>r. cc_Lpush L k v c w = Inr r) \<and> (\<exists>r. cc_Rpush L k v c w = Inr r) \<and> (\<exists>r. cc_Llen L k c w = Inr r) \<and>
   (\<exists>r. cc_Lrange L k a b vs c w = Inr r) \<and> (\<exists>r. cc_FlushDb L c w = Inr r) \<and>
   (\<not> has_conversion (c_str (''MGET '' @ join_keys keys)) \<longrightarrow>
      (\<forall>ctx w rs w'. rd_command L ctx (c_str (''MGET '' @ join_keys keys)) [] w = (Some (RArray rs), w') \<longrightarrow>
         length rs \<le> length keys) \<longrightarrow> (\<exists>r. cc_MGet L keys m c w = Inr r)) \<and>
   (1024 < length buf \<longrightarrow> (\<exists>r. cc_Hget_buf L k f buf c w = Inr r))"
proof -
  note two = cc_MGet_returns [of keys L m c w] cc_Hget_buf_returns [of buf L k f c w, unfolded VALUES_ID_SIZE_def]
  show ?thesis
    unfolding cc_op_defs
    by (intro conjI impI two cc_call_total; assumption?) (auto split: redis_reply.splits)
qed

theorem cc_commands_return_witness:
  "(\<exists>r. cc_MGet mem_redis [''a'', ''b''] om_empty conn_example (Map.empty, \<lambda>_. []) = Inr r) \<and>
   (\<exists>r. cc_Hget_buf mem_redis ''k'' ''f'' (replicate 2000 NUL) conn_example (Map.empty, \<lambda>_. []) = Inr r)"
proof -
  have "\<not> has_conversion (c_str (''MGET '' @ join_keys [''a'', ''b'']))" by (simp add: c_str_def)
  moreover have "\<forall>ctx w rs w'. rd_command mem_redis ctx (c_str (''MGET '' @ join_keys [''a'', ''b''])) [] w = (Some (RArray rs), w') \<longrightarrow>
      length rs \<le> length [''a'', ''b'']"
    by (simp add: mem_redis_def)
  ultimately show ?thesis
    using cc_commands_return [of mem_redis "''k''" conn_example "(Map.empty, \<lambda>_. [])" "[]" 0 0 "''f''" om_empty "[]" "[]" 0 0
        "[''a'', ''b'']" "replicate 2000 NUL"]
    by (simp only: length_replicate) simp
qed

text \<open>What the server does with strings: \<open>kv w k\<close> is the value it has for \<open>k\<close>. A \<open>SETEX\<close> answered
  with OK has stored the value, and \<open>GET\<close> is answered with the value or with nil.\<close>

definition redis_strings :: "'w redis_lib \<Rightarrow> ('w \<Rightarrow> string \<Rightarrow> string option) \<Rightarrow> bool" where
  "redis_strings L kv \<longleftrightarrow>
     (\<forall>ctx k t v w r w'. rd_command L ctx ''SETEX %s %d %s'' [ArgS k, ArgD t, ArgS v] w = (Some r, w') \<longrightarrow>
        reply_bytes r = ''OK'' \<longrightarrow> kv w' = (kv w)(k \<mapsto> v)) \<and>
     (\<forall>ctx k w r w'. rd_command L ctx ''GET %s'' [ArgS k] w = (Some r, w') \<longrightarrow>
        r = (case kv w k of Some v \<Rightarrow> RString v | None \<Rightarrow> RNil) \<and> kv w' = kv w)"

lemma redis_strings_setex:
  "redis_strings L kv \<Longrightarrow> redis_cmd L ''SETEX %s %d %s'' [S k, ArgD t, S v] ctx w = (Some r, w') \<Longrightarrow>
     reply_bytes r = ''OK'' \<Longrightarrow> kv w' = (kv w)(c_str k \<mapsto> c_str v)"
  unfolding redis_strings_def redis_cmd_def S_def by blast

lemma redis_strings_get:
  "redis_strings L kv \<Longrightarrow> redis_cmd L ''GET %s'' [S k] ctx w = (Some r, w') \<Longrightarrow>
     r = (case kv w (c_str k) of Some v \<Rightarrow> RString v | None \<Rightarrow> RNil) \<and> kv w' = kv w"
  unfolding redis_strings_def redis_cmd_def S_def by blast

text \<open>What \<open>Get\<close> can return: nothing, or the value the server has.\<close>

lemma cc_Get_result:
  assumes "redis_strings L kv" "cc_Get L k c w = Inr (v, c', w')"
  shows "v = [] \<or> kv w' (c_str k) = Some v"
proof (cases rule: cc_call_cases [of L c w "[]" "redis_cmd L ''GET %s'' [S k]"
      "\<lambda>reply. case reply of RString s \<Rightarrow> Inr s | _ \<Rightarrow> Inr []"])
  case (replied ctx c1 w1 reply w2)
  then show ?thesis
    using assms(2) redis_strings_get [OF assms(1) replied(3)]
    by (auto simp: cc_Get_def split: option.splits)
qed (use assms(2) in \<open>auto simp: cc_Get_def\<close>)

text \<open>C32. A value stored with \<open>SetEx\<close> is what \<open>Get\<close> reads next; if the server stops answering, \<open>Get\<close>
  gives the empty string and drops the connection.\<close>

theorem cc_SetEx_Get:
  assumes "redis_strings L kv" "cc_SetEx L k t v c w = Inr (''OK'', c1, w1)"
  shows "\<exists>s c2 w2. cc_Get L k c1 w1 = Inr (s, c2, w2) \<and>
    (s = c_str v \<and> cc_context c2 \<noteq> None \<or> s = [] \<and> cc_context c2 = None)"
proof -
  obtain ctx w0 reply where set: "cc_context c1 = Some ctx"
    "redis_cmd L ''SETEX %s %d %s'' [S k, ArgD t, S v] ctx w0 = (Some reply, w1)" "reply_bytes reply = ''OK''"
    using assms(2) unfolding cc_SetEx_def by (auto elim: cc_call_success)
  then have kv: "kv w1 (c_str k) = Some (c_str v)"
    using redis_strings_setex [OF assms(1)] by simp
  show ?thesis
  proof (cases "redis_cmd L ''GET %s'' [S k] ctx w1")
    case (Pair r w2)
    then show ?thesis
      using redis_strings_get [OF assms(1)] kv set(1)
      by (cases r) (fastforce simp: cc_Get_def cc_call_connected)+
  qed
qed

lemma mem_redis_strings: "redis_strings mem_redis fst"
  by (auto simp: redis_strings_def mem_redis_def)

theorem cc_SetEx_Get_witness:
  "\<exists>c2 w2. cc_Get mem_redis ''u'' (conn_example\<lparr>cc_context := Some 0, cc_last_connect_time := 1\<rparr>)
      ([''u'' \<mapsto> ''t''], \<lambda>_. []) = Inr (''t'', c2, w2) \<and> cc_context c2 = Some 0"
proof -
  have "cc_SetEx mem_redis ''u'' 86400 ''t'' conn_example (Map.empty, \<lambda>_. []) =
      Inr (''OK'', conn_example\<lparr>cc_context := Some 0, cc_last_connect_time := 1\<rparr>, ([''u'' \<mapsto> ''t''], \<lambda>_. []))"
    by (simp add: cc_SetEx_def cc_call_def cc_Init_def cc_auth_def cc_select_def cc_send_def redis_cmd_def
        S_def mem_redis_def conn_example_def CacheConn_def c_str_def reply_bytes_def)
  note run = cc_SetEx_Get [OF mem_redis_strings this]
  have "cc_Get mem_redis ''u'' (conn_example\<lparr>cc_context := Some 0, cc_last_connect_time := 1\<rparr>)
      ([''u'' \<mapsto> ''t''], \<lambda>_. []) =
      Inr (''t'', conn_example\<lparr>cc_context := Some 0, cc_last_connect_time := 1\<rparr>, ([''u'' \<mapsto> ''t''], \<lambda>_. []))"
    by (simp add: cc_Get_def cc_call_connected redis_cmd_def S_def mem_redis_def c_str_def)
  with run show ?thesis by (simp add: c_str_def)
qed

text \<open>What the server does with hashes.\<close>

definition flat :: "('a \<Rightarrow> 'b) \<Rightarrow> ('a \<times> 'a) list \<Rightarrow> 'b list" where
  "flat g ps = concat (map (\<lambda>(f, v). [g f, g v]) ps)"

definition redis_hashes :: "'w redis_lib \<Rightarrow> ('w \<Rightarrow> string \<Rightarrow> string \<Rightarrow> string option) \<Rightarrow> bool" where
  "redis_hashes L hv \<longleftrightarrow>
     (\<forall>ctx k ps w r w'. rd_commandArgv L ctx (''HMSET'' # k # flat id ps) w = (Some r, w') \<longrightarrow>
        reply_bytes r = ''OK'' \<longrightarrow> hv w' k = hv w k ++ map_of (rev ps)) \<and>
     (\<forall>ctx k w r w'. rd_command L ctx ''HGETALL %s'' [ArgS k] w = (Some r, w') \<longrightarrow>
        (\<exists>ps. r = RArray (flat RString ps) \<and> map_of ps = hv w k))"

lemma hmset_argv_flat:
  "hmset_argv k m = ''HMSET'' # c_str k # flat id (map (\<lambda>(f, v). (c_str f, c_str v)) m)"
  by (simp add: hmset_argv_def flat_def case_prod_unfold comp_def)

lemma even_length_flat [simp]: "even (length (flat g ps))"
  by (induction ps) (auto simp: flat_def)

lemma hash_pairs_flat: "hash_pairs (flat RString ps) = ps"
  by (induction ps) (auto simp: flat_def reply_bytes_def)

lemma argv_pairs_flat: "argv_pairs (flat id ps) = ps"
  by (induction ps) (auto simp: flat_def)

lemma redis_hashes_hmset:
  "redis_hashes L hv \<Longrightarrow>
     rd_commandArgv L ctx (hmset_argv k m) w = (Some r, w') \<Longrightarrow> reply_bytes r = ''OK'' \<Longrightarrow>
     hv w' (c_str k) = hv w (c_str k) ++ map_of (rev (map (\<lambda>(f, v). (c_str f, c_str v)) m))"
  unfolding redis_hashes_def hmset_argv_flat by blast

lemma redis_hashes_hgetall:
  "redis_hashes L hv \<Longrightarrow> redis_cmd L ''HGETALL %s'' [S k] ctx w = (Some r, w') \<Longrightarrow>
     \<exists>ps. r = RArray (flat RString ps) \<and> map_of ps = hv w (c_str k)"
  unfolding redis_hashes_def redis_cmd_def S_def by blast

text \<open>C33. Every field of a map written with \<open>Hmset\<close> is in the map \<open>HgetAll\<close> reads next, with its value,
  whatever the order of the reply; if the server stops answering, \<open>HgetAll\<close> returns false, leaves the
  caller's map alone and drops the connection.\<close>

theorem cc_Hmset_HgetAll:
  assumes "redis_hashes L hv" "om_ok m" "\<forall>(f, v) \<in> set m. NUL \<notin> set f \<and> NUL \<notin> set v"
    and "cc_Hmset L k m c w = Inr (''OK'', c1, w1)"
  shows "\<exists>b m' c2 w2. cc_HgetAll L k om_empty c1 w1 = Inr ((b, m'), c2, w2) \<and>
    (b \<and> om_ok m' \<and> (\<forall>f v. om_find m f = Some v \<longrightarrow> om_find m' f = Some v) \<or>
     \<not> b \<and> m' = om_empty \<and> cc_context c2 = None)"
proof -
  have id: "map (\<lambda>(f, v). (c_str f, c_str v)) m = m"
    using assms(3) by (intro map_idI) (auto simp: c_str_def)
  have dist: "distinct (map fst m)"
    using assms(2) unfolding om_ok_def by (simp add: strict_sorted_iff)
  obtain ctx w0 reply where set: "cc_context c1 = Some ctx"
    "rd_commandArgv L ctx (hmset_argv k m) w0 = (Some reply, w1)" "reply_bytes reply = ''OK''"
    using assms(4) unfolding cc_Hmset_def by (auto elim: cc_call_success)
  have "map_of (rev m) = map_of m"
    using dist by (intro map_of_inject_set [THEN iffD2]) (auto simp: rev_map [symmetric])
  then have hv: "om_find m f = Some v \<Longrightarrow> hv w1 (c_str k) f = Some v" for f v
    using redis_hashes_hmset [OF assms(1) set(2,3)] dist
    by (auto simp: id om_find_def map_add_def)
  show ?thesis
  proof (cases "redis_cmd L ''HGETALL %s'' [S k] ctx w1")
    case (Pair r w2)
    show ?thesis
    proof (cases r)
      case None
      then show ?thesis
        using Pair set(1) by (auto simp: cc_HgetAll_def cc_call_connected)
    next
      case (Some reply2)
      then obtain ps where ps: "reply2 = RArray (flat RString ps)" "map_of ps = hv w1 (c_str k)"
        using redis_hashes_hgetall [OF assms(1)] Pair by blast
      let ?m = "fold (\<lambda>(f, v). om_insert f v) ps om_empty"
      have "cc_HgetAll L k om_empty c1 w1 = Inr ((True, ?m), c1, w2)"
        using Pair Some set(1) by (simp add: cc_HgetAll_def cc_call_connected ps hash_pairs_flat)
      moreover have "om_ok ?m" by (rule omap.wf_fold_insert [OF omap.wf_empty])
      moreover have "om_find m f = Some v \<Longrightarrow> om_find ?m f = Some v" for f v
        using hv by (simp add: omap.lookup_fold_insert_empty ps)
      ultimately show ?thesis by blast
    qed
  qed
qed

lemma mem_redis_hashes: "redis_hashes mem_redis (\<lambda>w k. map_of (snd w k))"
proof -
  have "\<exists>ps. concat (map (\<lambda>(f, v). [RString f, RString v]) l) = flat RString ps \<and> map_of ps = map_of l"
    for l unfolding flat_def by blast
  then show ?thesis
    by (auto simp: redis_hashes_def mem_redis_def argv_pairs_flat updates_conv' map_upds_def zip_map_fst_snd)
qed

theorem cc_Hmset_HgetAll_witness:
  "\<exists>m' c2 w2. cc_HgetAll mem_redis ''k'' om_empty (conn_example\<lparr>cc_context := Some 0, cc_last_connect_time := 1\<rparr>)
      (Map.empty, (\<lambda>_. [])(''k'' := [(''f'', ''v'')])) = Inr ((True, m'), c2, w2) \<and> om_find m' ''f'' = Some ''v''"
proof -
  let ?c = "conn_example\<lparr>cc_context := Some 0, cc_last_connect_time := 1\<rparr>"
  let ?w = "(Map.empty, (\<lambda>_. [])(''k'' := [(''f'', ''v'')]))"
  have set: "cc_Hmset mem_redis ''k'' [(''f'', ''v'')] conn_example (Map.empty, \<lambda>_. []) = Inr (''OK'', ?c, ?w)"
    by (simp add: cc_Hmset_def cc_call_def cc_Init_def cc_auth_def cc_select_def cc_send_def
        hmset_argv_def mem_redis_def conn_example_def CacheConn_def c_str_def reply_bytes_def)
  have get: "cc_HgetAll mem_redis ''k'' om_empty ?c ?w = Inr ((True, [(''f'', ''v'')]), ?c, ?w)"
    by (simp add: cc_HgetAll_def cc_call_connected redis_cmd_def S_def mem_redis_def c_str_def
        om_empty_def reply_bytes_def)
  show ?thesis
    using cc_Hmset_HgetAll [OF mem_redis_hashes _ _ set] get by (auto simp: om_ok_def)
qed

end
