(* ===== verification/CachePool.thy ===== *)
theory CachePool
  imports Redis PoolSpec Config
begin

text \<open>
  The redis connection pool \<open>CachePool\<close>, the manager \<open>CacheManager\<close> that builds the pools from the
  configuration file, and the scope guard \<open>AutoRelCacheCon\<close>
  (\<^verbatim>\<open>src/cache-pool/cache_pool.cc, cache_pool.h\<close>).
\<close>

section \<open>\<open>CachePool\<close>\<close>

text \<open>A pointer to a connection object: the pool that created it and a number. \<open>cp_id\<close> stands for the
  address of the pool. The objects themselves are a store from pointers; they are shared by the pool
  and by whoever holds the pointer.\<close>

datatype cc_ptr = CcPtr (ptr_pool: nat) (ptr_serial: nat)

type_synonym objs = "cc_ptr \<Rightarrow> cache_conn"

record cachepool =
  cp_id :: nat
  cp_pool_name :: string
  cp_server_ip :: string
  cp_password :: string
  cp_server_port :: int
  cp_db_index :: int
  cp_cur_conn_cnt :: int
  cp_max_conn_cnt :: int
  cp_free_list :: "cc_ptr list"
  cp_abort_request :: bool
  cp_live :: nat

definition MIN_CACHE_CONN_CNT :: int where
  "MIN_CACHE_CONN_CNT = 2"

definition CachePool ::
  "nat \<Rightarrow> string \<Rightarrow> string \<Rightarrow> int \<Rightarrow> int \<Rightarrow> string \<Rightarrow> int \<Rightarrow> cachepool" where
  "CachePool pid pool_name server_ip server_port db_index password max_conn_cnt =
     \<lparr>cp_id = pid, cp_pool_name = pool_name, cp_server_ip = server_ip, cp_password = password,
      cp_server_port = server_port, cp_db_index = db_index, cp_cur_conn_cnt = MIN_CACHE_CONN_CNT,
      cp_max_conn_cnt = max_conn_cnt, cp_free_list = [], cp_abort_request = False, cp_live = 0\<rparr>"

text \<open>\<open>new CacheConn(server_ip_.c_str(), ...)\<close>: where the object goes and what it holds.\<close>

definition cp_new_ptr :: "cachepool \<Rightarrow> cc_ptr" where
  "cp_new_ptr p = CcPtr (cp_id p) (cp_live p)"

definition cp_new_conn :: "cachepool \<Rightarrow> cache_conn" where
  "cp_new_conn p = CacheConn (c_str (cp_server_ip p)) (cp_server_port p) (cp_db_index p)
     (c_str (cp_password p)) (c_str (cp_pool_name p))"

text \<open>Creating and connecting one object; an object that fails is deleted.\<close>

definition cp_create :: "'w redis_lib \<Rightarrow> cachepool \<Rightarrow> objs \<times> 'w \<Rightarrow> bool \<times> objs \<times> 'w" where
  "cp_create L p ow =
     (case ow of (objs, w) \<Rightarrow>
        let (r, c, w) = cc_Init L (cp_new_conn p) w
        in if r \<noteq> 0 then (False, objs, cc_destroy L c w)
           else (True, objs(cp_new_ptr p := c), w))"

fun cp_init_loop :: "'w redis_lib \<Rightarrow> nat \<Rightarrow> cachepool \<Rightarrow> objs \<times> 'w \<Rightarrow> int \<times> cachepool \<times> objs \<times> 'w" where
  "cp_init_loop L 0 p ow = (0, p, ow)"
| "cp_init_loop L (Suc n) p ow =
     (let (created, ow) = cp_create L p ow
      in if \<not> created then (1, p, ow)
         else cp_init_loop L n
                (p\<lparr>cp_free_list := cp_free_list p @ [cp_new_ptr p], cp_live := Suc (cp_live p)\<rparr>) ow)"

definition cp_Init :: "'w redis_lib \<Rightarrow> cachepool \<Rightarrow> objs \<times> 'w \<Rightarrow> int \<times> cachepool \<times> objs \<times> 'w" where
  "cp_Init L p ow = cp_init_loop L (nat (cp_cur_conn_cnt p)) p ow"

definition cp_pop :: "cachepool \<Rightarrow> (cc_ptr, cachepool) acquire" where
  "cp_pop p =
     (case cp_free_list p of
        [] \<Rightarrow> Refused p
      | c # rest \<Rightarrow> Granted c (p\<lparr>cp_free_list := rest\<rparr>))"

text \<open>\<open>GetCacheConn\<close> up to its end or to the wait.\<close>

definition cp_enter ::
  "'w redis_lib \<Rightarrow> cachepool \<Rightarrow> objs \<times> 'w \<Rightarrow> (cc_ptr, cachepool) acquire \<times> objs \<times> 'w" where
  "cp_enter L p ow =
     (if cp_abort_request p then (Refused p, ow)
      else if cp_free_list p = [] then
        (if cp_cur_conn_cnt p \<ge> cp_max_conn_cnt p then (MustWait p, ow)
         else (let (created, ow) = cp_create L p ow
               in if \<not> created then (Refused p, ow)
                  else (cp_pop (p\<lparr>cp_free_list := cp_free_list p @ [cp_new_ptr p],
                          cp_cur_conn_cnt := cp_cur_conn_cnt p + 1,
                          cp_live := Suc (cp_live p)\<rparr>), ow)))
      else (cp_pop p, ow))"

text \<open>The predicate the wait re-checks, and \<open>GetCacheConn\<close> after it: a wait that ran out with nothing
  free and a wait that ended because the pool closes both give the null pointer. A wait without
  timeout ends only with the predicate true.\<close>

definition cp_wake :: "cachepool \<Rightarrow> bool" where
  "cp_wake p \<longleftrightarrow> cp_free_list p \<noteq> [] \<or> cp_abort_request p"

definition cp_resume :: "cachepool \<Rightarrow> (cc_ptr, cachepool) acquire" where
  "cp_resume p = (if cp_free_list p = [] \<or> cp_abort_request p then Refused p else cp_pop p)"

text \<open>The second component tells that \<open>notify_one\<close> is called.\<close>

definition cp_RelCacheConn :: "cc_ptr \<Rightarrow> cachepool \<Rightarrow> cachepool \<times> bool" where
  "cp_RelCacheConn c p =
     (if c \<in> set (cp_free_list p) then (p, False) else (p\<lparr>cp_free_list := cp_free_list p @ [c]\<rparr>, True))"

text \<open>\<open>GetCacheConn\<close> of a thread that runs alone.\<close>

definition cp_GetCacheConn ::
  "'w redis_lib \<Rightarrow> int \<Rightarrow> cachepool \<Rightarrow> objs \<times> 'w \<Rightarrow> (cc_ptr option \<times> cachepool \<times> objs \<times> 'w) res" where
  "cp_GetCacheConn L timeout_ms p ow =
     (case cp_enter L p ow of
        (Granted c p, ow) \<Rightarrow> Inr (Some c, p, ow)
      | (Refused p, ow) \<Rightarrow> Inr (None, p, ow)
      | (MustWait p, ow) \<Rightarrow>
          if timeout_ms \<le> 0 \<and> \<not> cp_wake p then Inl WaitsForever
          else (case cp_resume p of
                  Granted c p \<Rightarrow> Inr (Some c, p, ow)
                | Refused p \<Rightarrow> Inr (None, p, ow)
                | MustWait p \<Rightarrow> Inl WaitsForever))"

definition cp_destroy :: "'w redis_lib \<Rightarrow> cachepool \<Rightarrow> objs \<times> 'w \<Rightarrow> cachepool \<times> objs \<times> 'w" where
  "cp_destroy L p ow =
     (case ow of (objs, w) \<Rightarrow>
        (p\<lparr>cp_abort_request := True, cp_free_list := [], cp_cur_conn_cnt := 0\<rparr>,
         objs, fold (\<lambda>c. cc_destroy L (objs c)) (cp_free_list p) w))"

section \<open>\<open>CacheManager\<close> and \<open>AutoRelCacheCon\<close>\<close>

type_synonym cachepools = "(string, cachepool) omap"

definition cache_key :: "string \<Rightarrow> string \<Rightarrow> string" where
  "cache_key pool_name field = snprintf_str 64 (pool_name @ field)"

text \<open>One turn of the loop; \<open>i\<close> is the position of the instance in the list.\<close>

definition cm_add_pool ::
  "'w redis_lib \<Rightarrow> config \<Rightarrow> nat \<Rightarrow> string \<Rightarrow> cachepools \<Rightarrow> objs \<times> 'w \<Rightarrow> (int \<times> cachepools \<times> objs \<times> 'w) res"
where
  "cm_add_pool L cfg i pool_name pools ow =
     rbind (GetConfigName cfg (cache_key pool_name ''_host'')) (\<lambda>cache_host.
     rbind (GetConfigName cfg (cache_key pool_name ''_port'')) (\<lambda>str_cache_port.
     rbind (GetConfigName cfg (cache_key pool_name ''_db'')) (\<lambda>str_cache_db.
     rbind (GetConfigName cfg (cache_key pool_name ''_maxconncnt'')) (\<lambda>str_max_conn_cnt.
       case (cache_host, str_cache_port, str_cache_db, str_max_conn_cnt) of
         (Some host, Some port, Some db, Some max_conn_cnt) \<Rightarrow>
           (let p = CachePool i pool_name host (atoi port) (atoi db) [] (atoi max_conn_cnt);
                (r, p, ow) = cp_Init L p ow
            in if r \<noteq> 0 then Inr (3, pools, ow)
               else Inr (0, om_insert pool_name p pools, ow))
       | _ \<Rightarrow> Inr (2, pools, ow)))))"

fun cm_init_loop ::
  "'w redis_lib \<Rightarrow> config \<Rightarrow> string option list \<Rightarrow> nat \<Rightarrow> nat \<Rightarrow> cachepools \<Rightarrow> objs \<times> 'w \<Rightarrow>
     (int \<times> cachepools \<times> objs \<times> 'w) res"
where
  "cm_init_loop L cfg names i 0 pools ow = Inr (0, pools, ow)"
| "cm_init_loop L cfg names i (Suc n) pools ow =
     rbind (GetItem names i) (\<lambda>pool_name.
     rbind (cm_add_pool L cfg i pool_name pools ow) (\<lambda>(r, pools, ow).
       if r \<noteq> 0 then Inr (r, pools, ow)
       else cm_init_loop L cfg names (Suc i) n pools ow))"

definition cm_Init ::
  "'w redis_lib \<Rightarrow> fsys \<Rightarrow> string \<Rightarrow> objs \<times> 'w \<Rightarrow> (int \<times> cachepools \<times> objs \<times> 'w) res" where
  "cm_Init L fs conf_path ow =
     rbind (CConfigFileReader fs (c_str conf_path)) (\<lambda>cfg.
     rbind (GetConfigName cfg ''CacheInstances'') (\<lambda>cache_instances.
       case cache_instances of
         None \<Rightarrow> Inr (1, om_empty, ow)
       | Some inst \<Rightarrow>
           (let names = CStrExplode inst (CHR '','')
            in rbind (cm_init_loop L cfg names 0 (GetItemCnt names) om_empty ow)
                 (\<lambda>(r, pools, ow). rbind (explode_destroy names) (\<lambda>_. Inr (r, pools, ow))))))"

definition cm_getInstance ::
  "'w redis_lib \<Rightarrow> fsys \<Rightarrow> string \<Rightarrow> cachepools option \<Rightarrow> objs \<times> 'w \<Rightarrow> (cachepools option \<times> objs \<times> 'w) res"
where
  "cm_getInstance L fs conf_path inst ow =
     (case inst of
        Some pools \<Rightarrow> Inr (Some pools, ow)
      | None \<Rightarrow>
          rbind (cm_Init L fs conf_path ow)
            (\<lambda>(r, pools, ow). Inr (if r \<noteq> 0 then None else Some pools, ow)))"

definition cm_GetCacheConn ::
  "'w redis_lib \<Rightarrow> string \<Rightarrow> cachepools \<Rightarrow> objs \<times> 'w \<Rightarrow> (cc_ptr option \<times> cachepools \<times> objs \<times> 'w) res"
where
  "cm_GetCacheConn L pool_name pools ow =
     (case om_find pools pool_name of
        None \<Rightarrow> Inr (None, pools, ow)
      | Some p \<Rightarrow>
          rbind (cp_GetCacheConn L 0 p ow)
            (\<lambda>(c, p, ow). Inr (c, om_assign pool_name p pools, ow)))"

text \<open>The pool is found by the name stored in the connection object.\<close>

definition cm_RelCacheConn :: "cc_ptr option \<Rightarrow> objs \<Rightarrow> cachepools \<Rightarrow> cachepools" where
  "cm_RelCacheConn conn objs pools =
     (case conn of
        None \<Rightarrow> pools
      | Some c \<Rightarrow>
          (let pool_name = c_str (cc_pool_name (objs c))
           in case om_find pools pool_name of
                None \<Rightarrow> pools
              | Some p \<Rightarrow> om_assign pool_name (fst (cp_RelCacheConn c p)) pools))"

definition AutoRelCacheCon_destroy ::
  "cachepools option \<Rightarrow> cc_ptr option \<Rightarrow> objs \<Rightarrow> cachepools option" where
  "AutoRelCacheCon_destroy manager conn objs =
     (case manager of
        None \<Rightarrow> None
      | Some pools \<Rightarrow> Some (cm_RelCacheConn conn objs pools))"

text \<open>A method call through a pointer.\<close>

definition on_conn :: "('w, 'a) cc_op \<Rightarrow> cc_ptr \<Rightarrow> objs \<times> 'w \<Rightarrow> ('a \<times> objs \<times> 'w) res" where
  "on_conn op c ow =
     (case ow of (objs, w) \<Rightarrow> rbind (op (objs c) w) (\<lambda>(a, obj, w). Inr (a, objs(c := obj), w)))"

section \<open>The pool keeps the contract\<close>

definition cache_ops :: "'w redis_lib \<Rightarrow> (cachepool, cc_ptr, objs \<times> 'w) pool_ops" where
  "cache_ops L = \<lparr>po_enter = cp_enter L, po_wake = cp_wake, po_resume = cp_resume,
     po_release = cp_RelCacheConn\<rparr>"

definition cp_live_conns :: "cachepool \<Rightarrow> cc_ptr set" where
  "cp_live_conns p = CcPtr (cp_id p) ` {0..<cp_live p}"

definition cp_limit :: "cachepool \<Rightarrow> nat" where
  "cp_limit p = nat (cp_max_conn_cnt p)"

definition cp_wf :: "cachepool \<Rightarrow> bool" where
  "cp_wf p \<longleftrightarrow> cp_cur_conn_cnt p = int (cp_live p)"

lemma card_cp_live_conns [simp]: "card (cp_live_conns p) = cp_live p"
  by (simp add: cp_live_conns_def card_image inj_on_def)

lemma cp_new_ptr_fresh: "cp_new_ptr p \<notin> cp_live_conns p"
  by (auto simp: cp_new_ptr_def cp_live_conns_def)

lemma cp_live_conns_frame [simp]:
  "cp_live_conns (p\<lparr>cp_free_list := fl\<rparr>) = cp_live_conns p"
  "cp_live_conns (p\<lparr>cp_free_list := fl, cp_cur_conn_cnt := n, cp_live := Suc (cp_live p)\<rparr>) =
     insert (cp_new_ptr p) (cp_live_conns p)"
  by (auto simp: cp_live_conns_def cp_new_ptr_def atLeast0_lessThan_Suc)

lemma cp_enter_cases:
  assumes "cp_enter L p ow = (r, ow')"
  obtains (refused) "r = Refused p" "cp_abort_request p \<or> cp_free_list p = []"
    | (taken) c rest where "cp_free_list p = c # rest" "r = Granted c (p\<lparr>cp_free_list := rest\<rparr>)"
        "ow' = ow" "\<not> cp_abort_request p"
    | (wait) "r = MustWait p" "cp_free_list p = []" "cp_max_conn_cnt p \<le> cp_cur_conn_cnt p"
        "\<not> cp_abort_request p"
    | (created) "cp_free_list p = []" "cp_cur_conn_cnt p < cp_max_conn_cnt p"
        "cp_create L p ow = (True, ow')"
        "r = Granted (cp_new_ptr p) (p\<lparr>cp_free_list := [], cp_cur_conn_cnt := cp_cur_conn_cnt p + 1,
               cp_live := Suc (cp_live p)\<rparr>)"
  using assms
  by (auto simp: cp_enter_def cp_pop_def Let_def split: if_splits list.splits prod.splits)

interpretation cachep: conn_pool "cache_ops L" cp_free_list cp_live_conns cp_limit cp_abort_request cp_wf
  for L
proof (unfold_locales, goal_cases)
  case 1
  then show ?case by (simp add: cp_live_conns_def)
next
  case (2 p w c p' w')
  from 2(1) have "cp_enter L p w = (Granted c p', w')" by (simp add: cache_ops_def)
  then show ?case
  proof (cases rule: cp_enter_cases)
    case created
    then show ?thesis
      using 2(2) by (auto simp: cp_new_ptr_fresh cp_limit_def cp_wf_def)
  qed (use 2(2) in \<open>auto simp: cp_limit_def cp_wf_def\<close>)
next
  case (3 p w p' w')
  from 3(1) have "cp_enter L p w = (Refused p', w')" by (simp add: cache_ops_def)
  then show ?case by (cases rule: cp_enter_cases) (use 3(2) in auto)
next
  case (4 p w p' w')
  from 4(1) have "cp_enter L p w = (MustWait p', w')" by (simp add: cache_ops_def)
  then show ?case by (cases rule: cp_enter_cases) (use 4(2) in auto)
qed (auto simp: cache_ops_def cp_resume_def cp_pop_def cp_wake_def cp_RelCacheConn_def cp_limit_def
      cp_wf_def split: list.splits if_splits)

lemma cp_Init_CachePool:
  assumes "cp_Init L (CachePool pid name ip port db pw maxc) ow = (0, p, ow')"
  shows "p = (CachePool pid name ip port db pw maxc)\<lparr>cp_free_list := [CcPtr pid 0, CcPtr pid 1], cp_live := 2\<rparr>"
  using assms
  by (auto simp: cp_Init_def CachePool_def MIN_CACHE_CONN_CNT_def cp_new_ptr_def Let_def
      numeral_2_eq_2 split: prod.splits if_splits)

lemma cp_Init_contract:
  assumes "cp_Init L (CachePool pid name ip port db pw maxc) ow = (0, p, ow')"
  shows "cp_wf p" "distinct (cp_free_list p)" "cp_live_conns p = set (cp_free_list p)"
    "cp_limit p = nat maxc" "cp_live p = 2" "\<not> cp_abort_request p"
  by (auto simp: cp_Init_CachePool [OF assms] cp_wf_def cp_live_conns_def cp_limit_def CachePool_def
      MIN_CACHE_CONN_CNT_def numeral_2_eq_2 atLeast0_lessThan_Suc)

section \<open>Requests of one thread\<close>

text \<open>The state of the manager: every pool is stored under its own name, pools have different
  addresses, and the objects a pool's free pointers lead to are its own and carry its name, so that a
  returned connection finds its way back.\<close>

definition cache_ok :: "cachepools \<Rightarrow> objs \<Rightarrow> bool" where
  "cache_ok pools objs \<longleftrightarrow> om_ok pools \<and>
     (\<forall>n p. om_find pools n = Some p \<longrightarrow> c_str (cp_pool_name p) = n \<and> distinct (cp_free_list p) \<and>
        (\<forall>c \<in> set (cp_free_list p). ptr_pool c = cp_id p \<and> c_str (cc_pool_name (objs c)) = n)) \<and>
     (\<forall>n m p q. om_find pools n = Some p \<longrightarrow> om_find pools m = Some q \<longrightarrow> n \<noteq> m \<longrightarrow> cp_id p \<noteq> cp_id q)"

lemma cache_okD:
  assumes "cache_ok pools objs" "om_find pools n = Some p"
  shows "c_str (cp_pool_name p) = n" "distinct (cp_free_list p)"
    "c \<in> set (cp_free_list p) \<Longrightarrow> ptr_pool c = cp_id p"
    "c \<in> set (cp_free_list p) \<Longrightarrow> c_str (cc_pool_name (objs c)) = n"
    "om_find pools m = Some q \<Longrightarrow> n \<noteq> m \<Longrightarrow> cp_id p \<noteq> cp_id q"
  using assms unfolding cache_ok_def by blast+

definition cp_capacity :: "cachepool \<Rightarrow> int" where
  "cp_capacity p = int (length (cp_free_list p)) + max 0 (cp_max_conn_cnt p - cp_cur_conn_cnt p)"

lemma cp_create_success:
  assumes "cp_create L p (objs, w) = (True, ow')"
  obtains obj w' where "ow' = (objs(cp_new_ptr p := obj), w')"
    "c_str (cc_pool_name obj) = c_str (cp_pool_name p)" "cc_context obj \<noteq> None"
proof -
  obtain r c w1 where i: "cc_Init L (cp_new_conn p) w = (r, c, w1)" by (metis prod_cases3)
  then have "r = 0" "ow' = (objs(cp_new_ptr p := c), w1)"
    using assms by (auto simp: cp_create_def split: if_splits)
  moreover have "c = (cp_new_conn p)\<lparr>cc_context := cc_context c, cc_last_connect_time := cc_last_connect_time c\<rparr>"
    using cc_Init_context [OF i] by blast
  then have "cc_pool_name c = cc_pool_name (cp_new_conn p)"
    by (metis cache_conn.select_convs(7) cache_conn.surjective cache_conn.update_convs(1,2))
  ultimately show ?thesis
    using that cc_Init_0 [of L "cp_new_conn p" w c w1] i by (auto simp: cp_new_conn_def CacheConn_def)
qed

lemma cache_ok_update:
  assumes "cache_ok pools objs" "om_find pools n = Some p"
    and "cp_pool_name p' = cp_pool_name p" "cp_id p' = cp_id p" "distinct (cp_free_list p')"
    and "\<And>c. c \<in> set (cp_free_list p') \<Longrightarrow> ptr_pool c = cp_id p \<and> c_str (cc_pool_name (objs' c)) = n"
    and "\<And>c. ptr_pool c \<noteq> cp_id p \<Longrightarrow> c_str (cc_pool_name (objs' c)) = c_str (cc_pool_name (objs c))"
  shows "cache_ok (om_assign n p' pools) objs'"
proof -
  have ok: "om_ok pools" using assms(1) by (simp add: cache_ok_def)
  have find: "om_find (om_assign n p' pools) m = (if m = n then Some p' else om_find pools m)" for m
    by (rule omap.lookup_assign [OF ok])
  have "c_str (cp_pool_name q) = m \<and> distinct (cp_free_list q) \<and>
      (\<forall>c \<in> set (cp_free_list q). ptr_pool c = cp_id q \<and> c_str (cc_pool_name (objs' c)) = m)"
    if "om_find (om_assign n p' pools) m = Some q" for m q
  proof (cases "m = n")
    case True
    then show ?thesis
      using that find assms(3-6) cache_okD(1) [OF assms(1,2)] by auto
  next
    case False
    then have q: "om_find pools m = Some q" using that find by simp
    have "cp_id q \<noteq> cp_id p" using cache_okD(5) [OF assms(1) q assms(2) False] .
    then show ?thesis
      using cache_okD(1-4) [OF assms(1) q] assms(7) by metis
  qed
  moreover have "cp_id q \<noteq> cp_id r"
    if "om_find (om_assign n p' pools) i = Some q" "om_find (om_assign n p' pools) j = Some r" "i \<noteq> j"
    for i j q r
    using that find assms(2,4) cache_okD(5) [OF assms(1)] by (metis option.inject)
  ultimately show ?thesis
    unfolding cache_ok_def using omap.wf_assign [OF ok] by blast
qed

text \<open>A request served.\<close>

lemma cm_GetCacheConn_Some:
  assumes "cm_GetCacheConn L n pools (objs, w) = Inr (Some c, pools', objs', w')" "cache_ok pools objs"
  obtains p p' where "om_find pools n = Some p" "pools' = om_assign n p' pools" "om_find pools' n = Some p'"
    "cp_capacity p' = cp_capacity p - 1" "c \<notin> set (cp_free_list p')"
    "c_str (cc_pool_name (objs' c)) = n" "ptr_pool c = cp_id p'" "cache_ok pools' objs'" "\<And>d. d \<noteq> c \<Longrightarrow> objs' d = objs d"
proof -
  have ok: "om_ok pools" using assms(2) by (simp add: cache_ok_def)
  obtain p p' where p: "om_find pools n = Some p"
    and get: "cp_GetCacheConn L 0 p (objs, w) = Inr (Some c, p', objs', w')"
    and pools': "pools' = om_assign n p' pools"
    using assms(1) by (auto simp: cm_GetCacheConn_def elim!: rbind_InrE split: option.split_asm)
  have find: "om_find pools' n = Some p'"
    by (simp add: pools' omap.lookup_assign_same [OF ok])
  have "(cp_enter L p (objs, w) = (Granted c p', objs', w')) \<or>
     (cp_enter L p (objs, w) = (MustWait p, objs', w') \<and> False)"
    using get by (auto simp: cp_GetCacheConn_def cp_enter_def cp_resume_def cp_pop_def cp_wake_def
        split: acquire.split_asm if_split_asm list.split_asm prod.split_asm)
  then have "cp_enter L p (objs, w) = (Granted c p', objs', w')" by simp
  then show thesis
  proof (cases rule: cp_enter_cases)
    case (taken d rest)
    then have "cache_ok pools' objs'"
      unfolding pools' using cache_okD(2-4) [OF assms(2) p]
      by (intro cache_ok_update [OF assms(2) p]) auto
    then show ?thesis
      using taken cache_okD(2-4) [OF assms(2) p] by (intro that [OF p pools' find]) (auto simp: cp_capacity_def)
  next
    case created
    obtain obj w2 where new: "(objs', w') = (objs(cp_new_ptr p := obj), w2)"
      "c_str (cc_pool_name obj) = c_str (cp_pool_name p)" "cc_context obj \<noteq> None"
      using cp_create_success [OF created(3)] by metis
    have "cache_ok pools' objs'"
      unfolding pools' using created(4) new(1)
      by (intro cache_ok_update [OF assms(2) p]) (auto simp: cp_new_ptr_def)
    moreover have "c_str (cc_pool_name (objs' c)) = n"
      using created(4) new(1,2) cache_okD(1) [OF assms(2) p] by simp
    ultimately show ?thesis
      using created(1,2,4) new(1)
      by (intro that [OF p pools' find]) (simp_all add: cp_capacity_def cp_new_ptr_def)
  qed simp_all
qed

lemma cm_GetCacheConn_None:
  assumes "cm_GetCacheConn L n pools ow = Inr (None, pools', objs', w')" "om_ok pools"
  shows "pools' = pools \<and> objs' = fst ow"
proof (cases "om_find pools n")
  case (Some p)
  then obtain p' where get: "cp_GetCacheConn L 0 p ow = Inr (None, p', objs', w')" "pools' = om_assign n p' pools"
    using assms(1) by (auto simp: cm_GetCacheConn_def elim!: rbind_InrE)
  obtain r ow2 where enter: "cp_enter L p ow = (r, ow2)" by (cases "cp_enter L p ow") blast
  have "p' = p \<and> objs' = fst ow"
    using enter
  proof (cases rule: cp_enter_cases)
    case refused
    then have "cp_enter L p ow = (Refused p', objs', w')"
      using get(1) enter by (auto simp: cp_GetCacheConn_def)
    then show ?thesis
      by (cases ow)
        (auto simp: cp_enter_def cp_pop_def cp_create_def Let_def split: if_splits prod.splits list.splits)
  qed (use get(1) enter in \<open>auto simp: cp_GetCacheConn_def cp_wake_def cp_resume_def split: if_splits\<close>)
  then show ?thesis using get(2) Some assms(2) by (simp add: om_assign_same)
qed (use assms in \<open>auto simp: cm_GetCacheConn_def\<close>)

lemma cm_RelCacheConn_Some:
  assumes "cache_ok pools objs" "om_find pools n = Some p" "c_str (cc_pool_name (objs c)) = n"
    "ptr_pool c = cp_id p" "c \<notin> set (cp_free_list p)"
  shows "om_find (cm_RelCacheConn (Some c) objs pools) n = Some (p\<lparr>cp_free_list := cp_free_list p @ [c]\<rparr>)"
    "cache_ok (cm_RelCacheConn (Some c) objs pools) objs"
    "m \<noteq> n \<Longrightarrow> om_find (cm_RelCacheConn (Some c) objs pools) m = om_find pools m"
proof -
  have ok: "om_ok pools" using assms(1) by (simp add: cache_ok_def)
  have rel: "cm_RelCacheConn (Some c) objs pools =
      om_assign n (p\<lparr>cp_free_list := cp_free_list p @ [c]\<rparr>) pools"
    using assms by (simp add: cm_RelCacheConn_def Let_def cp_RelCacheConn_def)
  show "om_find (cm_RelCacheConn (Some c) objs pools) n = Some (p\<lparr>cp_free_list := cp_free_list p @ [c]\<rparr>)"
    by (simp add: rel omap.lookup_assign_same [OF ok])
  show "m \<noteq> n \<Longrightarrow> om_find (cm_RelCacheConn (Some c) objs pools) m = om_find pools m"
    by (simp add: rel omap.lookup_assign_other [OF ok])
  show "cache_ok (cm_RelCacheConn (Some c) objs pools) objs"
    unfolding rel
  proof (rule cache_ok_update [OF assms(1,2)], goal_cases)
    case (4 d)
    then consider "d = c" | "d \<in> set (cp_free_list p)" by auto
    then show ?case using assms(3,4) cache_okD(3,4) [OF assms(1,2)] by cases blast+
  qed (use assms(5) cache_okD(2) [OF assms(1,2)] in simp_all)
qed

section \<open>What the manager builds\<close>

text \<open>A pool as the configuration asks for it: its address, its maximum and the database index, no
  password, and two connected objects.\<close>

definition configured_cache :: "config \<Rightarrow> objs \<Rightarrow> string \<Rightarrow> cachepool \<Rightarrow> bool" where
  "configured_cache cfg objs n p \<longleftrightarrow>
     (\<exists>host port db maxc.
        GetConfigName cfg (cache_key n ''_host'') = Inr (Some host) \<and>
        GetConfigName cfg (cache_key n ''_port'') = Inr (Some port) \<and>
        GetConfigName cfg (cache_key n ''_db'') = Inr (Some db) \<and>
        GetConfigName cfg (cache_key n ''_maxconncnt'') = Inr (Some maxc) \<and>
        p = (CachePool (cp_id p) n host (atoi port) (atoi db) [] (atoi maxc))
              \<lparr>cp_free_list := [CcPtr (cp_id p) 0, CcPtr (cp_id p) 1], cp_live := 2\<rparr>) \<and>
     (\<forall>k < 2. cc_context (objs (CcPtr (cp_id p) k)) \<noteq> None \<and>
        c_str (cc_pool_name (objs (CcPtr (cp_id p) k))) = c_str n)"

lemma configured_cache_frame:
  "configured_cache cfg objs n p \<Longrightarrow> (\<And>c. ptr_pool c = cp_id p \<Longrightarrow> objs' c = objs c) \<Longrightarrow>
     configured_cache cfg objs' n p"
  by (simp add: configured_cache_def)

lemma cp_Init_objs:
  assumes "cp_Init L (CachePool i n ip port db pw maxc) (objs, w) = (0, p, objs', w')"
  shows "\<forall>k < 2. cc_context (objs' (CcPtr i k)) \<noteq> None \<and> c_str (cc_pool_name (objs' (CcPtr i k))) = c_str n"
    and "\<forall>c. ptr_pool c \<noteq> i \<longrightarrow> objs' c = objs c"
proof -
  let ?p = "CachePool i n ip port db pw maxc"
  let ?q = "?p\<lparr>cp_free_list := [CcPtr i 0], cp_live := 1\<rparr>"
  obtain ow1 where c1: "cp_create L ?p (objs, w) = (True, ow1)"
    and c2: "cp_create L ?q ow1 = (True, objs', w')"
    using assms
    by (auto simp: cp_Init_def CachePool_def MIN_CACHE_CONN_CNT_def numeral_2_eq_2 Let_def cp_new_ptr_def
        split: prod.split_asm if_split_asm)
  obtain o1 w1 where 1: "ow1 = (objs(CcPtr i 0 := o1), w1)" "c_str (cc_pool_name o1) = c_str n"
    "cc_context o1 \<noteq> None"
    by (rule cp_create_success [OF c1]) (simp add: cp_new_ptr_def CachePool_def)
  obtain o2 w2 where 2: "objs' = objs(CcPtr i 0 := o1, CcPtr i 1 := o2)" "c_str (cc_pool_name o2) = c_str n"
    "cc_context o2 \<noteq> None"
    by (rule cp_create_success [OF c2 [unfolded 1(1)]]) (simp add: cp_new_ptr_def CachePool_def)
  show "\<forall>k < 2. cc_context (objs' (CcPtr i k)) \<noteq> None \<and> c_str (cc_pool_name (objs' (CcPtr i k))) = c_str n"
    using 1(2,3) 2 by (auto simp: less_2_cases_iff)
  show "\<forall>c. ptr_pool c \<noteq> i \<longrightarrow> objs' c = objs c"
    using 2(1) by auto
qed

text \<open>One turn of the loop.\<close>

definition built :: "config \<Rightarrow> nat \<Rightarrow> cachepools \<Rightarrow> objs \<Rightarrow> bool" where
  "built cfg i pools objs \<longleftrightarrow> om_ok pools \<and>
     (\<forall>n p. om_find pools n = Some p \<longrightarrow> c_str n = n \<and> configured_cache cfg objs n p \<and> cp_id p < i) \<and>
     (\<forall>n m p q. om_find pools n = Some p \<longrightarrow> om_find pools m = Some q \<longrightarrow> n \<noteq> m \<longrightarrow> cp_id p \<noteq> cp_id q)"

lemma builtD:
  assumes "built cfg i pools objs" "om_find pools n = Some p"
  shows "c_str n = n" "configured_cache cfg objs n p" "cp_id p < i"
    "om_find pools m = Some q \<Longrightarrow> n \<noteq> m \<Longrightarrow> cp_id p \<noteq> cp_id q"
  using assms unfolding built_def by blast+

lemma built_cache_ok: "built cfg i pools objs \<Longrightarrow> cache_ok pools objs"
proof -
  assume b: "built cfg i pools objs"
  have "c_str (cp_pool_name p) = n \<and> distinct (cp_free_list p) \<and>
      (\<forall>c \<in> set (cp_free_list p). ptr_pool c = cp_id p \<and> c_str (cc_pool_name (objs c)) = n)"
    if "om_find pools n = Some p" for n p
  proof -
    have n: "c_str n = n" and conf: "configured_cache cfg objs n p"
      using b that by (auto simp: built_def)
    obtain host port db maxc where p: "p = (CachePool (cp_id p) n host (atoi port) (atoi db) [] (atoi maxc))
        \<lparr>cp_free_list := [CcPtr (cp_id p) 0, CcPtr (cp_id p) 1], cp_live := 2\<rparr>"
      using conf unfolding configured_cache_def by blast
    have "cp_pool_name p = n" "cp_free_list p = [CcPtr (cp_id p) 0, CcPtr (cp_id p) 1]"
      by (subst p, simp add: CachePool_def)+
    then show ?thesis using n conf by (auto simp: configured_cache_def)
  qed
  then show ?thesis using b unfolding cache_ok_def built_def by blast
qed

lemma cm_add_pool_built:
  assumes "cm_add_pool L cfg i n pools (objs, w) = Inr (0, pools', objs', w')"
    and "built cfg i pools objs" "c_str n = n"
  shows "built cfg (Suc i) pools' objs'" "om_find pools' n \<noteq> None"
    "\<forall>m. om_find pools m \<noteq> None \<longrightarrow> om_find pools' m \<noteq> None"
proof -
  obtain host port db maxc p where keys:
      "GetConfigName cfg (cache_key n ''_host'') = Inr (Some host)"
      "GetConfigName cfg (cache_key n ''_port'') = Inr (Some port)"
      "GetConfigName cfg (cache_key n ''_db'') = Inr (Some db)"
      "GetConfigName cfg (cache_key n ''_maxconncnt'') = Inr (Some maxc)"
    and init: "cp_Init L (CachePool i n host (atoi port) (atoi db) [] (atoi maxc)) (objs, w) = (0, p, objs', w')"
    and pools': "pools' = om_insert n p pools"
    using assms(1) unfolding cm_add_pool_def Let_def
    by (auto elim!: rbind_InrE split: option.split_asm prod.split_asm if_split_asm)
  note p = cp_Init_CachePool [OF init] and objs = cp_Init_objs [OF init]
  have id: "cp_id p = i" by (simp add: p CachePool_def)
  have "p = (CachePool (cp_id p) n host (atoi port) (atoi db) [] (atoi maxc))
      \<lparr>cp_free_list := [CcPtr (cp_id p) 0, CcPtr (cp_id p) 1], cp_live := 2\<rparr>"
    unfolding id by (rule p)
  moreover have "\<forall>k < 2. cc_context (objs' (CcPtr (cp_id p) k)) \<noteq> None \<and>
      c_str (cc_pool_name (objs' (CcPtr (cp_id p) k))) = c_str n"
    unfolding id by (rule objs(1))
  ultimately have conf: "configured_cache cfg objs' n p"
    unfolding configured_cache_def using keys by blast
  have ok: "om_ok pools" using assms(2) by (simp add: built_def)
  have find: "om_find pools' m =
      (if m = n then (case om_find pools n of None \<Rightarrow> Some p | Some q \<Rightarrow> Some q) else om_find pools m)" for m
    unfolding pools' by (rule omap.lookup_insert [OF ok])
  have old: "configured_cache cfg objs' m q \<and> c_str m = m \<and> cp_id q < i" if "om_find pools m = Some q" for m q
  proof -
    have "cp_id q < i" by (rule builtD(3) [OF assms(2) that])
    moreover from this have "configured_cache cfg objs' m q"
      using objs(2) by (intro configured_cache_frame [OF builtD(2) [OF assms(2) that]]) auto
    ultimately show ?thesis using builtD(1) [OF assms(2) that] by blast
  qed
  have each: "om_find pools' m = Some q \<Longrightarrow>
      om_find pools m = Some q \<or> m = n \<and> q = p \<and> om_find pools n = None" for m q
    by (auto simp: find split: if_splits option.splits)
  have "c_str m = m \<and> configured_cache cfg objs' m q \<and> cp_id q < Suc i" if "om_find pools' m = Some q" for m q
    using each [OF that] old [of m q] conf id assms(3) by auto
  moreover have "cp_id q \<noteq> cp_id r"
    if "om_find pools' k = Some q" "om_find pools' m = Some r" "k \<noteq> m" for k m q r
    using each [OF that(1)] each [OF that(2)] builtD(3) [OF assms(2), of k q]
      builtD(3) [OF assms(2), of m r] builtD(4) [OF assms(2), of k q m r] that(3) id
    by (metis less_irrefl)
  ultimately show "built cfg (Suc i) pools' objs'"
    unfolding built_def using omap.wf_insert [OF ok] pools' by blast
  show "om_find pools' n \<noteq> None" "\<forall>m. om_find pools m \<noteq> None \<longrightarrow> om_find pools' m \<noteq> None"
    by (auto simp: find split: option.splits)
qed

lemma cm_init_loop_built:
  assumes "cm_init_loop L cfg names i k pools (objs, w) = Inr (0, pools', objs', w')"
    and "built cfg i pools objs" "\<forall>n. Some n \<in> set names \<longrightarrow> c_str n = n" "i + k \<le> length names"
  shows "built cfg (i + k) pools' objs' \<and> (\<forall>n. om_find pools n \<noteq> None \<longrightarrow> om_find pools' n \<noteq> None) \<and>
    (\<forall>j. i \<le> j \<and> j < i + k \<longrightarrow> (\<exists>n. names ! j = Some n \<and> om_find pools' n \<noteq> None))"
  using assms
proof (induction k arbitrary: i pools objs w)
  case 0
  then show ?case by auto
next
  case (Suc k)
  from Suc.prems(1) obtain n pools1 objs1 w1 where
      item: "GetItem names i = Inr n"
    and add: "cm_add_pool L cfg i n pools (objs, w) = Inr (0, pools1, objs1, w1)"
    and rest: "cm_init_loop L cfg names (Suc i) k pools1 (objs1, w1) = Inr (0, pools', objs', w')"
    by (auto elim!: rbind_InrE split: if_split_asm)
  have name: "names ! i = Some n" "i < length names"
    using item by (auto simp: GetItem_def split: if_split_asm option.split_asm)
  then have "c_str n = n" using Suc.prems(3) by (metis nth_mem)
  note add_facts = cm_add_pool_built [OF add Suc.prems(2) this]
  have IH: "built cfg (Suc i + k) pools' objs' \<and> (\<forall>n. om_find pools1 n \<noteq> None \<longrightarrow> om_find pools' n \<noteq> None) \<and>
    (\<forall>j. Suc i \<le> j \<and> j < Suc i + k \<longrightarrow> (\<exists>n. names ! j = Some n \<and> om_find pools' n \<noteq> None))"
    using Suc.prems(3,4) by (intro Suc.IH [OF rest add_facts(1)]) auto
  have "\<exists>n. names ! j = Some n \<and> om_find pools' n \<noteq> None" if "i \<le> j" "j < i + Suc k" for j
    using that IH name add_facts(2) by (cases "j = i") (simp, metis Suc_leI add_Suc_shift le_neq_implies_less)
  then show ?case using IH add_facts(3) by simp
qed

lemma split_fields_chars: "x \<in> set (split_fields sep acc s) \<Longrightarrow> set x \<subseteq> set acc \<union> set s"
  by (induction sep acc s rule: split_fields.induct) (auto split: if_splits)

section \<open>Properties\<close>

definition cache_fs_example :: fsys where
  "cache_fs_example = \<lparr>fs_files = [''c'' \<mapsto> concat (map (\<lambda>l. l @ [LF])
      [''CacheInstances=token'', ''token_host=h'', ''token_port=1'', ''token_db=0'', ''token_maxconncnt=2''])],
     fs_can_write = (\<lambda>_. True), fs_fwrite_ok = (\<lambda>_. True)\<rparr>"

definition cache_pool_example :: cachepool where
  "cache_pool_example = (CachePool 0 ''token'' ''h'' 1 0 [] 2)\<lparr>cp_free_list := [CcPtr 0 0, CcPtr 0 1], cp_live := 2\<rparr>"

definition up_redis :: "unit redis_lib" where
  "up_redis = \<lparr>rd_time = (\<lambda>w. (1, w)), rd_connect = (\<lambda>_ _ _ w. (Some (0, False), w)),
     rd_free = (\<lambda>_ w. w), rd_command = (\<lambda>_ _ _ w. (Some (RStatus ''OK''), w)),
     rd_commandArgv = (\<lambda>_ _ w. (None, w))\<rparr>"

definition objs_example :: objs where
  "objs_example = (\<lambda>_. (CacheConn ''h'' 1 0 [] ''token'')\<lparr>cc_context := Some 0, cc_last_connect_time := 1\<rparr>)"

lemma cp_Init_example:
  "cp_Init up_redis (CachePool 0 ''token'' ''h'' 1 0 [] 2) (objs_example, ()) = (0, cache_pool_example, objs_example, ())"
proof -
  have "objs_example(c := (CacheConn ''h'' 1 0 [] ''token'')\<lparr>cc_context := Some 0, cc_last_connect_time := 1\<rparr>) =
      objs_example" for c
    by (simp add: objs_example_def fun_eq_iff)
  moreover have "cp_create up_redis p (objs, ()) =
      (True, objs(cp_new_ptr p := (CacheConn ''h'' 1 0 [] ''token'')\<lparr>cc_context := Some 0, cc_last_connect_time := 1\<rparr>), ())"
    if "cp_new_conn p = CacheConn ''h'' 1 0 [] ''token''" for p objs
    using that by (simp add: cp_create_def cc_Init_def cc_auth_def cc_select_def up_redis_def CacheConn_def c_str_def)
  ultimately show ?thesis
    by (simp add: cp_Init_def CachePool_def MIN_CACHE_CONN_CNT_def numeral_2_eq_2 cp_new_conn_def c_str_def
        cache_pool_example_def cp_new_ptr_def)
qed

text \<open>C2. Whatever the interleaving of requests, waits, wake-ups and returns, a redis connection is in
  the hands of at most one thread, once, and never at the same time in the free list; the free and the
  held connections are all there are, and their number never exceeds the configured maximum (or two,
  the number the pool starts with).\<close>

theorem cache_pool_safe:
  assumes "cp_Init L (CachePool pid name ip port db pw maxc) ow = (0, p0, ow0)"
    and "sched_reach (cache_ops L) p0 s"
  shows "(\<forall>t c. c \<in> set (held s t) \<longrightarrow> c \<notin> set (cp_free_list (pool s)) \<and>
      (\<forall>u. c \<in> set (held s u) \<longrightarrow> u = t) \<and> count_list (held s t) c = 1) \<and>
    cp_live_conns (pool s) = set (cp_free_list (pool s)) \<union> (\<Union>t. set (held s t)) \<and>
    cp_cur_conn_cnt (pool s) = int (card (cp_live_conns (pool s))) \<and> cp_cur_conn_cnt (pool s) \<le> max 2 maxc"
proof -
  note p0 = cp_Init_contract [OF assms(1)]
  have inv: "sched_inv cp_free_list cp_live_conns s"
    using cachep.reach_inv [OF assms(2) p0(1-3)] by simp
  have "cp_wf (pool s)" "cp_live (pool s) \<le> max 2 (nat maxc)"
    using cachep.bound [OF assms(2) p0(1)] p0(4,5) by simp_all
  then have "cp_cur_conn_cnt (pool s) = int (cp_live (pool s))" "cp_cur_conn_cnt (pool s) \<le> max 2 maxc"
    by (auto simp: cp_wf_def)
  moreover have "cp_live_conns (pool s) = set (cp_free_list (pool s)) \<union> (\<Union>t. set (held s t))"
    using inv by (simp add: sched_inv_def)
  moreover note cachep.exclusive [OF assms(2) p0(1-3)]
  ultimately show ?thesis unfolding card_cp_live_conns by blast
qed

theorem cache_pool_safe_witness:
  "cp_cur_conn_cnt cache_pool_example = 2 \<and> cp_live_conns cache_pool_example = {CcPtr 0 0, CcPtr 0 1}"
  using cache_pool_safe [OF cp_Init_example reach_start [where tm = "\<lambda>_. False"]]
  by (simp add: cache_pool_example_def CachePool_def MIN_CACHE_CONN_CNT_def)

lemma cm_Init_success:
  assumes "cm_Init L fs path (objs, w) = Inr (0, pools, objs', w')"
  shows "\<exists>cfg inst. CConfigFileReader fs (c_str path) = Inr cfg \<and>
    GetConfigName cfg ''CacheInstances'' = Inr (Some inst) \<and> cache_ok pools objs' \<and>
    (\<forall>n \<in> set (split_fields (CHR '','') [] (c_str inst)). \<exists>p. om_find pools n = Some p \<and> configured_cache cfg objs' n p)"
proof -
  obtain cfg inst r where cfg: "CConfigFileReader fs (c_str path) = Inr cfg"
      "GetConfigName cfg ''CacheInstances'' = Inr (Some inst)"
    and loop: "cm_init_loop L cfg (CStrExplode inst (CHR '','')) 0
        (GetItemCnt (CStrExplode inst (CHR '',''))) om_empty (objs, w) = Inr (0, pools, objs', w')"
    and destroy: "explode_destroy (CStrExplode inst (CHR '','')) = Inr r"
    using assms unfolding cm_Init_def Let_def
    by (auto elim!: rbind_InrE split: option.split_asm prod.split_asm)
  have names: "[] \<notin> set (split_fields (CHR '','') [] (c_str inst))"
    using destroy CStrExplode_uninit_iff [of inst "CHR '',''"]
    by (auto simp: explode_destroy_def split: if_splits)
  note items = CStrExplode_fields [OF names]
  have nul: "\<forall>n. Some n \<in> set (CStrExplode inst (CHR '','')) \<longrightarrow> c_str n = n"
    using split_fields_chars [of _ "CHR '',''" "[]" "c_str inst"] NUL_notin_c_str [of inst]
    unfolding items by (auto intro!: c_str_id) (meson NUL_notin_c_str subsetD)
  have "built cfg 0 om_empty objs"
    by (simp add: built_def om_ok_empty om_find_empty)
  note loop_facts = cm_init_loop_built [OF loop this nul]
  have built: "built cfg (GetItemCnt (CStrExplode inst (CHR '',''))) pools objs'"
    and filled: "\<And>j. j < GetItemCnt (CStrExplode inst (CHR '','')) \<Longrightarrow>
        \<exists>n. CStrExplode inst (CHR '','') ! j = Some n \<and> om_find pools n \<noteq> None"
    using loop_facts by (simp_all add: GetItemCnt_def)
  have "\<exists>p. om_find pools n = Some p \<and> configured_cache cfg objs' n p"
    if n: "n \<in> set (split_fields (CHR '','') [] (c_str inst))" for n
  proof -
    obtain j where j: "j < length (split_fields (CHR '','') [] (c_str inst))"
        "split_fields (CHR '','') [] (c_str inst) ! j = n"
      using n by (auto simp: in_set_conv_nth)
    then have "om_find pools n \<noteq> None"
      using filled [of j] by (auto simp: items GetItemCnt_def)
    then obtain p where p: "om_find pools n = Some p" by blast
    show ?thesis using p builtD(2) [OF built p] by blast
  qed
  then show ?thesis using cfg built_cache_ok [OF built] by blast
qed

text \<open>C16. When the cache manager starts successfully, there is a pool for every name in the configured
  instance list, with the configured address, port, database and maximum, and its two connections are
  connected; the store is consistent, so that every connection finds its way back to its pool.\<close>

theorem cm_Init_builds_all_pools:
  assumes "cm_Init L fs path (objs, w) = Inr (0, pools, objs', w')"
  shows "\<exists>cfg inst. CConfigFileReader fs (c_str path) = Inr cfg \<and>
    GetConfigName cfg ''CacheInstances'' = Inr (Some inst) \<and> cache_ok pools objs' \<and>
    (\<forall>n \<in> set (split_fields (CHR '','') [] (c_str inst)). \<exists>p. om_find pools n = Some p \<and> configured_cache cfg objs' n p)"
  by (rule cm_Init_success [OF assms])

lemma cm_Init_token:
  assumes cfg: "CConfigFileReader fs (c_str path) = Inr cfg"
    "GetConfigName cfg ''CacheInstances'' = Inr (Some ''token'')"
    "GetConfigName cfg (cache_key ''token'' ''_host'') = Inr (Some ''h'')"
    "GetConfigName cfg (cache_key ''token'' ''_port'') = Inr (Some ''1'')"
    "GetConfigName cfg (cache_key ''token'' ''_db'') = Inr (Some ''0'')"
    "GetConfigName cfg (cache_key ''token'' ''_maxconncnt'') = Inr (Some ''2'')"
  shows "cm_Init up_redis fs path (objs_example, ()) = Inr (0, [(''token'', cache_pool_example)], objs_example, ())"
proof -
  have nums: "CStrExplode ''token'' (CHR '','') = [Some ''token'']" "atoi ''1'' = 1" "atoi ''0'' = 0" "atoi ''2'' = 2"
    by code_simp+
  show ?thesis
    by (simp add: cm_Init_def c_str_def cfg nums GetItemCnt_def GetItem_def cm_add_pool_def cp_Init_example
        explode_destroy_def om_empty_def cfg [unfolded c_str_def])
qed

lemma cm_Init_example:
  "cm_Init up_redis cache_fs_example ''c'' (objs_example, ()) = Inr (0, [(''token'', cache_pool_example)], objs_example, ())"
proof -
  have "rbind (CConfigFileReader cache_fs_example (c_str ''c'')) (\<lambda>cfg. Inr
      (GetConfigName cfg ''CacheInstances'', GetConfigName cfg (cache_key ''token'' ''_host''),
       GetConfigName cfg (cache_key ''token'' ''_port''), GetConfigName cfg (cache_key ''token'' ''_db''),
       GetConfigName cfg (cache_key ''token'' ''_maxconncnt''))) =
      Inr (Inr (Some ''token''), Inr (Some ''h''), Inr (Some ''1''), Inr (Some ''0''), Inr (Some ''2''))"
    by code_simp
  then show ?thesis by (elim rbind_InrE) (rule cm_Init_token, assumption, auto)
qed

theorem cm_Init_builds_all_pools_witness:
  "cache_ok [(''token'', cache_pool_example)] objs_example"
  using cm_Init_builds_all_pools [OF cm_Init_example] by blast

text \<open>C14. A redis connection obtained by pool name leaves its pool with one connection less to hand out
  and, given back after any use that keeps the name stored in the objects, restores the capacity of the
  pool and touches no other pool.\<close>

theorem cache_request_roundtrip:
  assumes "cache_ok pools objs" "cm_GetCacheConn L n pools (objs, w) = Inr (Some c, pools', objs', w')"
    and "\<And>d. cc_pool_name (objs2 d) = cc_pool_name (objs' d)"
  shows "\<exists>p p' p''. om_find pools n = Some p \<and> om_find pools' n = Some p' \<and>
    om_find (cm_RelCacheConn (Some c) objs2 pools') n = Some p'' \<and>
    cp_capacity p' = cp_capacity p - 1 \<and> cp_capacity p'' = cp_capacity p \<and>
    cache_ok (cm_RelCacheConn (Some c) objs2 pools') objs2 \<and>
    (\<forall>m. m \<noteq> n \<longrightarrow> om_find (cm_RelCacheConn (Some c) objs2 pools') m = om_find pools m)"
proof -
  obtain p p' where g: "om_find pools n = Some p" "pools' = om_assign n p' pools" "om_find pools' n = Some p'"
    "cp_capacity p' = cp_capacity p - 1" "c \<notin> set (cp_free_list p')"
    "c_str (cc_pool_name (objs' c)) = n" "ptr_pool c = cp_id p'" "cache_ok pools' objs'"
    using cm_GetCacheConn_Some [OF assms(2,1)] by metis
  have ok: "om_ok pools" using assms(1) by (simp add: cache_ok_def)
  have "cache_ok pools' objs2" "c_str (cc_pool_name (objs2 c)) = n"
    using g(6,8) assms(3) by (simp_all add: cache_ok_def)
  note r = cm_RelCacheConn_Some [OF this(1) g(3) this(2) g(7,5)]
  have "om_find pools' m = om_find pools m" if "m \<noteq> n" for m
    using that by (simp add: g(2) omap.lookup_assign_other [OF ok])
  then show ?thesis
    using g(1,3,4) r by (auto simp: cp_capacity_def)
qed

theorem cache_request_roundtrip_witness:
  "\<exists>p''. om_find (cm_RelCacheConn (Some (CcPtr 0 0)) objs_example
        [(''token'', cache_pool_example\<lparr>cp_free_list := [CcPtr 0 1]\<rparr>)]) ''token'' = Some p'' \<and>
     cp_capacity p'' = cp_capacity cache_pool_example"
proof -
  have ok: "cache_ok [(''token'', cache_pool_example)] objs_example"
    by (auto simp: cache_ok_def om_ok_def cache_pool_example_def CachePool_def objs_example_def CacheConn_def c_str_def)
  have "cm_GetCacheConn up_redis ''token'' [(''token'', cache_pool_example)] (objs_example, ()) =
      Inr (Some (CcPtr 0 0), [(''token'', cache_pool_example\<lparr>cp_free_list := [CcPtr 0 1]\<rparr>)], objs_example, ())"
    by (simp add: cm_GetCacheConn_def cp_GetCacheConn_def cp_enter_def cp_pop_def cache_pool_example_def CachePool_def)
  from cache_request_roundtrip [OF ok this, of objs_example] show ?thesis by fastforce
qed

end
