(* ===== verification/World.thy ===== *)
theory World
  imports DbPool CachePool
begin

text \<open>
  The state the request handlers share, and the steps they are made of: the two managers (singletons),
  the connection objects, the configuration files and the outside world; the libraries they call, as
  one record; building and reading JSON values; and \<open>FormatString\<close> (\<^verbatim>\<open>src/api/include/common.h\<close>).
  A handler is a stateful computation; it runs alone, so a wait for a connection that only another
  thread could end is \<open>WaitsForever\<close>.
\<close>

section \<open>JSON values built by the code\<close>

text \<open>\<open>operator[]\<close> on a fresh value makes it an object or an array. The members of an object are kept
  in the order of their names.\<close>

datatype jval = JNull | JInt int | JStr string | JObj "(string \<times> jval) list" | JArr "jval list"

fun jset :: "string \<Rightarrow> jval \<Rightarrow> jval \<Rightarrow> jval" where
  "jset k v (JObj m) = JObj (om_assign k v m)"
| "jset k v _ = JObj [(k, v)]"

fun jpush :: "jval \<Rightarrow> jval \<Rightarrow> jval" where
  "jpush v (JArr vs) = JArr (vs @ [v])"
| "jpush v _ = JArr [v]"

fun jget :: "string \<Rightarrow> jval \<Rightarrow> jval" where
  "jget k (JObj m) = (case om_find m k of Some v \<Rightarrow> v | None \<Rightarrow> JNull)"
| "jget k _ = JNull"

text \<open>A value made from a C string; the constructor throws on the null pointer.\<close>

definition jstr_ptr :: "string option \<Rightarrow> jval res" where
  "jstr_ptr p = (case p of None \<Rightarrow> Inl Thrown | Some s \<Rightarrow> Inr (JStr s))"

section \<open>Libraries\<close>

text \<open>The JSON reader works on values \<open>'v\<close> of its own; \<open>operator[]\<close> throws on a value that is neither
  an object nor null, the conversions throw on values they cannot convert. \<open>sys_format_time\<close> is
  \<open>strftime\<close> of the local time. \<open>sys_pipe\<close> and \<open>sys_fork\<close> tell whether the call succeeded, \<open>sys_read\<close>
  gives the bytes one \<open>read\<close> from the child's output stores.\<close>

record ('v, 'w) libs =
  lib_mysql :: "'w mysql_lib"
  lib_redis :: "'w redis_lib"
  js_parse :: "string \<Rightarrow> 'v option"
  js_member :: "'v \<Rightarrow> string \<Rightarrow> 'v res"
  js_isNull :: "'v \<Rightarrow> bool"
  js_asString :: "'v \<Rightarrow> string res"
  js_asInt :: "'v \<Rightarrow> int res"
  js_fast :: "jval \<Rightarrow> string"
  js_styled :: "jval \<Rightarrow> string"
  sys_uuid :: "'w \<Rightarrow> string \<times> 'w"
  sys_rand :: "'w \<Rightarrow> nat \<times> 'w"
  sys_time :: "'w \<Rightarrow> int \<times> 'w"
  sys_format_time :: "int \<Rightarrow> string"
  sys_rename :: "string \<Rightarrow> string \<Rightarrow> 'w \<Rightarrow> bool \<times> 'w"
  sys_unlink :: "string \<Rightarrow> 'w \<Rightarrow> bool \<times> 'w"
  sys_pipe :: "'w \<Rightarrow> bool \<times> 'w"
  sys_fork :: "string \<Rightarrow> string list \<Rightarrow> 'w \<Rightarrow> bool \<times> 'w"
  sys_read :: "nat \<Rightarrow> 'w \<Rightarrow> string \<times> 'w"

text \<open>\<open>root[key].isNull()\<close> and, when it is not, \<open>root[key].asString()\<close>.\<close>

definition json_string :: "('v, 'w) libs \<Rightarrow> 'v \<Rightarrow> string \<Rightarrow> string option res" where
  "json_string L root key =
     rbind (js_member L root key) (\<lambda>v.
       if js_isNull L v then Inr None else rbind (js_asString L v) (\<lambda>s. Inr (Some s)))"

definition json_int :: "('v, 'w) libs \<Rightarrow> 'v \<Rightarrow> string \<Rightarrow> int option res" where
  "json_int L root key =
     rbind (js_member L root key) (\<lambda>v.
       if js_isNull L v then Inr None else rbind (js_asInt L v) (\<lambda>i. Inr (Some i)))"

section \<open>\<open>FormatString\<close>\<close>

datatype fmt_arg = FStr string | FInt int

text \<open>The conversions the code uses; every call passes arguments that match its format.\<close>

fun FormatString :: "string \<Rightarrow> fmt_arg list \<Rightarrow> string" where
  "FormatString [] args = []"
| "FormatString (c # cs) args =
     (if c = CHR 0x25 then
        (case (cs, args) of
           (d # ds, FStr s # as) \<Rightarrow> c_str s @ FormatString ds as
         | (d # ds, FInt i # as) \<Rightarrow>
             dec_int i @ (if d = CHR ''l'' then FormatString (tl ds) as else FormatString ds as)
         | _ \<Rightarrow> [])
      else c # FormatString cs args)"

section \<open>The shared state\<close>

record 'w world =
  w_db :: "dbpools option"
  w_db_conf :: string
  w_cache :: "cachepools option"
  w_cache_conf :: string
  w_objs :: objs
  w_fs :: fsys
  w_dfs_path_client :: string
  w_web_server_ip :: string
  w_env :: 'w

text \<open>A step of the outside world.\<close>

definition env_do :: "('w \<Rightarrow> 'a \<times> 'w) \<Rightarrow> ('w world, 'a) stm" where
  "env_do f s = (let (a, e) = f (w_env s) in Inr (a, s\<lparr>w_env := e\<rparr>))"

definition env_res :: "('w \<Rightarrow> ('a \<times> 'w) res) \<Rightarrow> ('w world, 'a) stm" where
  "env_res f s = rbind (f (w_env s)) (\<lambda>(a, e). Inr (a, s\<lparr>w_env := e\<rparr>))"

section \<open>The database manager\<close>

text \<open>The calls \<open>DBManager::getInstance()\<close>, \<open>db_manager->getConn(name)\<close> and the end of the scope of
  \<open>AUTO_REL_DB_CONN\<close>.\<close>

definition db_getInstance :: "('v, 'w) libs \<Rightarrow> ('w world, unit) stm" where
  "db_getInstance L s =
     rbind (dbm_getInstance (lib_mysql L) (w_fs s) (c_str (w_db_conf s)) (w_db s) (w_env s))
       (\<lambda>(inst, e). Inr ((), s\<lparr>w_db := inst, w_env := e\<rparr>))"

definition db_getConn :: "('v, 'w) libs \<Rightarrow> string \<Rightarrow> ('w world, conn option) stm" where
  "db_getConn L name s =
     (case w_db s of
        None \<Rightarrow> Inl NullDeref
      | Some pools \<Rightarrow>
          rbind (getConn (lib_mysql L) name pools (w_env s))
            (\<lambda>(c, pools, e). Inr (c, s\<lparr>w_db := Some pools, w_env := e\<rparr>)))"

definition db_auto_rel :: "conn option \<Rightarrow> ('w world, unit) stm" where
  "db_auto_rel conn s = Inr ((), s\<lparr>w_db := AutoRelConn_destroy (w_db s) conn\<rparr>)"

definition db_take :: "('v, 'w) libs \<Rightarrow> string \<Rightarrow> ('w world, conn option) stm" where
  "db_take L name = sbind (db_getInstance L) (\<lambda>_. db_getConn L name)"

definition with_db_conn ::
  "('v, 'w) libs \<Rightarrow> string \<Rightarrow> (conn option \<Rightarrow> ('w world, 'a) stm) \<Rightarrow> ('w world, 'a) stm" where
  "with_db_conn L name body =
     sbind (db_take L name) (\<lambda>conn.
     sbind (body conn) (\<lambda>r.
     sbind (db_auto_rel conn) (\<lambda>_. sret r)))"

text \<open>Methods called through the connection pointer.\<close>

definition db_query :: "('v, 'w) libs \<Rightarrow> conn option \<Rightarrow> string \<Rightarrow> ('w world, result_set option) stm" where
  "db_query L conn sql =
     (case conn of
        None \<Rightarrow> slift (Inl NullDeref)
      | Some c \<Rightarrow> env_do (\<lambda>e. case executeQuery (lib_mysql L) c sql e of (rs, n, e) \<Rightarrow> (rs, e)))"

definition db_update :: "('v, 'w) libs \<Rightarrow> conn option \<Rightarrow> string \<Rightarrow> bool \<Rightarrow> ('w world, bool) stm" where
  "db_update L conn sql if_care =
     (case conn of
        None \<Rightarrow> slift (Inl NullDeref)
      | Some c \<Rightarrow> env_do (executeUpdate (lib_mysql L) c sql if_care))"

text \<open>\<open>result && result->next()\<close>: the result set on its first row.\<close>

definition first_row :: "result_set option \<Rightarrow> result_set option" where
  "first_row result =
     (case result of
        None \<Rightarrow> None
      | Some r \<Rightarrow> (case rs_next r of (b, r) \<Rightarrow> if b then Some r else None))"

section \<open>The cache manager\<close>

definition cache_getInstance :: "('v, 'w) libs \<Rightarrow> ('w world, unit) stm" where
  "cache_getInstance L s =
     rbind (cm_getInstance (lib_redis L) (w_fs s) (w_cache_conf s) (w_cache s) (w_objs s, w_env s))
       (\<lambda>(inst, objs, e). Inr ((), s\<lparr>w_cache := inst, w_objs := objs, w_env := e\<rparr>))"

definition cache_getConn :: "('v, 'w) libs \<Rightarrow> string \<Rightarrow> ('w world, cc_ptr option) stm" where
  "cache_getConn L name s =
     (case w_cache s of
        None \<Rightarrow> Inl NullDeref
      | Some pools \<Rightarrow>
          rbind (cm_GetCacheConn (lib_redis L) name pools (w_objs s, w_env s))
            (\<lambda>(c, pools, objs, e). Inr (c, s\<lparr>w_cache := Some pools, w_objs := objs, w_env := e\<rparr>)))"

definition cache_auto_rel :: "cc_ptr option \<Rightarrow> ('w world, unit) stm" where
  "cache_auto_rel conn s =
     Inr ((), s\<lparr>w_cache := AutoRelCacheCon_destroy (w_cache s) conn (w_objs s)\<rparr>)"

definition cache_take :: "('v, 'w) libs \<Rightarrow> string \<Rightarrow> ('w world, cc_ptr option) stm" where
  "cache_take L name = sbind (cache_getInstance L) (\<lambda>_. cache_getConn L name)"

definition with_cache_conn ::
  "('v, 'w) libs \<Rightarrow> string \<Rightarrow> (cc_ptr option \<Rightarrow> ('w world, 'a) stm) \<Rightarrow> ('w world, 'a) stm" where
  "with_cache_conn L name body =
     sbind (cache_take L name) (\<lambda>conn.
     sbind (body conn) (\<lambda>r.
     sbind (cache_auto_rel conn) (\<lambda>_. sret r)))"

definition cache_call :: "cc_ptr \<Rightarrow> ('w, 'a) cc_op \<Rightarrow> ('w world, 'a) stm" where
  "cache_call c op s =
     rbind (on_conn op c (w_objs s, w_env s))
       (\<lambda>(a, objs, e). Inr (a, s\<lparr>w_objs := objs, w_env := e\<rparr>))"

section \<open>Scopes\<close>

text \<open>What the scope guards promise. \<open>good\<close> is the state in which the managers are consistent, \<open>cap\<close>
  what they can still hand out, \<open>frame\<close> what the code inside the scope may change.\<close>

definition framed :: "('s \<Rightarrow> 's \<Rightarrow> bool) \<Rightarrow> ('s, 'a) stm \<Rightarrow> bool" where
  "framed fr m \<longleftrightarrow> (\<forall>s a s'. m s = Inr (a, s') \<longrightarrow> fr s s')"

definition steady :: "('s \<Rightarrow> bool) \<Rightarrow> ('s \<Rightarrow> 'x) \<Rightarrow> ('s, 'a) stm \<Rightarrow> bool" where
  "steady good cap m \<longleftrightarrow> (\<forall>s a s'. m s = Inr (a, s') \<longrightarrow> good s \<longrightarrow> good s' \<and> cap s' = cap s)"

named_theorems frame_intros "computations that stay inside a frame"
named_theorems steady_intros "computations that give back what they take"

lemma framedI: "(\<And>s a s'. m s = Inr (a, s') \<Longrightarrow> fr s s') \<Longrightarrow> framed fr m"
  by (simp add: framed_def)

lemma framedD: "framed fr m \<Longrightarrow> m s = Inr (a, s') \<Longrightarrow> fr s s'"
  by (simp add: framed_def)

lemma framed_sret: "reflp fr \<Longrightarrow> framed fr (sret a)"
  by (simp add: framed_def reflp_def)

lemma framed_slift: "reflp fr \<Longrightarrow> framed fr (slift r)"
  by (cases r) (simp_all add: framed_def reflp_def)

lemma framed_sbind: "transp fr \<Longrightarrow> framed fr m \<Longrightarrow> (\<And>a. framed fr (f a)) \<Longrightarrow> framed fr (sbind m f)"
  unfolding framed_def transp_def sbind_eq_Inr_iff by blast

lemma steadyD:
  "steady good cap m \<Longrightarrow> m s = Inr (a, s') \<Longrightarrow> good s \<Longrightarrow> good s' \<and> cap s' = cap s"
  unfolding steady_def by blast

lemma steady_sret [steady_intros]: "steady good cap (sret a)"
  by (simp add: steady_def)

lemma steady_sget [steady_intros]: "steady good cap (sget f)"
  by (simp add: steady_def)

lemma steady_slift [steady_intros]: "steady good cap (slift r)"
  by (cases r) (simp_all add: steady_def)

lemma steady_sbind [steady_intros]:
  "steady good cap m \<Longrightarrow> (\<And>a. steady good cap (f a)) \<Longrightarrow> steady good cap (sbind m f)"
  unfolding steady_def sbind_eq_Inr_iff by metis

lemma steady_control [steady_intros]:
  "steady good cap m \<Longrightarrow> steady good cap n \<Longrightarrow> steady good cap (if b then m else n)"
  "steady good cap m \<Longrightarrow> (\<And>a. steady good cap (f a)) \<Longrightarrow>
     steady good cap (case x of None \<Rightarrow> m | Some a \<Rightarrow> f a)"
  "(\<And>a b. steady good cap (g a b)) \<Longrightarrow> steady good cap (case p of (a, b) \<Rightarrow> g a b)"
  by (auto split: option.split prod.split)

lemma framed_control [frame_intros]:
  "framed fr m \<Longrightarrow> framed fr n \<Longrightarrow> framed fr (if b then m else n)"
  "framed fr m \<Longrightarrow> (\<And>a. framed fr (f a)) \<Longrightarrow> framed fr (case x of None \<Rightarrow> m | Some a \<Rightarrow> f a)"
  "(\<And>a b. framed fr (g a b)) \<Longrightarrow> framed fr (case p of (a, b) \<Rightarrow> g a b)"
  by (auto split: option.split prod.split)

locale scope_guard =
  fixes take_c :: "('s, 'c) stm"
    and give :: "'c \<Rightarrow> ('s, unit) stm"
    and good :: "'s \<Rightarrow> bool"
    and cap :: "'s \<Rightarrow> 'x"
    and frame :: "'s \<Rightarrow> 's \<Rightarrow> bool"
  assumes bracket: "take_c s = Inr (c, s1) \<Longrightarrow> good s \<Longrightarrow> frame s1 s2 \<Longrightarrow> give c s2 = Inr (u, s3) \<Longrightarrow>
      good s3 \<and> cap s3 = cap s"
begin

text \<open>A scope whose code stays inside the frame gives everything back.\<close>

lemma scope_restores:
  assumes "\<And>c. framed frame (body c)"
  shows "steady good cap (sbind take_c (\<lambda>c. sbind (body c) (\<lambda>r. sbind (give c) (\<lambda>_. sret r))))"
  unfolding steady_def
proof (intro allI impI)
  fix s a s'
  assume "sbind take_c (\<lambda>c. sbind (body c) (\<lambda>r. sbind (give c) (\<lambda>_. sret r))) s = Inr (a, s')" "good s"
  moreover from this(1) obtain c s1 r s2 u where
      "take_c s = Inr (c, s1)" "body c s1 = Inr (r, s2)" "give c s2 = Inr (u, s')"
    by (auto simp: sbind_eq_Inr_iff)
  ultimately show "good s' \<and> cap s' = cap s"
    using assms bracket unfolding framed_def by blast
qed

lemma framed_steady:
  assumes "framed frame m" "\<And>s s'. frame s s' \<Longrightarrow> good s \<Longrightarrow> good s' \<and> cap s' = cap s"
  shows "steady good cap m"
  using assms unfolding framed_def steady_def by blast

end

text \<open>The database manager.\<close>

definition db_good :: "'w world \<Rightarrow> bool" where
  "db_good s \<longleftrightarrow> (\<exists>pools. w_db s = Some pools \<and> pools_ok pools)"

definition db_capacity :: "'w world \<Rightarrow> string \<Rightarrow> int option" where
  "db_capacity s n =
     (case w_db s of None \<Rightarrow> None | Some pools \<Rightarrow> map_option capacity (om_find pools n))"

definition db_frame :: "'w world \<Rightarrow> 'w world \<Rightarrow> bool" where
  "db_frame s s' \<longleftrightarrow> w_db s' = w_db s"

lemma db_take_good:
  assumes "w_db s = Some pools"
  shows "db_take L n s = db_getConn L n s"
  using assms by (cases s) (simp add: db_take_def sbind_def db_getInstance_def dbm_getInstance_def)

interpretation db_guard: scope_guard "db_take L n" db_auto_rel db_good db_capacity db_frame
  for L n
proof (unfold_locales, goal_cases)
  case (1 s c s1 s2 u s3)
  obtain pools where pools: "w_db s = Some pools" "pools_ok pools"
    using 1(2) by (auto simp: db_good_def)
  have "db_getConn L n s = Inr (c, s1)" using 1(1) by (simp add: db_take_good [OF pools(1)])
  then obtain pools' e where get: "getConn (lib_mysql L) n pools (w_env s) = Inr (c, pools', e)"
    "w_db s1 = Some pools'"
    by (auto simp: db_getConn_def pools(1) elim!: rbind_InrE)
  have s3: "w_db s3 = AutoRelConn_destroy (Some pools') c"
    using 1(3,4) get(2) by (simp add: db_frame_def db_auto_rel_def) auto
  show ?case
  proof (cases c)
    case None
    have "om_ok pools" using pools(2) by (simp add: pools_ok_def)
    from getConn_None [OF get(1) [unfolded None] this] have "pools' = pools" .
    then have w: "w_db s3 = w_db s" using s3 pools(1) None by (simp add: AutoRelConn_destroy_def)
    have "db_capacity s3 = db_capacity s" by (rule ext) (simp add: db_capacity_def w)
    then show ?thesis using 1(2) w unfolding db_good_def by simp
  next
    case (Some conn)
    obtain p p' where p: "om_find pools n = Some p" "om_find pools' n = Some p'"
      "capacity p' = capacity p - 1" "conn \<notin> set (dp_free_list p')" "conn_pool_name conn = n"
      "pools_ok pools'" "\<forall>m. m \<noteq> n \<longrightarrow> om_find pools' m = om_find pools m"
      using getConn_Some [OF get(1) [unfolded Some] pools(2)] by blast
    obtain p'' where p'': "om_find (releaseConn (Some conn) pools') n = Some p''"
      "capacity p'' = capacity p' + 1" "pools_ok (releaseConn (Some conn) pools')"
      "\<forall>m. m \<noteq> n \<longrightarrow> om_find (releaseConn (Some conn) pools') m = om_find pools' m"
      using releaseConn_Some [OF p(6,2,5,4)] by blast
    have "w_db s3 = Some (releaseConn (Some conn) pools')"
      by (simp add: s3 Some AutoRelConn_destroy_def)
    moreover have each: "map_option capacity (om_find (releaseConn (Some conn) pools') m) =
        map_option capacity (om_find pools m)" for m
      using p p'' by (cases "m = n") simp_all
    moreover have "db_capacity s3 = db_capacity s"
      by (rule ext) (simp add: db_capacity_def calculation(1) pools(1) each)
    ultimately show ?thesis using p''(3) by (simp add: db_good_def)
  qed
qed

text \<open>The cache manager.\<close>

definition cache_good :: "'w world \<Rightarrow> bool" where
  "cache_good s \<longleftrightarrow> (\<exists>pools. w_cache s = Some pools \<and> cache_ok pools (w_objs s))"

definition cache_capacity :: "'w world \<Rightarrow> string \<Rightarrow> int option" where
  "cache_capacity s n =
     (case w_cache s of None \<Rightarrow> None | Some pools \<Rightarrow> map_option cp_capacity (om_find pools n))"

definition cache_frame :: "'w world \<Rightarrow> 'w world \<Rightarrow> bool" where
  "cache_frame s s' \<longleftrightarrow> w_cache s' = w_cache s \<and>
     (\<forall>d. cc_pool_name (w_objs s' d) = cc_pool_name (w_objs s d))"

lemma cache_take_good:
  assumes "w_cache s = Some pools"
  shows "cache_take L n s = cache_getConn L n s"
  using assms by (cases s) (simp add: cache_take_def sbind_def cache_getInstance_def cm_getInstance_def)

lemma cache_ok_names:
  "cache_ok pools objs \<Longrightarrow> (\<And>d. cc_pool_name (objs' d) = cc_pool_name (objs d)) \<Longrightarrow> cache_ok pools objs'"
  by (simp add: cache_ok_def)

interpretation cache_guard: scope_guard "cache_take L n" cache_auto_rel cache_good cache_capacity cache_frame
  for L n
proof (unfold_locales, goal_cases)
  case (1 s c s1 s2 u s3)
  obtain pools where pools: "w_cache s = Some pools" "cache_ok pools (w_objs s)"
    using 1(2) by (auto simp: cache_good_def)
  then have ok: "om_ok pools" by (simp add: cache_ok_def)
  have "cache_getConn L n s = Inr (c, s1)" using 1(1) by (simp add: cache_take_good [OF pools(1)])
  then obtain pools' e where get:
    "cm_GetCacheConn (lib_redis L) n pools (w_objs s, w_env s) = Inr (c, pools', w_objs s1, e)"
    "w_cache s1 = Some pools'"
    by (auto simp: cache_getConn_def pools(1) elim!: rbind_InrE)
  have names: "\<And>d. cc_pool_name (w_objs s2 d) = cc_pool_name (w_objs s1 d)"
    using 1(3) by (simp add: cache_frame_def)
  have s3: "w_cache s3 = AutoRelCacheCon_destroy (Some pools') c (w_objs s2)" "w_objs s3 = w_objs s2"
    using 1(3,4) get(2) by (auto simp: cache_frame_def cache_auto_rel_def)
  show ?case
  proof (cases c)
    case None
    then have eq: "pools' = pools" "w_objs s1 = w_objs s"
      using cm_GetCacheConn_None [OF _ ok] get(1) by fastforce+
    have "cache_ok pools (w_objs s2)"
      by (rule cache_ok_names [OF pools(2)]) (simp add: names eq)
    moreover have w: "w_cache s3 = Some pools"
      using None s3(1) eq(1) by (simp add: AutoRelCacheCon_destroy_def cm_RelCacheConn_def)
    moreover have "cache_capacity s3 = cache_capacity s"
      by (rule ext) (simp add: cache_capacity_def w pools(1))
    ultimately show ?thesis using s3(2) by (simp add: cache_good_def)
  next
    case (Some ptr)
    obtain p p' where p: "om_find pools n = Some p" "om_find pools' n = Some p'" "pools' = om_assign n p' pools"
      "cp_capacity p' = cp_capacity p - 1" "ptr \<notin> set (cp_free_list p')"
      "c_str (cc_pool_name (w_objs s1 ptr)) = n" "ptr_pool ptr = cp_id p'" "cache_ok pools' (w_objs s1)"
      using cm_GetCacheConn_Some get(1) pools(2) Some by metis
    have ok2: "cache_ok pools' (w_objs s2)" "c_str (cc_pool_name (w_objs s2 ptr)) = n"
      using p(6) cache_ok_names [OF p(8) names] by (simp_all add: names)
    note r = cm_RelCacheConn_Some [OF ok2(1) p(2) ok2(2) p(7,5)]
    have cache3: "w_cache s3 = Some (cm_RelCacheConn (Some ptr) (w_objs s2) pools')"
      by (simp add: s3(1) Some AutoRelCacheCon_destroy_def)
    have each: "map_option cp_capacity (om_find (cm_RelCacheConn (Some ptr) (w_objs s2) pools') m) =
        map_option cp_capacity (om_find pools m)" for m
    proof (cases "m = n")
      case True
      then show ?thesis using r(1) p(1,4) by (simp add: cp_capacity_def)
    next
      case False
      then show ?thesis using r(3) by (simp add: p(3) omap.lookup_assign_other [OF ok])
    qed
    have "cache_capacity s3 = cache_capacity s"
      by (rule ext) (simp add: cache_capacity_def cache3 pools(1) each)
    then show ?thesis using r(2) cache3 s3(2) by (simp add: cache_good_def)
  qed
qed

section \<open>What the steps of a handler leave alone\<close>

lemma db_frame_reflp [simp]: "reflp db_frame" "transp db_frame"
  by (auto simp: db_frame_def intro: reflpI transpI)

lemma cache_frame_reflp [simp]: "reflp cache_frame" "transp cache_frame"
  by (auto simp: cache_frame_def intro: reflpI transpI)

lemma frame_basic [frame_intros]:
  "framed db_frame (sret a)" "framed db_frame (slift r)"
  "framed cache_frame (sret a)" "framed cache_frame (slift r)"
  by (simp_all add: framed_sret framed_slift)

lemma frame_sget [frame_intros]: "framed db_frame (sget f)" "framed cache_frame (sget f)"
  by (simp_all add: framed_def db_frame_def cache_frame_def)

lemma frame_sbind [frame_intros]:
  "framed db_frame m \<Longrightarrow> (\<And>a. framed db_frame (f a)) \<Longrightarrow> framed db_frame (sbind m f)"
  "framed cache_frame m \<Longrightarrow> (\<And>a. framed cache_frame (f a)) \<Longrightarrow> framed cache_frame (sbind m f)"
  by (simp_all add: framed_sbind)

lemma frame_env_do [frame_intros]: "framed db_frame (env_do f)" "framed cache_frame (env_do f)"
  by (auto simp: framed_def env_do_def db_frame_def cache_frame_def split: prod.splits)

lemma frame_env_res [frame_intros]: "framed db_frame (env_res f)" "framed cache_frame (env_res f)"
  by (auto simp: framed_def env_res_def db_frame_def cache_frame_def elim!: rbind_InrE)

lemma frame_db_query [frame_intros]:
  "framed db_frame (db_query L conn sql)" "framed cache_frame (db_query L conn sql)"
  by (cases conn; simp add: db_query_def frame_intros)+

lemma frame_db_update [frame_intros]:
  "framed db_frame (db_update L conn sql b)" "framed cache_frame (db_update L conn sql b)"
  by (cases conn; simp add: db_update_def frame_intros)+

lemma frame_db_scope [frame_intros]:
  "framed cache_frame (db_take L n)" "framed cache_frame (db_auto_rel conn)"
  by (auto simp: framed_def cache_frame_def db_take_def db_getInstance_def db_getConn_def db_auto_rel_def
      sbind_eq_Inr_iff elim!: rbind_InrE split: option.split_asm)

lemma frame_cache_scope [frame_intros]:
  "framed db_frame (cache_take L n)" "framed db_frame (cache_auto_rel ptr)" "framed db_frame (cache_call c op)"
  by (auto simp: framed_def db_frame_def cache_take_def cache_getInstance_def cache_getConn_def
      cache_auto_rel_def cache_call_def sbind_eq_Inr_iff elim!: rbind_InrE split: option.split_asm)

lemma frame_cache_call [frame_intros]:
  assumes "\<And>c w a c' w'. op c w = Inr (a, c', w') \<Longrightarrow> cc_pool_name c' = cc_pool_name c"
  shows "framed cache_frame (cache_call ptr op)"
  using assms by (auto simp: framed_def cache_frame_def cache_call_def on_conn_def elim!: rbind_InrE)

lemma frame_with_db [frame_intros]:
  "(\<And>c. framed cache_frame (body c)) \<Longrightarrow> framed cache_frame (with_db_conn L n body)"
  by (simp add: with_db_conn_def frame_intros)

lemma frame_with_cache [frame_intros]:
  "(\<And>c. framed db_frame (body c)) \<Longrightarrow> framed db_frame (with_cache_conn L n body)"
  by (simp add: with_cache_conn_def frame_intros)

abbreviation db_steady :: "('w world, 'a) stm \<Rightarrow> bool" where
  "db_steady \<equiv> steady db_good db_capacity"

abbreviation cache_steady :: "('w world, 'a) stm \<Rightarrow> bool" where
  "cache_steady \<equiv> steady cache_good cache_capacity"

lemma steady_with_db [steady_intros]:
  "(\<And>c. framed db_frame (body c)) \<Longrightarrow> db_steady (with_db_conn L n body)"
  unfolding with_db_conn_def by (rule db_guard.scope_restores)

lemma steady_with_cache [steady_intros]:
  "(\<And>c. framed cache_frame (body c)) \<Longrightarrow> cache_steady (with_cache_conn L n body)"
  unfolding with_cache_conn_def by (rule cache_guard.scope_restores)

lemma db_steady_framed: "framed db_frame m \<Longrightarrow> db_steady m"
  by (erule db_guard.framed_steady) (auto simp: db_frame_def db_good_def db_capacity_def fun_eq_iff)

lemma cache_steady_framed: "framed cache_frame m \<Longrightarrow> cache_steady m"
  by (erule cache_guard.framed_steady)
    (auto simp: cache_frame_def cache_good_def cache_capacity_def fun_eq_iff intro: cache_ok_names)

text \<open>What taking a connection does to the capacity of its pool, and what an exhausted pool does to
  every request.\<close>

lemma db_take_Some:
  assumes "db_take L n s = Inr (Some c, s')" "db_good s"
  shows "db_good s' \<and> (\<exists>k. db_capacity s n = Some k \<and> db_capacity s' n = Some (k - 1)) \<and>
    (\<forall>m. m \<noteq> n \<longrightarrow> db_capacity s' m = db_capacity s m)"
proof -
  obtain pools where pools: "w_db s = Some pools" "pools_ok pools"
    using assms(2) by (auto simp: db_good_def)
  have "db_getConn L n s = Inr (Some c, s')" using assms(1) by (simp add: db_take_good [OF pools(1)])
  then obtain pools' e where get: "getConn (lib_mysql L) n pools (w_env s) = Inr (Some c, pools', e)"
    "w_db s' = Some pools'"
    by (auto simp: db_getConn_def pools(1) elim!: rbind_InrE)
  obtain p p' where "om_find pools n = Some p" "om_find pools' n = Some p'" "capacity p' = capacity p - 1"
    "pools_ok pools'" "\<forall>m. m \<noteq> n \<longrightarrow> om_find pools' m = om_find pools m"
    using getConn_Some [OF get(1) pools(2)] by blast
  then show ?thesis using get(2) pools(1) by (simp add: db_good_def db_capacity_def)
qed

text \<open>What is left when a connection to the read-only database may be kept: the manager is consistent, that
  pool can hand out at most what it could before, and every other pool exactly that.\<close>

definition db_loses :: "'w world \<Rightarrow> 'w world \<Rightarrow> bool" where
  "db_loses s s' \<longleftrightarrow> (db_good s \<longrightarrow> db_good s' \<and>
     (\<forall>n. n \<noteq> ''image_host_slave'' \<longrightarrow> db_capacity s' n = db_capacity s n) \<and>
     (\<forall>k. db_capacity s ''image_host_slave'' = Some k \<longrightarrow>
        (\<exists>k' \<le> k. db_capacity s' ''image_host_slave'' = Some k')))"

lemma db_loses_order [simp]: "reflp (db_loses :: 'w world \<Rightarrow> _)" "transp (db_loses :: 'w world \<Rightarrow> _)"
proof -
  show "reflp (db_loses :: 'w world \<Rightarrow> _)" by (simp add: db_loses_def reflp_def)
  show "transp (db_loses :: 'w world \<Rightarrow> _)"
  proof (rule transpI)
    fix r s t :: "'w world" assume 1: "db_loses r s" "db_loses s t"
    have "\<exists>k'' \<le> k. db_capacity t ''image_host_slave'' = Some k''"
      if r: "db_good r" "db_capacity r ''image_host_slave'' = Some k" for k
    proof -
      obtain k' where k': "k' \<le> k" "db_capacity s ''image_host_slave'' = Some k'" "db_good s"
        using 1(1) r by (auto simp only: db_loses_def simp_thms)
      obtain k'' where "k'' \<le> k'" "db_capacity t ''image_host_slave'' = Some k''"
        using 1(2) k'(2,3) by (auto simp only: db_loses_def simp_thms)
      then show ?thesis using k'(1) by (intro exI [of _ k'']) simp
    qed
    then show "db_loses r t" using 1 by (simp add: db_loses_def)
  qed
qed

lemma db_losesD:
  assumes "db_loses s s'" "db_good s" "db_capacity s n = Some k"
  shows "\<exists>k'. db_capacity s' n = Some k' \<and> (if n = ''image_host_slave'' then k' \<le> k else k' = k)"
  using assms unfolding db_loses_def by (cases "n = ''image_host_slave''") auto

lemma db_loses_steady: "db_steady m \<Longrightarrow> framed db_loses m"
proof (rule framedI)
  fix s a s' assume "db_steady m" "m s = Inr (a, s')"
  from steadyD [OF this] show "db_loses s s'" by (simp add: db_loses_def)
qed

lemma db_loses_basic [frame_intros]:
  "framed db_loses (sret a)" "framed db_loses (slift r)"
  "framed db_loses m \<Longrightarrow> (\<And>a. framed db_loses (f a)) \<Longrightarrow> framed db_loses (sbind m f)"
  by (simp_all add: framed_sret framed_slift framed_sbind)

lemma db_loses_take:
  assumes "db_take L ''image_host_slave'' s = Inr (Some c, s')"
  shows "db_loses s s'"
  using db_take_Some [OF assms] by (auto simp: db_loses_def)

lemma db_take_exhausted:
  assumes "w_db s = Some pools" "om_find pools n = Some p" "capacity p = 0" "\<not> dp_abort_request p"
  shows "db_take L n s = Inl WaitsForever"
  using assms getConnection_exhausted [of p 0 "lib_mysql L" "w_env s"]
  by (simp add: db_take_good [OF assms(1)] db_getConn_def getConn_def)

lemma with_db_conn_exhausted: "db_take L n s = Inl e \<Longrightarrow> with_db_conn L n body s = Inl e"
  by (simp add: with_db_conn_def sbind_Inl)

section \<open>An example world\<close>

text \<open>Both database pools with one free connection, the redis pool with two, a server in memory.\<close>

definition lib_example :: "(jval, mem) libs" where
  "lib_example = \<lparr>lib_mysql = quiet_mysql, lib_redis = mem_redis,
     js_parse = (\<lambda>_. None), js_member = (\<lambda>v k. Inr (jget k v)), js_isNull = (\<lambda>v. v = JNull),
     js_asString = (\<lambda>v. case v of JStr s \<Rightarrow> Inr s | JNull \<Rightarrow> Inr [] | _ \<Rightarrow> Inl Thrown),
     js_asInt = (\<lambda>v. case v of JInt i \<Rightarrow> Inr i | JNull \<Rightarrow> Inr 0 | _ \<Rightarrow> Inl Thrown),
     js_fast = (\<lambda>v. if jget ''code'' v = JInt 0 then ''ok'' else ''error''), js_styled = (\<lambda>v. ''json''),
     sys_uuid = (\<lambda>w. (''uuid'', w)), sys_rand = (\<lambda>w. (0, w)), sys_time = (\<lambda>w. (0, w)),
     sys_format_time = (\<lambda>t. ''1970-01-01 00:00:00''), sys_rename = (\<lambda>a b w. (True, w)),
     sys_unlink = (\<lambda>f w. (True, w)), sys_pipe = (\<lambda>w. (True, w)), sys_fork = (\<lambda>f as w. (True, w)),
     sys_read = (\<lambda>n w. ([], w))\<rparr>"

definition db_pool_example :: "string \<Rightarrow> dbpool" where
  "db_pool_example n = (DBPool n ''h'' 1 ''u'' ''p'' ''d'' 2)\<lparr>dp_free_list := [Conn n 0], dp_live := 1\<rparr>"

definition world_example :: "mem world" where
  "world_example =
     \<lparr>w_db = Some [(''image_host_master'', db_pool_example ''image_host_master''),
                   (''image_host_slave'', db_pool_example ''image_host_slave'')],
      w_db_conf = ''c'', w_cache = Some [(''token'', cache_pool_example)], w_cache_conf = ''c'',
      w_objs = objs_example, w_fs = cache_fs_example, w_dfs_path_client = ''/etc/fdfs/client.conf'',
      w_web_server_ip = ''1.2.3.4'', w_env = (Map.empty, \<lambda>_. [])\<rparr>"

lemma om_ok_example: "om_ok [(''image_host_master'', p), (''image_host_slave'', q)]"
  by (simp add: om_ok_def less_char_def)

lemma world_example_good: "db_good world_example" "cache_good world_example"
proof -
  have "pools_ok [(''image_host_master'', db_pool_example ''image_host_master''),
                   (''image_host_slave'', db_pool_example ''image_host_slave'')]"
    using om_ok_example
    by (auto simp: pools_ok_def dp_named_def db_pool_example_def DBPool_def split: if_splits)
  then show "db_good world_example" by (simp add: db_good_def world_example_def)
  have "cache_ok [(''token'', cache_pool_example)] objs_example"
    by (auto simp: cache_ok_def om_ok_def cache_pool_example_def CachePool_def objs_example_def CacheConn_def c_str_def)
  then show "cache_good world_example" by (simp add: cache_good_def world_example_def)
qed

text \<open>Taking and returning the first connection of the example pools.\<close>

lemma cache_take_example:
  "w_cache s = Some [(''token'', cache_pool_example)] \<Longrightarrow>
   cache_take L ''token'' s =
     Inr (Some (CcPtr 0 0), s\<lparr>w_cache := Some [(''token'', cache_pool_example\<lparr>cp_free_list := [CcPtr 0 1]\<rparr>)]\<rparr>)"
  by (cases s) (simp add: cache_take_def sbind_def cache_getInstance_def cm_getInstance_def cache_getConn_def
      cm_GetCacheConn_def cp_GetCacheConn_def cp_enter_def cp_pop_def cache_pool_example_def CachePool_def)

lemma cache_auto_rel_example:
  "w_cache s = Some [(''token'', cache_pool_example\<lparr>cp_free_list := [CcPtr 0 1]\<rparr>)] \<Longrightarrow>
   w_objs s = objs_example \<Longrightarrow>
   cache_auto_rel (Some (CcPtr 0 0)) s =
     Inr ((), s\<lparr>w_cache := Some [(''token'', cache_pool_example\<lparr>cp_free_list := [CcPtr 0 1, CcPtr 0 0]\<rparr>)]\<rparr>)"
  by (simp add: cache_auto_rel_def AutoRelCacheCon_destroy_def cm_RelCacheConn_def cp_RelCacheConn_def
      objs_example_def CacheConn_def c_str_def)

lemma objs_example_context [simp]: "cc_context (objs_example c) = Some 0"
  by (simp add: objs_example_def)

end
