(* ===== verification/Common.thy ===== *)
theory Common
  imports World
begin

text \<open>
  The helpers of the request handlers (\<^verbatim>\<open>src/api/common.cc\<close>): trimming, file suffixes, URL parameters,
  the check of a login token, random names and the count of shared pictures. A character array is a
  string with its bytes past the terminator; out of its bounds is a fault.
\<close>

section \<open>Definitions\<close>

text \<open>The length is taken before the test for the null pointer. The copy moves the text to the front of
  its own array.\<close>

definition trim_span :: "string \<Rightarrow> nat \<times> nat" where
  "trim_span str =
     (let i = length (takeWhile isspace str);
          j = int (length str) - 1 - int (length (takeWhile isspace (rev (drop (Suc i) str))))
      in (i, nat (j - int i + 1)))"

definition TrimSpace :: "string option \<Rightarrow> (int \<times> string) res" where
  "TrimSpace inbuf =
     (case inbuf of
        None \<Rightarrow> Inl NullDeref
      | Some buf \<Rightarrow>
          rbind (buf_str buf) (\<lambda>str.
            let (i, count) = trim_span str
            in rbind (strncpy buf (drop i str) count) (\<lambda>buf.
               rbind (buf_set buf count NUL) (\<lambda>buf. Inr (0, buf)))))"

text \<open>The last dot is searched from the end; \<open>r\<close> characters follow it.\<close>

definition GetFileSuffix :: "string option \<Rightarrow> string \<Rightarrow> (int \<times> string) res" where
  "GetFileSuffix file_name sfx =
     (case file_name of
        None \<Rightarrow> Inr (-1, sfx)
      | Some p \<Rightarrow>
          (case find_char (CHR ''.'') (rev p) of
             None \<Rightarrow> rbind (strncpy sfx ''null'' 5) (\<lambda>sfx. Inr (0, sfx))
           | Some r \<Rightarrow>
               if r \<noteq> 0 then
                 rbind (strncpy sfx (drop (length p - r) p) r) (\<lambda>sfx.
                 rbind (buf_set sfx r NUL) (\<lambda>sfx. Inr (0, sfx)))
               else rbind (strncpy sfx ''null'' 5) (\<lambda>sfx. Inr (0, sfx))))"

text \<open>One character after the key is skipped without being looked at, so a key at the very end of the
  query leads past its terminator.\<close>

definition QueryParseKeyValue :: "string \<Rightarrow> string \<Rightarrow> string \<Rightarrow> (int \<times> string \<times> nat) res" where
  "QueryParseKeyValue query key value =
     (case strstr query key of
        None \<Rightarrow> Inr (-1, value, 0)
      | Some pos \<Rightarrow>
          (let temp = pos + length key + 1
           in if temp > length query then Inl OutOfBounds
              else (let v = takeWhile (\<lambda>c. c \<noteq> CHR ''#'' \<and> c \<noteq> CHR ''&'') (drop temp query);
                        value_len = length v
                    in rbind (strncpy value v value_len) (\<lambda>value.
                       rbind (buf_set value value_len NUL) (\<lambda>value. Inr (0, value, value_len))))))"

definition VerifyToken :: "('v, 'w) libs \<Rightarrow> string \<Rightarrow> string \<Rightarrow> ('w world, int) stm" where
  "VerifyToken L user_name token =
     with_cache_conn L ''token'' (\<lambda>cache_conn.
       case cache_conn of
         None \<Rightarrow> sret (-1)
       | Some c \<Rightarrow>
           sbind (cache_call c (cc_Get (lib_redis L) token)) (\<lambda>temp_user_name.
             sret (if temp_user_name = user_name then 0 else -1)))"

fun random_loop :: "('v, 'w) libs \<Rightarrow> nat \<Rightarrow> string \<Rightarrow> ('w world, string) stm" where
  "random_loop L 0 str = sret str"
| "random_loop L (Suc n) str =
     sbind (env_do (sys_rand L)) (\<lambda>r. random_loop L n (str @ [char_of (97 + r mod 26)]))"

definition RandomString :: "('v, 'w) libs \<Rightarrow> int \<Rightarrow> ('w world, string) stm" where
  "RandomString L len = random_loop L (nat len) []"

text \<open>The result code and the count.\<close>

definition getSharedPictureCountByUsername ::
  "('v, 'w) libs \<Rightarrow> conn option \<Rightarrow> string \<Rightarrow> ('w world, int \<times> int) stm" where
  "getSharedPictureCountByUsername L connection user_name =
     sbind (db_query L connection
       (FormatString ''selece count(*) from share_picture_list where user = '%s';'' [FStr user_name]))
       (\<lambda>result.
          case first_row result of
            Some r \<Rightarrow> slift (rbind (getInt r ''count(*)'') (\<lambda>count. Inr (0, count)))
          | None \<Rightarrow> sret (if result = None then -1 else 0, 0))"

text \<open>What the listings do with a result set: one JSON object per row, made column by column, collected
  in an array and counted. A row is described by the member to set, the column to read, and whether the
  column is read as a number.\<close>

fun row_json :: "(string \<times> string \<times> bool) list \<Rightarrow> result_set \<Rightarrow> jval \<Rightarrow> jval res" where
  "row_json [] r file = Inr file"
| "row_json ((mem, column, number) # cols) r file =
     (if number then rbind (getInt r column) (\<lambda>i. row_json cols r (jset mem (JInt i) file))
      else rbind (getString r column) (\<lambda>p. rbind (jstr_ptr p) (\<lambda>v.
             row_json cols r (jset mem v file))))"

function json_rows ::
  "(string \<times> string \<times> bool) list \<Rightarrow> result_set \<Rightarrow> jval \<Rightarrow> int \<Rightarrow> (jval \<times> int) res" where
  "json_rows cols r files file_index =
     (case rs_next r of
        (False, r') \<Rightarrow> Inr (files, file_index)
      | (True, r') \<Rightarrow>
          rbind (row_json cols r' JNull) (\<lambda>file. json_rows cols r' (jpush file files) (file_index + 1)))"
  by pat_completeness auto
termination
  by (relation "measure (\<lambda>(cols, r, files, i). length (rs_rest r))")
    (auto simp: rs_next_def split: list.splits)

declare json_rows.simps [simp del]

section \<open>Lemmas\<close>

text \<open>White space taken off both ends.\<close>

definition trim_ws :: "string \<Rightarrow> string" where
  "trim_ws s = rev (dropWhile isspace (rev (dropWhile isspace s)))"

lemma dropWhile_snoc: "\<not> P c \<Longrightarrow> dropWhile P (xs @ [c]) = dropWhile P xs @ [c]"
  by (induction xs) auto

lemma buf_str_Inr_iff: "buf_str b = Inr s \<longleftrightarrow> NUL \<in> set b \<and> s = c_str b"
  by (auto simp: buf_str_def)

lemma length_c_str_less: "NUL \<in> set b \<Longrightarrow> length (c_str b) < length b"
  by (induction b) (auto simp: c_str_def)

lemma trim_ws_split:
  assumes "i = length (takeWhile isspace s)"
  shows "trim_ws s = take (length s - length (takeWhile isspace (rev (drop (Suc i) s))) - i) (drop i s)"
proof (cases "drop i s")
  case Nil
  then have eq: "dropWhile isspace s = []" unfolding assms dropWhile_eq_drop .
  show ?thesis unfolding trim_ws_def eq Nil by simp
next
  case (Cons c cs)
  have rest: "dropWhile isspace s = c # cs"
    using Cons by (simp add: assms dropWhile_eq_drop)
  then have c: "\<not> isspace c" by (metis hd_dropWhile list.sel(1) list.distinct(1))
  have cs: "drop (Suc i) s = cs" using Cons by (metis drop_Suc drop_tl list.sel(3))
  have len: "length s = i + Suc (length cs)"
    using arg_cong [OF Cons, of length] by simp
  have le: "length (takeWhile isspace (rev cs)) \<le> length cs"
    by (metis length_rev length_takeWhile_le)
  have "rev (dropWhile isspace (rev cs @ [c])) = c # take (length cs - length (takeWhile isspace (rev cs))) cs"
    unfolding dropWhile_snoc [of isspace, OF c] unfolding dropWhile_eq_drop by (simp add: rev_drop)
  then show ?thesis
    using le by (simp add: trim_ws_def rest Cons cs len Suc_diff_le)
qed

lemma trim_span_take:
  assumes "trim_span s = (i, n)"
  shows "take n (drop i s) = trim_ws s" "length (trim_ws s) = n" "n \<le> length s"
proof -
  have i: "i = length (takeWhile isspace s)"
    and n: "n = length s - length (takeWhile isspace (rev (drop (Suc i) s))) - i"
    using assms by (auto simp: trim_span_def Let_def)
  show t: "take n (drop i s) = trim_ws s" unfolding n by (rule trim_ws_split [OF i, symmetric])
  show "length (trim_ws s) = n" unfolding t [symmetric] by (simp add: n)
  show "n \<le> length s" by (simp add: n)
qed

lemma strncpy_fits: "length s \<le> length b \<Longrightarrow> strncpy b s (length s) = Inr (s @ drop (length s) b)"
  by (simp add: strncpy_def strncpy_bytes_def)

lemma buf_set_after:
  "length s < length b \<Longrightarrow> buf_set (s @ drop (length s) b) (length s) NUL = Inr (s @ NUL # drop (Suc (length s)) b)"
  by (simp add: buf_set_def Cons_nth_drop_Suc [symmetric])

text \<open>A text that fits, copied and terminated.\<close>

lemma copy_terminate:
  assumes "length s < length b" "NUL \<notin> set s"
  shows "\<exists>b'. rbind (strncpy b s (length s)) (\<lambda>b. buf_set b (length s) NUL) = Inr b' \<and>
    length b' = length b \<and> buf_str b' = Inr s"
  using assms by (auto simp: strncpy_fits buf_set_after buf_str_def)

text \<open>Trimming a terminated character array succeeds, keeps its size, and leaves in it the text
  without the white space at both ends.\<close>

theorem TrimSpace_trims:
  assumes "NUL \<in> set b"
  shows "\<exists>b'. TrimSpace (Some b) = Inr (0, b') \<and> length b' = length b \<and> buf_str b' = Inr (trim_ws (c_str b))"
proof -
  obtain i n where span: "trim_span (c_str b) = (i, n)" by fastforce
  note trim = trim_span_take [OF span]
  have "NUL \<notin> set (trim_ws (c_str b))"
    unfolding trim(1) [symmetric] using NUL_notin_c_str [of b] by (meson in_set_dropD in_set_takeD)
  moreover have "length (trim_ws (c_str b)) < length b"
    using length_c_str_less [OF assms] trim(2,3) by simp
  ultimately obtain b' where b': "rbind (strncpy b (trim_ws (c_str b)) n) (\<lambda>b. buf_set b n NUL) = Inr b'"
    "length b' = length b" "buf_str b' = Inr (trim_ws (c_str b))"
    using copy_terminate [of "trim_ws (c_str b)" b] trim(2) by auto
  have "strncpy b (drop i (c_str b)) n = strncpy b (trim_ws (c_str b)) n"
    unfolding trim(1) [symmetric] strncpy_def strncpy_bytes_def
    using trim(2) by (simp flip: trim(1))
  then have "TrimSpace (Some b) = rbind (rbind (strncpy b (trim_ws (c_str b)) n) (\<lambda>b. buf_set b n NUL)) (\<lambda>b. Inr (0, b))"
    using assms by (simp add: TrimSpace_def buf_str_def span rbind_assoc)
  then show ?thesis using b' by simp
qed

theorem TrimSpace_trims_witness:
  "\<exists>b'. TrimSpace (Some (''  a b '' @ [NUL, CHR ''x''])) = Inr (0, b') \<and> buf_str b' = Inr ''a b''"
proof -
  have "NUL \<in> set (''  a b '' @ [NUL, CHR ''x''])" by simp
  moreover have "trim_ws (c_str (''  a b '' @ [NUL, CHR ''x''])) = ''a b''" by code_simp
  ultimately show ?thesis using TrimSpace_trims [of "''  a b '' @ [NUL, CHR ''x'']"] by metis
qed

lemma find_char_rev_last: "c \<notin> set t \<Longrightarrow> find_char c (rev (b @ c # t)) = Some (length t)"
  using find_char_append_stop [of c "rev t" "rev b"] by simp

text \<open>The suffix of a name is the text after its last dot: it is copied and terminated when it fits
  into the array, and written out of its bounds when it does not, so a suffix of eight characters or
  more overflows the arrays of the callers.\<close>

theorem GetFileSuffix_last_dot:
  assumes "CHR ''.'' \<notin> set ext" "NUL \<notin> set ext" "ext \<noteq> []"
  shows "if length ext < length sfx
    then \<exists>b. GetFileSuffix (Some (base @ CHR ''.'' # ext)) sfx = Inr (0, b) \<and> buf_str b = Inr ext \<and> length b = length sfx
    else GetFileSuffix (Some (base @ CHR ''.'' # ext)) sfx = Inl OutOfBounds"
proof -
  have run: "GetFileSuffix (Some (base @ CHR ''.'' # ext)) sfx =
      rbind (rbind (strncpy sfx ext (length ext)) (\<lambda>b. buf_set b (length ext) NUL)) (\<lambda>b. Inr (0, b))"
    using assms by (simp add: GetFileSuffix_def find_char_rev_last rbind_assoc del: rev_append)
  show ?thesis
  proof (cases "length ext < length sfx")
    case True
    then show ?thesis using copy_terminate [OF True assms(2)] run by auto
  next
    case False
    then show ?thesis
      unfolding run by (cases "length ext = length sfx") (simp_all add: strncpy_def strncpy_bytes_def buf_set_def)
  qed
qed

theorem GetFileSuffix_last_dot_witness:
  "\<exists>b. GetFileSuffix (Some ''mike.doc.png'') (replicate 8 NUL) = Inr (0, b) \<and> buf_str b = Inr ''png''"
  using GetFileSuffix_last_dot [of "''png''" "replicate 8 NUL" "''mike.doc''"] by auto

text \<open>C39. The value of a URL parameter is the text from one character behind the key to the next '&', '#'
  or the end: it is copied and terminated when it fits into the caller's array, and written out of its
  bounds when it does not.\<close>

theorem QueryParseKeyValue_value:
  assumes "strstr query key = Some (length pre)" "query = pre @ key @ c # v @ rest"
    and "\<forall>x \<in> set v. x \<noteq> CHR ''#'' \<and> x \<noteq> CHR ''&'' \<and> x \<noteq> NUL"
    and "rest = [] \<or> hd rest = CHR ''#'' \<or> hd rest = CHR ''&''"
  shows "if length v < length buf
    then \<exists>b. QueryParseKeyValue query key buf = Inr (0, b, length v) \<and> buf_str b = Inr v
    else QueryParseKeyValue query key buf = Inl OutOfBounds"
proof -
  have tw: "takeWhile (\<lambda>c. c \<noteq> CHR ''#'' \<and> c \<noteq> CHR ''&'') (v @ rest) = v"
    using assms(3,4) by (cases rest) (auto simp: takeWhile_append_stop)
  have nul: "NUL \<notin> set v" using assms(3) by auto
  have run: "QueryParseKeyValue query key buf =
      rbind (rbind (strncpy buf v (length v)) (\<lambda>b. buf_set b (length v) NUL)) (\<lambda>b. Inr (0, b, length v))"
    using assms(1) tw by (simp add: QueryParseKeyValue_def assms(2) Let_def rbind_assoc)
  show ?thesis
  proof (cases "length v < length buf")
    case True
    then show ?thesis using copy_terminate [OF True nul] run by auto
  next
    case False
    then show ?thesis
      unfolding run by (cases "length v = length buf") (simp_all add: strncpy_def strncpy_bytes_def buf_set_def)
  qed
qed

theorem QueryParseKeyValue_value_witness:
  "\<exists>b. QueryParseKeyValue ''/api/myfiles?cmd=count&x=1'' ''cmd'' (replicate 20 NUL) = Inr (0, b, length ''count'') \<and>
     buf_str b = Inr ''count''"
proof -
  have s: "strstr ''/api/myfiles?cmd=count&x=1'' ''cmd'' = Some (length ''/api/myfiles?'')" by code_simp
  show ?thesis
    using QueryParseKeyValue_value [OF s, of "CHR ''=''" "''count''" "''&x=1''" "replicate 20 NUL"] by simp
qed

section \<open>Tokens\<close>

lemma VerifyToken_accepts:
  assumes "VerifyToken L u t s = Inr (r, s')"
  shows "r = 0 \<or> r = -1"
    and "r = 0 \<Longrightarrow> \<exists>c s1 s2. cache_take L ''token'' s = Inr (Some c, s1) \<and>
      cache_call c (cc_Get (lib_redis L) t) s1 = Inr (u, s2) \<and> w_env s' = w_env s2"
proof -
  obtain conn s1 s2 where run: "cache_take L ''token'' s = Inr (conn, s1)"
      "(case conn of None \<Rightarrow> sret (-1)
        | Some c \<Rightarrow> sbind (cache_call c (cc_Get (lib_redis L) t)) (\<lambda>n. sret (if n = u then 0 else -1))) s1 =
       Inr (r, s2)"
      "cache_auto_rel conn s2 = Inr ((), s')"
    using assms by (auto simp: VerifyToken_def with_cache_conn_def sbind_eq_Inr_iff)
  have env: "w_env s' = w_env s2" using run(3) by (auto simp: cache_auto_rel_def)
  show "r = 0 \<or> r = -1"
    using run(2) by (auto simp: sbind_eq_Inr_iff split: option.splits if_split_asm)
  show "\<exists>c s1 s2. cache_take L ''token'' s = Inr (Some c, s1) \<and>
      cache_call c (cc_Get (lib_redis L) t) s1 = Inr (u, s2) \<and> w_env s' = w_env s2" if "r = 0"
    using run env that by (cases conn) (auto simp: sbind_eq_Inr_iff, metis zero_neq_neg_one)
qed

text \<open>C23. A token that passes the check is one the server holds for exactly that user, or the user name is
  empty: an unknown token, or a server that does not answer, reads as the empty name.\<close>

theorem VerifyToken_sound:
  assumes "redis_strings (lib_redis L) kv" "VerifyToken L u t s = Inr (0, s')"
  shows "u = [] \<or> kv (w_env s') (c_str t) = Some u"
proof -
  obtain c s1 s2 where run: "cache_call c (cc_Get (lib_redis L) t) s1 = Inr (u, s2)" "w_env s' = w_env s2"
    using VerifyToken_accepts(2) [OF assms(2)] by blast
  then obtain obj obj' where "cc_Get (lib_redis L) t obj (w_env s1) = Inr (u, obj', w_env s2)"
    by (auto simp: cache_call_def on_conn_def elim!: rbind_InrE)
  from cc_Get_result [OF assms(1) this] run(2) show ?thesis by simp
qed

lemma token_world_example:
  "VerifyToken lib_example ''u'' ''t'' (world_example\<lparr>w_env := ([''t'' \<mapsto> ''u''], \<lambda>_. [])\<rparr>) =
     Inr (0, world_example\<lparr>w_cache := Some [(''token'', cache_pool_example\<lparr>cp_free_list := [CcPtr 0 1, CcPtr 0 0]\<rparr>)],
               w_env := ([''t'' \<mapsto> ''u''], \<lambda>_. [])\<rparr>)"
proof -
  let ?s = "world_example\<lparr>w_env := ([''t'' \<mapsto> ''u''], \<lambda>_. [])\<rparr>"
  let ?s1 = "?s\<lparr>w_cache := Some [(''token'', cache_pool_example\<lparr>cp_free_list := [CcPtr 0 1]\<rparr>)]\<rparr>"
  have call: "cache_call (CcPtr 0 0) (cc_Get (lib_redis lib_example) ''t'') ?s1 = Inr (''u'', ?s1)"
    by (simp add: cache_call_def on_conn_def world_example_def cc_Get_def cc_call_connected redis_cmd_def S_def
        lib_example_def mem_redis_def c_str_def)
  show ?thesis
    by (simp add: VerifyToken_def with_cache_conn_def sbind_run cache_take_example cache_auto_rel_example
        world_example_def call [unfolded world_example_def, simplified])
qed

theorem VerifyToken_sound_witness:
  "([''t'' \<mapsto> ''u''] :: string \<Rightarrow> string option) (c_str ''t'') = Some ''u''"
  using VerifyToken_sound [of lib_example fst, OF _ token_world_example] mem_redis_strings
  by (simp add: lib_example_def)

lemma cc_Get_frame [frame_intros]: "framed cache_frame (cache_call c (cc_Get R k))"
  by (rule frame_cache_call) (auto simp: cc_Get_def dest: cc_call_pool_name)

lemma VerifyToken_frame [frame_intros]: "framed db_frame (VerifyToken L u t)"
  unfolding VerifyToken_def by (intro frame_intros)

lemma VerifyToken_steady [steady_intros]: "db_steady (VerifyToken L u t)" "cache_steady (VerifyToken L u t)"
proof -
  show "db_steady (VerifyToken L u t)" by (rule db_steady_framed [OF VerifyToken_frame])
  show "cache_steady (VerifyToken L u t)"
    unfolding VerifyToken_def by (intro steady_intros frame_intros)
qed

lemma random_loop_frame [frame_intros]:
  "framed db_frame (random_loop L n str)" "framed cache_frame (random_loop L n str)"
  by (induction n arbitrary: str) (simp_all add: frame_intros)

lemma RandomString_frame [frame_intros]:
  "framed db_frame (RandomString L n)" "framed cache_frame (RandomString L n)"
  unfolding RandomString_def by (intro frame_intros)+

lemma getSharedPictureCount_frame [frame_intros]:
  "framed db_frame (getSharedPictureCountByUsername L c u)"
  "framed cache_frame (getSharedPictureCountByUsername L c u)"
  unfolding getSharedPictureCountByUsername_def by (intro frame_intros)+

text \<open>A listing has one object per row of the result, in the order of the rows, and counts them, when
  every row can be turned into an object.\<close>

theorem json_rows_lists_every_row:
  assumes "list_all2 (\<lambda>row obj. \<forall>rest. row_json cols (r\<lparr>rs_row := Row row, rs_rest := rest\<rparr>) JNull = Inr obj)
      (rs_rest r) objs"
  shows "json_rows cols r JNull 0 =
    Inr (if objs = [] then JNull else JArr objs, int (length objs))"
proof -
  have gen: "json_rows cols r files i =
      Inr (if objs = [] then files else JArr (old @ objs), i + int (length objs))"
    if "files = (if old = [] then JNull else JArr old)"
      "list_all2 (\<lambda>row obj. \<forall>rest. row_json cols (r\<lparr>rs_row := Row row, rs_rest := rest\<rparr>) JNull = Inr obj)
        (rs_rest r) objs" for files i old r objs
    using that
  proof (induction "rs_rest r" arbitrary: r files i old objs)
    case Nil
    then show ?case by (simp add: json_rows.simps rs_next_def)
  next
    case (Cons row rest)
    let ?r = "r\<lparr>rs_row := Row row, rs_rest := rest\<rparr>"
    obtain obj objs2 where objs: "objs = obj # objs2"
      and obj: "\<forall>q. row_json cols (r\<lparr>rs_row := Row row, rs_rest := q\<rparr>) JNull = Inr obj"
      and rest: "list_all2 (\<lambda>row obj. \<forall>q. row_json cols (r\<lparr>rs_row := Row row, rs_rest := q\<rparr>) JNull = Inr obj) rest objs2"
      using Cons.prems(2) Cons.hyps(2) [symmetric] by (auto simp: list_all2_Cons1)
    have files: "jpush obj files = JArr (old @ [obj])" using Cons.prems(1) by (cases "old = []") simp_all
    have "json_rows cols r files i = json_rows cols ?r (JArr (old @ [obj])) (i + 1)"
      using Cons.hyps(2) [symmetric] obj
      by (subst json_rows.simps) (simp add: rs_next_def files)
    also have "\<dots> = Inr (if objs2 = [] then JArr (old @ [obj]) else JArr ((old @ [obj]) @ objs2), i + 1 + int (length objs2))"
      by (rule Cons.hyps(1)) (use rest in simp_all)
    finally show ?case by (simp add: objs)
  qed
  show ?thesis using gen [of JNull "[]" r objs 0] assms by simp
qed

theorem json_rows_lists_every_row_witness:
  "json_rows [(''pv'', ''pv'', True)] (ResultSet \<lparr>res_fields = [''pv''], res_rows = [[Some ''7''], [Some ''8'']]\<rparr>) JNull 0 =
     Inr (JArr [JObj [(''pv'', JInt 7)], JObj [(''pv'', JInt 8)]], 2)"
proof -
  have "atoi ''7'' = 7" "atoi ''8'' = 8" by code_simp+
  then show ?thesis
    using json_rows_lists_every_row [of "[(''pv'', ''pv'', True)]"
        "ResultSet \<lparr>res_fields = [''pv''], res_rows = [[Some ''7''], [Some ''8'']]\<rparr>"
        "[JObj [(''pv'', JInt 7)], JObj [(''pv'', JInt 8)]]"]
    by (simp add: ResultSet_def getInt_def getIndex_def row_cell_def om_empty_def c_str_def)
qed

end
