(* ===== verification/Login.thy ===== *)
theory Login
  imports Common
begin

text \<open>
  The login handler (\<^verbatim>\<open>src/api/login.cc\<close>): reading the request, checking the password against the
  database, storing a fresh token in redis, and the response.
\<close>

section \<open>Definitions\<close>

text \<open>The text a generated identifier is written as.\<close>

definition generateUUID :: "('v, 'w) libs \<Rightarrow> ('w world, string) stm" where
  "generateUUID L = sbind (env_do (sys_uuid L)) (\<lambda>u. sret (c_str u))"

text \<open>The result code and the two out parameters.\<close>

definition decodeLoginJson ::
  "('v, 'w) libs \<Rightarrow> string \<Rightarrow> string \<Rightarrow> string \<Rightarrow> (int \<times> string \<times> string) res" where
  "decodeLoginJson L str_json user_name pwd =
     (case js_parse L str_json of
        None \<Rightarrow> Inr (-1, user_name, pwd)
      | Some root \<Rightarrow>
          rbind (json_string L root ''user'') (\<lambda>u. case u of
            None \<Rightarrow> Inr (-1, user_name, pwd)
          | Some user_name \<Rightarrow>
              rbind (json_string L root ''pwd'') (\<lambda>p. case p of
                None \<Rightarrow> Inr (-1, user_name, pwd)
              | Some pwd \<Rightarrow> Inr (0, user_name, pwd))))"

definition encodeLoginJson :: "('v, 'w) libs \<Rightarrow> int \<Rightarrow> string \<Rightarrow> string" where
  "encodeLoginJson L ret_code token =
     (let root = jset ''code'' (JInt ret_code) JNull;
          root = (if ret_code = 0 then jset ''token'' (JStr token) root else root)
      in js_fast L root)"

definition password_query :: "string \<Rightarrow> string" where
  "password_query uname =
     FormatString ''select password from user_info where user_name = '%s';'' [FStr uname]"

definition verifyUserPassword :: "('v, 'w) libs \<Rightarrow> string \<Rightarrow> string \<Rightarrow> ('w world, bool) stm" where
  "verifyUserPassword L uname pwd =
     with_db_conn L ''image_host_slave'' (\<lambda>db_connection.
       sbind (db_query L db_connection (password_query uname)) (\<lambda>result.
         case first_row result of
           Some r \<Rightarrow>
             slift (rbind (get_std_string r ''password'') (\<lambda>password. Inr (password = pwd)))
         | None \<Rightarrow> sret False))"

text \<open>The reply of \<open>SetEx\<close> is not looked at.\<close>

definition setToken :: "('v, 'w) libs \<Rightarrow> string \<Rightarrow> ('w world, bool \<times> string) stm" where
  "setToken L uname =
     with_cache_conn L ''token'' (\<lambda>cache_connection.
       sbind (generateUUID L) (\<lambda>token.
         case cache_connection of
           Some c \<Rightarrow>
             sbind (cache_call c (cc_SetEx (lib_redis L) token 86400 uname)) (\<lambda>_. sret (True, token))
         | None \<Rightarrow> sret (False, token)))"

text \<open>The result code and the response. The two checks treat \<open>true\<close> as failure.\<close>

definition apiUserLogin :: "('v, 'w) libs \<Rightarrow> string \<Rightarrow> ('w world, int \<times> string) stm" where
  "apiUserLogin L post_data =
     (if post_data = [] then sret (-1, encodeLoginJson L 1 [])
      else sbind (slift (decodeLoginJson L post_data [] [])) (\<lambda>(r, uname, pwd).
        if r \<noteq> 0 then sret (-1, encodeLoginJson L 1 [])
        else sbind (verifyUserPassword L uname pwd) (\<lambda>verified.
          if verified then sret (-1, encodeLoginJson L 1 [])
          else sbind (setToken L uname) (\<lambda>(stored, token).
            if stored then sret (-1, encodeLoginJson L 0 token)
            else sret (0, encodeLoginJson L 0 token)))))"

section \<open>Lemmas\<close>

lemma cc_SetEx_frame [frame_intros]: "framed cache_frame (cache_call c (cc_SetEx R k t v))"
  by (rule frame_cache_call) (auto simp: cc_SetEx_def dest: cc_call_pool_name)

lemma generateUUID_frame [frame_intros]:
  "framed db_frame (generateUUID L)" "framed cache_frame (generateUUID L)"
  unfolding generateUUID_def by (intro frame_intros)+

lemma verifyUserPassword_frame [frame_intros]: "framed cache_frame (verifyUserPassword L u p)"
  unfolding verifyUserPassword_def by (intro frame_intros)

lemma setToken_frame [frame_intros]: "framed db_frame (setToken L u)"
  unfolding setToken_def by (intro frame_intros)

lemma verifyUserPassword_steady [steady_intros]:
  "db_steady (verifyUserPassword L u p)" "cache_steady (verifyUserPassword L u p)"
proof -
  show "db_steady (verifyUserPassword L u p)"
    unfolding verifyUserPassword_def by (intro steady_intros frame_intros)
  show "cache_steady (verifyUserPassword L u p)"
    by (rule cache_steady_framed [OF verifyUserPassword_frame])
qed

lemma setToken_steady [steady_intros]: "db_steady (setToken L u)" "cache_steady (setToken L u)"
proof -
  show "cache_steady (setToken L u)"
    unfolding setToken_def by (intro steady_intros frame_intros)
  show "db_steady (setToken L u)" by (rule db_steady_framed [OF setToken_frame])
qed

lemma apiUserLogin_steady [steady_intros]: "db_steady (apiUserLogin L data)" "cache_steady (apiUserLogin L data)"
  unfolding apiUserLogin_def by (intro steady_intros)+

text \<open>The first row of a query with one row.\<close>

lemma first_row_one:
  "first_row (Some (ResultSet \<lparr>res_fields = fs, res_rows = [row]\<rparr>)) =
     Some ((ResultSet \<lparr>res_fields = fs, res_rows = [row]\<rparr>)\<lparr>rs_row := Row row, rs_rest := []\<rparr>)"
  by (simp add: first_row_def rs_next_def ResultSet_def)

lemma one_column: "get_std_string ((ResultSet \<lparr>res_fields = [f], res_rows = rs\<rparr>)\<lparr>rs_row := Row [Some v], rs_rest := q\<rparr>) f =
    Inr (c_str v)"
  by (simp add: get_std_string_def getString_def getIndex_def ResultSet_def om_empty_def row_cell_def
      string_of_ptr_def Let_def)

lemma verifyUserPassword_row:
  assumes "db_take L ''image_host_slave'' s = Inr (Some c, s0)"
    and "executeQuery (lib_mysql L) c (password_query u) (w_env s0) =
      (Some (ResultSet \<lparr>res_fields = [''password''], res_rows = [[Some stored]]\<rparr>), n, e)"
  shows "\<exists>s'. verifyUserPassword L u p s = Inr (c_str stored = p, s') \<and>
    w_cache s' = w_cache s0 \<and> w_objs s' = w_objs s0 \<and> w_env s' = e"
  using assms(1)
  by (simp add: verifyUserPassword_def with_db_conn_def sbind_run db_query_def env_do_def assms(2)
      first_row_one one_column db_auto_rel_def)

section \<open>A working token store\<close>

text \<open>A pool with a free connection, and every connection object connected.\<close>

definition pool_ready :: "string \<Rightarrow> 'w world \<Rightarrow> bool" where
  "pool_ready n s \<longleftrightarrow> cache_good s \<and> (\<forall>d. cc_context (w_objs s d) \<noteq> None) \<and>
     (\<exists>pools p. w_cache s = Some pools \<and> om_find pools n = Some p \<and> cp_free_list p \<noteq> [] \<and>
        \<not> cp_abort_request p)"

text \<open>A server that is up answers: \<open>SETEX\<close> with OK when the time is positive, as it documents, and \<open>GET\<close> with
  some reply; and it stays up. \<open>up\<close> are the states of the world in which it can be reached.\<close>

definition redis_answers :: "'w redis_lib \<Rightarrow> ('w \<Rightarrow> bool) \<Rightarrow> bool" where
  "redis_answers R up \<longleftrightarrow>
     (\<forall>ctx k t v w. up w \<longrightarrow> 0 < t \<longrightarrow>
        (\<exists>w'. rd_command R ctx ''SETEX %s %d %s'' [ArgS k, ArgD t, ArgS v] w = (Some (RStatus ''OK''), w') \<and> up w')) \<and>
     (\<forall>ctx k w. up w \<longrightarrow> (\<exists>r w'. rd_command R ctx ''GET %s'' [ArgS k] w = (Some r, w') \<and> up w'))"

text \<open>Generating an identifier does not stop the server.\<close>

definition uuid_keeps :: "('v, 'w) libs \<Rightarrow> ('w \<Rightarrow> bool) \<Rightarrow> bool" where
  "uuid_keeps L up \<longleftrightarrow> (\<forall>w. up w \<longrightarrow> up (snd (sys_uuid L w)))"

lemma pool_ready_scope:
  assumes "pool_ready n s"
  obtains c s1 where "cache_take L n s = Inr (Some c, s1)" "w_env s1 = w_env s" "w_objs s1 = w_objs s"
    "\<And>s2. w_cache s2 = w_cache s1 \<Longrightarrow> w_objs s2 = w_objs s1 \<Longrightarrow>
       \<exists>s3. cache_auto_rel (Some c) s2 = Inr ((), s3) \<and> pool_ready n s3 \<and> w_env s3 = w_env s2"
proof -
  obtain pools p c rest where good: "w_cache s = Some pools" "cache_ok pools (w_objs s)"
    and p: "om_find pools n = Some p" "cp_free_list p = c # rest" "\<not> cp_abort_request p"
    using assms by (auto simp: pool_ready_def cache_good_def neq_Nil_conv)
  have ok: "om_ok pools" using good(2) by (simp add: cache_ok_def)
  let ?p = "p\<lparr>cp_free_list := rest\<rparr>"
  let ?pools = "om_assign n ?p pools"
  let ?s1 = "s\<lparr>w_cache := Some ?pools\<rparr>"
  have "cm_GetCacheConn (lib_redis L) n pools (w_objs s, w_env s) = Inr (Some c, ?pools, w_objs s, w_env s)"
    using p by (simp add: cm_GetCacheConn_def cp_GetCacheConn_def cp_enter_def cp_pop_def)
  then have get: "cache_take L n s = Inr (Some c, ?s1)"
    unfolding cache_take_good [OF good(1)] by (cases s) (use good(1) in \<open>simp add: cache_getConn_def\<close>)
  note named = cache_okD [OF good(2) p(1)]
  have c: "c_str (cc_pool_name (w_objs s c)) = n" "ptr_pool c = cp_id p" "c \<notin> set rest"
    using named(2,3,4) p(2) by auto
  have ok1: "cache_ok ?pools (w_objs s)"
    by (rule cache_ok_update [OF good(2) p(1)]) (use named(2-4) p(2) in auto)
  have find1: "om_find ?pools n = Some ?p" by (rule omap.lookup_assign_same [OF ok])
  note rel = cm_RelCacheConn_Some [OF ok1 find1 c(1), simplified, OF c(2,3)]
  have "\<exists>s3. cache_auto_rel (Some c) s2 = Inr ((), s3) \<and> pool_ready n s3 \<and> w_env s3 = w_env s2"
    if "w_cache s2 = w_cache ?s1" "w_objs s2 = w_objs ?s1" for s2
  proof -
    let ?pools3 = "cm_RelCacheConn (Some c) (w_objs s) ?pools"
    have "cache_auto_rel (Some c) s2 = Inr ((), s2\<lparr>w_cache := Some ?pools3\<rparr>)"
      using that by (simp add: cache_auto_rel_def AutoRelCacheCon_destroy_def)
    moreover have "pool_ready n (s2\<lparr>w_cache := Some ?pools3\<rparr>)"
      using that rel(1,2) p(3) assms by (simp add: pool_ready_def cache_good_def)
    ultimately show ?thesis by auto
  qed
  then show thesis by (intro that [OF get]) simp_all
qed

lemma cache_call_connected:
  assumes "cc_context (w_objs s c) = Some ctx" "request ctx (w_env s) = (Some reply, e)" "use reply = Inr a"
  shows "cache_call c (cc_call R fail request use) s = Inr (a, s\<lparr>w_env := e\<rparr>)"
  by (cases s) (use assms in \<open>simp add: cache_call_def on_conn_def cc_call_connected\<close>)

lemma db_take_cache:
  "db_take L n s = Inr (c, s0) \<Longrightarrow> w_cache s0 = w_cache s \<and> w_objs s0 = w_objs s"
  by (auto simp: db_take_def db_getInstance_def db_getConn_def sbind_eq_Inr_iff elim!: rbind_InrE
      split: option.split_asm)

lemma pool_ready_cong:
  "w_cache s' = w_cache s \<Longrightarrow> w_objs s' = w_objs s \<Longrightarrow> pool_ready n s' = pool_ready n s"
  by (simp add: pool_ready_def cache_good_def)

lemma setToken_ready:
  fixes L :: "('v, 'w) libs"
  assumes "pool_ready ''token'' s" "redis_strings (lib_redis L) kv" "redis_answers (lib_redis L) up"
    and "up (w_env s)" "uuid_keeps L up"
  shows "\<exists>t s1. setToken L u s = Inr ((True, t), s1) \<and> kv (w_env s1) (c_str t) = Some (c_str u) \<and>
    pool_ready ''token'' s1 \<and> up (w_env s1)"
proof -
  obtain c s1 where take: "cache_take L ''token'' s = Inr (Some c, s1)" "w_objs s1 = w_objs s" "w_env s1 = w_env s"
    and give: "\<And>s2 :: 'w world. w_cache s2 = w_cache s1 \<Longrightarrow> w_objs s2 = w_objs s1 \<Longrightarrow>
       \<exists>s3. cache_auto_rel (Some c) s2 = Inr ((), s3) \<and> pool_ready ''token'' s3 \<and> w_env s3 = w_env s2"
    by (rule pool_ready_scope [OF assms(1)]) blast
  obtain ctx where ctx: "cc_context (w_objs s1 c) = Some ctx"
    using assms(1) take(2) by (auto simp: pool_ready_def)
  obtain t e where uuid: "sys_uuid L (w_env s1) = (t, e)" by fastforce
  have "up e" using assms(4,5) take(3) uuid unfolding uuid_keeps_def by (metis snd_conv)
  let ?s2 = "s1\<lparr>w_env := e\<rparr>"
  obtain e2 where set: "redis_cmd (lib_redis L) ''SETEX %s %d %s'' [S (c_str t), ArgD 86400, S u] ctx e = (Some (RStatus ''OK''), e2)" "up e2"
    using assms(3) \<open>up e\<close> unfolding redis_answers_def redis_cmd_def S_def by (metis zero_less_numeral)
  have call: "cache_call c (cc_SetEx (lib_redis L) (c_str t) 86400 u) ?s2 = Inr (''OK'', ?s2\<lparr>w_env := e2\<rparr>)"
    unfolding cc_SetEx_def
    by (rule cache_call_connected [where ctx = ctx and reply = "RStatus ''OK''" and e = e2]) (use ctx set(1) in \<open>simp_all add: reply_bytes_def\<close>)
  obtain s3 where s3: "cache_auto_rel (Some c) (?s2\<lparr>w_env := e2\<rparr>) = Inr ((), s3)" "pool_ready ''token'' s3"
      "w_env s3 = e2"
    using give [of "?s2\<lparr>w_env := e2\<rparr>"] by auto
  have "setToken L u s = Inr ((True, c_str t), s3)"
    using take(1) uuid call s3(1)
    by (simp add: setToken_def with_cache_conn_def generateUUID_def sbind_run env_do_def)
  moreover have "kv e2 (c_str (c_str t)) = Some (c_str u)"
    using redis_strings_setex [OF assms(2) set(1)] by (simp add: reply_bytes_def)
  ultimately show ?thesis using s3 set(2) by auto
qed

lemma VerifyToken_ready:
  fixes L :: "('v, 'w) libs"
  assumes "pool_ready ''token'' s" "redis_strings (lib_redis L) kv" "redis_answers (lib_redis L) up"
    and "up (w_env s)"
    and "kv (w_env s) (c_str t) = Some u"
  shows "\<exists>s1. VerifyToken L u t s = Inr (0, s1) \<and> pool_ready ''token'' s1"
proof -
  obtain c s1 where take: "cache_take L ''token'' s = Inr (Some c, s1)" "w_objs s1 = w_objs s" "w_env s1 = w_env s"
    and give: "\<And>s2 :: 'w world. w_cache s2 = w_cache s1 \<Longrightarrow> w_objs s2 = w_objs s1 \<Longrightarrow>
       \<exists>s3. cache_auto_rel (Some c) s2 = Inr ((), s3) \<and> pool_ready ''token'' s3 \<and> w_env s3 = w_env s2"
    by (rule pool_ready_scope [OF assms(1)]) blast
  obtain ctx where ctx: "cc_context (w_objs s1 c) = Some ctx"
    using assms(1) take(2) by (auto simp: pool_ready_def)
  obtain r e where get: "redis_cmd (lib_redis L) ''GET %s'' [S t] ctx (w_env s1) = (Some r, e)"
    using assms(3,4) take(3) unfolding redis_answers_def redis_cmd_def S_def by metis
  have "r = RString u" using redis_strings_get [OF assms(2) get] assms(5) take(3) by simp
  then have call: "cache_call c (cc_Get (lib_redis L) t) s1 = Inr (u, s1\<lparr>w_env := e\<rparr>)"
    unfolding cc_Get_def by (intro cache_call_connected [where ctx = ctx and reply = "RString u" and e = e]) (use ctx get in simp_all)
  obtain s3 where "cache_auto_rel (Some c) (s1\<lparr>w_env := e\<rparr>) = Inr ((), s3)" "pool_ready ''token'' s3"
    using give [of "s1\<lparr>w_env := e\<rparr>"] by auto
  then show ?thesis
    using take(1) call by (auto simp: VerifyToken_def with_cache_conn_def sbind_run)
qed

section \<open>Properties\<close>

text \<open>C22. While the connections of the token pool are up and the server answers (SETEX with a positive time
  by OK, as documented), the token made for a user is accepted by the next check for that user, and the
  pool is ready for the next one.\<close>

theorem setToken_VerifyToken:
  assumes "pool_ready ''token'' s" "redis_strings (lib_redis L) kv" "redis_answers (lib_redis L) up"
    and "up (w_env s)" "uuid_keeps L up" "NUL \<notin> set u"
  shows "\<exists>t s1 s2. setToken L u s = Inr ((True, t), s1) \<and> VerifyToken L u t s1 = Inr (0, s2) \<and>
    pool_ready ''token'' s2"
proof -
  obtain t s1 where set: "setToken L u s = Inr ((True, t), s1)" "kv (w_env s1) (c_str t) = Some (c_str u)"
      "pool_ready ''token'' s1" "up (w_env s1)"
    using setToken_ready [OF assms(1-5)] by blast
  obtain s2 where "VerifyToken L u t s1 = Inr (0, s2)" "pool_ready ''token'' s2"
    using VerifyToken_ready [OF set(3) assms(2,3) set(4)] set(2) by (auto simp: c_str_id [OF assms(6)])
  then show ?thesis using set(1) by blast
qed

lemma mem_redis_answers: "redis_answers mem_redis (\<lambda>_. True)"
  unfolding redis_answers_def mem_redis_def
  by (auto split: prod.splits)

lemma uuid_keeps_True: "uuid_keeps L (\<lambda>_. True)"
  by (simp add: uuid_keeps_def)

lemma world_example_ready: "pool_ready ''token'' world_example"
  using world_example_good(2)
  by (auto simp: pool_ready_def world_example_def cache_pool_example_def CachePool_def)

theorem setToken_VerifyToken_witness:
  "\<exists>t s1 s2. setToken lib_example ''u'' world_example = Inr ((True, t), s1) \<and>
     VerifyToken lib_example ''u'' t s1 = Inr (0, s2)"
  using setToken_VerifyToken [OF world_example_ready, of lib_example fst "\<lambda>_. True" "''u''"]
    mem_redis_strings mem_redis_answers uuid_keeps_True by (fastforce simp: lib_example_def)

lemma apiUserLogin_right_password:
  assumes "data \<noteq> []" "decodeLoginJson L data [] [] = Inr (0, u, p)"
    and "db_take L ''image_host_slave'' s = Inr (Some c, s0)"
    and "executeQuery (lib_mysql L) c (password_query u) (w_env s0) =
      (Some (ResultSet \<lparr>res_fields = [''password''], res_rows = [[Some p]]\<rparr>), n, e)"
    and "NUL \<notin> set p"
  shows "\<exists>s'. apiUserLogin L data s = Inr ((-1, encodeLoginJson L 1 []), s')"
proof -
  obtain s1 where "verifyUserPassword L u p s = Inr (True, s1)"
    using verifyUserPassword_row [OF assms(3,4), of p] by (auto simp: c_str_id [OF assms(5)])
  then show ?thesis
    using assms(1,2) by (simp add: apiUserLogin_def sbind_run)
qed

text \<open>C24. The login handler turns the check of the password around: the stored password is refused with
  code 1 and no token.\<close>

theorem apiUserLogin_refuses_right_password:
  assumes "data \<noteq> []" "decodeLoginJson L data [] [] = Inr (0, u, p)"
    and "db_take L ''image_host_slave'' s = Inr (Some c, s0)"
    and "executeQuery (lib_mysql L) c (password_query u) (w_env s0) =
      (Some (ResultSet \<lparr>res_fields = [''password''], res_rows = [[Some p]]\<rparr>), n, e)"
    and "NUL \<notin> set p"
  shows "\<exists>s'. apiUserLogin L data s = Inr ((-1, encodeLoginJson L 1 []), s')"
  by (rule apiUserLogin_right_password [OF assms])

text \<open>With any password other than the stored one, the login handler answers code 0 with a token, and
  that token passes the check for the user: the account is open to everyone who does not know the
  password. (The handler's own result is -1, which its caller does not use.)\<close>

theorem apiUserLogin_accepts_wrong_password:
  assumes "data \<noteq> []" "decodeLoginJson L data [] [] = Inr (0, u, p)"
    and "db_take L ''image_host_slave'' s = Inr (Some c, s0)"
    and "executeQuery (lib_mysql L) c (password_query u) (w_env s0) =
      (Some (ResultSet \<lparr>res_fields = [''password''], res_rows = [[Some stored]]\<rparr>), n, e)"
    and "c_str stored \<noteq> p" "NUL \<notin> set u"
    and "pool_ready ''token'' s" "redis_strings (lib_redis L) kv" "redis_answers (lib_redis L) up"
    and "up e" "uuid_keeps L up"
  shows "\<exists>t s1 s2. apiUserLogin L data s = Inr ((-1, encodeLoginJson L 0 t), s1) \<and>
    VerifyToken L u t s1 = Inr (0, s2)"
proof -
  obtain s1 where v: "verifyUserPassword L u p s = Inr (False, s1)" "w_cache s1 = w_cache s0" "w_objs s1 = w_objs s0"
      "w_env s1 = e"
    using verifyUserPassword_row [OF assms(3,4), of p] assms(5) by auto
  have "pool_ready ''token'' s1"
    using assms(7) pool_ready_cong [of s1 s] db_take_cache [OF assms(3)] v(2,3) by simp
  from setToken_ready [OF this assms(8,9) _ assms(11), of u] assms(10) v(4) obtain t s2 where
    set: "setToken L u s1 = Inr ((True, t), s2)" "kv (w_env s2) (c_str t) = Some (c_str u)" "pool_ready ''token'' s2"
      "up (w_env s2)" by auto
  obtain s3 where "VerifyToken L u t s2 = Inr (0, s3)"
    using VerifyToken_ready [OF set(3) assms(8,9) set(4)] set(2) by (auto simp: c_str_id [OF assms(6)])
  moreover have "apiUserLogin L data s = Inr ((-1, encodeLoginJson L 0 t), s2)"
    using assms(1,2) v(1) set(1) by (simp add: apiUserLogin_def sbind_run)
  ultimately show ?thesis by blast
qed

text \<open>The example database answers every query with one row whose password is \<open>secret\<close>.\<close>

definition login_lib :: "string \<Rightarrow> (jval, mem) libs" where
  "login_lib pwd = lib_example\<lparr>
     lib_mysql := quiet_mysql\<lparr>my_store_result := \<lambda>c w. (Some \<lparr>res_fields = [''password''], res_rows = [[Some ''secret'']]\<rparr>, w)\<rparr>,
     js_parse := \<lambda>_. Some (JObj [(''pwd'', JStr pwd), (''user'', JStr ''u'')])\<rparr>"

lemma db_take_example:
  "w_db s = w_db world_example \<Longrightarrow>
   \<exists>s0. db_take L ''image_host_slave'' s = Inr (Some (Conn ''image_host_slave'' 0), s0) \<and> w_env s0 = w_env s"
  by (cases s) (simp add: db_take_def sbind_def db_getInstance_def dbm_getInstance_def db_getConn_def getConn_def
      getConnection_def dp_enter_def dp_pop_def world_example_def db_pool_example_def DBPool_def)

lemma login_query_example:
  "executeQuery (lib_mysql (login_lib pwd)) c q e =
     (Some (ResultSet \<lparr>res_fields = [''password''], res_rows = [[Some ''secret'']]\<rparr>), 1, e)"
  by (simp add: executeQuery_def run_query_def login_lib_def lib_example_def quiet_mysql_def)

lemma login_decode_example: "decodeLoginJson (login_lib pwd) data [] [] = Inr (0, ''u'', pwd)"
  by (simp add: decodeLoginJson_def json_string_def login_lib_def lib_example_def)

theorem apiUserLogin_refuses_right_password_witness:
  "\<exists>s'. apiUserLogin (login_lib ''secret'') ''x'' world_example =
     Inr ((-1, encodeLoginJson (login_lib ''secret'') 1 []), s')"
proof -
  obtain s0 where s0: "db_take (login_lib ''secret'') ''image_host_slave'' world_example =
      Inr (Some (Conn ''image_host_slave'' 0), s0)"
    using db_take_example by blast
  show ?thesis
    by (rule apiUserLogin_refuses_right_password [OF _ login_decode_example s0 login_query_example]) simp_all
qed

lemma login_answers_example:
  "\<exists>t s1 s2. apiUserLogin (login_lib ''guess'') ''{}'' world_example =
      Inr ((-1, encodeLoginJson (login_lib ''guess'') 0 t), s1) \<and>
    VerifyToken (login_lib ''guess'') ''u'' t s1 = Inr (0, s2)"
proof -
  obtain s0 where s0: "db_take (login_lib ''guess'') ''image_host_slave'' world_example =
      Inr (Some (Conn ''image_host_slave'' 0), s0)"
    using db_take_example by blast
  have "lib_redis (login_lib ''guess'') = mem_redis" by (simp add: login_lib_def lib_example_def)
  then show ?thesis
    using mem_redis_strings mem_redis_answers uuid_keeps_True
    by (intro apiUserLogin_accepts_wrong_password [OF _ login_decode_example s0 login_query_example _ _
          world_example_ready, where kv = fst and up = "\<lambda>_. True"]) (simp_all add: c_str_def)
qed

end
