(* ===== verification/Register.thy ===== *)
theory Register
  imports Login
begin

text \<open>
  The registration handler (\<^verbatim>\<open>src/api/register.cc\<close>): reading the request, looking for the user, the
  prepared insertion, and the response.
\<close>

section \<open>Definitions\<close>

record regist_data =
  rg_uname :: string
  rg_nick_name :: string
  rg_pwd :: string
  rg_phone :: string
  rg_email :: string

text \<open>A mandatory field, an optional one.\<close>

definition regist_field ::
  "('v, 'w) libs \<Rightarrow> 'v \<Rightarrow> string \<Rightarrow> (string \<Rightarrow> (int \<times> regist_data) res) \<Rightarrow> regist_data \<Rightarrow> (int \<times> regist_data) res"
where
  "regist_field L root key next d =
     rbind (json_string L root key) (\<lambda>v. case v of None \<Rightarrow> Inr (-1, d) | Some s \<Rightarrow> next s)"

definition decodeRegistJson ::
  "('v, 'w) libs \<Rightarrow> string \<Rightarrow> regist_data \<Rightarrow> (int \<times> regist_data) res" where
  "decodeRegistJson L str_json d =
     (case js_parse L str_json of
        None \<Rightarrow> Inr (-1, d)
      | Some root \<Rightarrow>
          regist_field L root ''userName'' (\<lambda>s. let d = d\<lparr>rg_uname := s\<rparr> in
          regist_field L root ''nickName'' (\<lambda>s. let d = d\<lparr>rg_nick_name := s\<rparr> in
          regist_field L root ''firstPwd'' (\<lambda>s. let d = d\<lparr>rg_pwd := s\<rparr> in
            rbind (json_string L root ''phone'') (\<lambda>phone.
              let d = (case phone of None \<Rightarrow> d | Some s \<Rightarrow> d\<lparr>rg_phone := s\<rparr>) in
            rbind (json_string L root ''email'') (\<lambda>email.
              let d = (case email of None \<Rightarrow> d | Some s \<Rightarrow> d\<lparr>rg_email := s\<rparr>) in Inr (0, d)))) d) d) d)"

definition encodeRegistJson :: "('v, 'w) libs \<Rightarrow> int \<Rightarrow> string" where
  "encodeRegistJson L ret_code = js_fast L (jset ''code'' (JInt ret_code) JNull)"

text \<open>The query is cut off by its buffer of 256 bytes.\<close>

definition user_query :: "string \<Rightarrow> string" where
  "user_query uname =
     snprintf_str 256 (FormatString ''select id from user_info where user_name = '%s';'' [FStr uname])"

definition insert_user_sql :: string where
  "insert_user_sql =
     ''insert into user_info(`usr_name`, `nick_name`, `password`, `phone`, `email`, `create_time`)values(?,?,?,?,?,?);''"

text \<open>The five strings are the caller's; the time is a character array, converted to a string that is
  gone after the call.\<close>

definition regist_params :: "regist_data \<Rightarrow> string \<Rightarrow> prepare_statement \<Rightarrow> prepare_statement" where
  "regist_params d regist_time ps =
     (let ps = setParam_string 0 (rg_uname d) ps;
          ps = setParam_string 1 (rg_nick_name d) ps;
          ps = setParam_string 2 (rg_pwd d) ps;
          ps = setParam_string 3 (rg_phone d) ps;
          ps = setParam_string 4 (rg_email d) ps
      in setParam_temporary 5 regist_time ps)"

text \<open>The insertion of a new user; a statement that cannot be prepared leaves the result 0.\<close>

definition insert_user :: "('v, 'w) libs \<Rightarrow> conn \<Rightarrow> regist_data \<Rightarrow> ('w world, int) stm" where
  "insert_user L c d =
     sbind (env_do (sys_time L)) (\<lambda>now.
     sbind (env_do (\<lambda>e. case ps_init (lib_mysql L) c insert_user_sql PrepareStatement e of
              (prepared, stmt, e) \<Rightarrow> ((prepared, stmt), e))) (\<lambda>(prepared, stmt).
     sbind (if prepared then
              sbind (env_res (ps_executeUpdate (lib_mysql L) c (regist_params d (sys_format_time L now) stmt)))
                (\<lambda>executed.
                   if executed then sbind (env_do (getInsertId (lib_mysql L) c)) (\<lambda>user_id. sret 0)
                   else sret 1)
            else sret 0) (\<lambda>ret.
     sbind (env_do (\<lambda>e. ((), ps_destroy (lib_mysql L) c stmt e))) (\<lambda>_. sret ret))))"

definition registUser :: "('v, 'w) libs \<Rightarrow> regist_data \<Rightarrow> ('w world, int) stm" where
  "registUser L d =
     with_db_conn L ''image_host_master'' (\<lambda>db_connection.
       case db_connection of
         None \<Rightarrow> sret 1
       | Some c \<Rightarrow>
           sbind (db_query L db_connection (user_query (rg_uname d))) (\<lambda>result_set.
             case first_row result_set of
               Some _ \<Rightarrow> sret 2
             | None \<Rightarrow> insert_user L c d))"

definition apiRegistUser :: "('v, 'w) libs \<Rightarrow> string \<Rightarrow> ('w world, int \<times> string) stm" where
  "apiRegistUser L post_data =
     (if post_data = [] then sret (-1, encodeRegistJson L 1)
      else sbind (slift (decodeRegistJson L post_data
                   \<lparr>rg_uname = [], rg_nick_name = [], rg_pwd = [], rg_phone = [], rg_email = []\<rparr>))
        (\<lambda>(ret, d).
           if ret \<noteq> 0 then sret (-1, encodeRegistJson L 1)
           else sbind (registUser L d) (\<lambda>ret. sret (0, encodeRegistJson L 0))))"

section \<open>Lemmas\<close>

lemma insert_user_frame [frame_intros]:
  "framed db_frame (insert_user L c d)" "framed cache_frame (insert_user L c d)"
  unfolding insert_user_def by (intro frame_intros)+

lemma registUser_frame [frame_intros]: "framed cache_frame (registUser L d)"
  unfolding registUser_def by (intro frame_intros)

lemma registUser_steady [steady_intros]: "db_steady (registUser L d)" "cache_steady (registUser L d)"
proof -
  show "db_steady (registUser L d)"
    unfolding registUser_def by (intro steady_intros frame_intros)
  show "cache_steady (registUser L d)" by (rule cache_steady_framed [OF registUser_frame])
qed

lemma apiRegistUser_steady [steady_intros]:
  "db_steady (apiRegistUser L data)" "cache_steady (apiRegistUser L data)"
  unfolding apiRegistUser_def by (intro steady_intros)+

lemma regist_params_dangling:
  assumes "ps_param_count ps = 6" "ps_bind ps = Some (replicate 6 BindUnset)"
  shows "BindDangling \<in> set (ps_binds (regist_params d t ps))"
  using assms
  by (simp add: regist_params_def setParam_string_def setParam_temporary_def ps_set_def ps_binds_def
      Let_def numeral_eq_Suc)

lemma ps_init_error:
  assumes "\<And>w. fst (my_stmt_prepare M c sql w)" "ps_init M c sql ps w = (prepared, ps', w')"
  shows "\<not> prepared"
proof -
  obtain ok w1 where init: "my_stmt_init M c (my_ping M c w) = (ok, w1)" by fastforce
  have "\<exists>w2. my_stmt_prepare M c sql w1 = (True, w2)" using assms(1) by (metis prod.collapse)
  then show ?thesis using assms(2) init by (auto simp: ps_init_def Let_def split: if_splits)
qed

section \<open>Properties\<close>

text \<open>C25. The insertion names a column \<open>usr_name\<close>, which the table of the repository's schema does not have. On
  a server that reports an error for its preparation nobody is ever registered, but the answer is the one
  of success: for a user who is not there yet no statement is executed after the query (what happened to
  the world is the failed preparation and its cleaning up), and the handler answers code 0.\<close>

theorem apiRegistUser_registers_nobody:
  assumes "data \<noteq> []"
    and "decodeRegistJson L data \<lparr>rg_uname = [], rg_nick_name = [], rg_pwd = [], rg_phone = [], rg_email = []\<rparr> =
      Inr (0, d)"
    and "db_take L ''image_host_master'' s = Inr (Some c, s0)"
    and "executeQuery (lib_mysql L) c (user_query (rg_uname d)) (w_env s0) = (r, n, e)" "first_row r = None"
    and "\<And>w. fst (my_stmt_prepare (lib_mysql L) c insert_user_sql w)"
  shows "\<exists>s' ps e1. registUser L d s = Inr (0, s') \<and> apiRegistUser L data s = Inr ((0, encodeRegistJson L 0), s') \<and>
    ps_init (lib_mysql L) c insert_user_sql PrepareStatement (snd (sys_time L e)) = (False, ps, e1) \<and>
    w_env s' = ps_destroy (lib_mysql L) c ps e1"
proof -
  obtain now e0 where time: "sys_time L e = (now, e0)" by fastforce
  obtain prepared ps e1 where init: "ps_init (lib_mysql L) c insert_user_sql PrepareStatement e0 = (prepared, ps, e1)"
    by (metis prod_cases3)
  have "\<not> prepared" using ps_init_error [OF assms(6) init] .
  then have "\<exists>s'. registUser L d s = Inr (0, s') \<and> w_env s' = ps_destroy (lib_mysql L) c ps e1"
    by (simp add: registUser_def with_db_conn_def insert_user_def sbind_run db_query_def env_do_def env_res_def
        assms(3-5) time init db_auto_rel_def)
  then show ?thesis
    using assms(1,2) time init \<open>\<not> prepared\<close> by (auto simp: apiRegistUser_def sbind_run)
qed

text \<open>If the statement could be prepared, its time parameter would point into a temporary string: once the
  parameters are bound, memory that is gone is read.\<close>

theorem registUser_new_user_dangles:
  assumes "db_take L ''image_host_master'' s = Inr (Some c, s0)"
    and "executeQuery (lib_mysql L) c (user_query (rg_uname d)) (w_env s0) = (r, n, e)" "first_row r = None"
    and "sys_time L e = (now, e1)"
    and "ps_init (lib_mysql L) c insert_user_sql PrepareStatement e1 = (True, ps, e2)" "ps_param_count ps = 6"
    and "\<And>bs w. \<exists>w'. my_stmt_bind_param (lib_mysql L) c bs w = (False, w')"
  shows "registUser L d s = Inl Dangling"
proof -
  have ps: "ps_stmt ps" "ps_bind ps = Some (replicate 6 BindUnset)"
    using assms(5,6) by (auto simp: ps_init_def PrepareStatement_def Let_def split: prod.splits if_splits)
  let ?ps = "regist_params d (sys_format_time L now) ps"
  have "ps_stmt ?ps" using ps(1)
    by (simp add: regist_params_def setParam_string_def setParam_temporary_def ps_set_def Let_def)
  moreover obtain w' where "my_stmt_bind_param (lib_mysql L) c (ps_binds ?ps) e2 = (False, w')"
    using assms(7) by blast
  ultimately have "ps_executeUpdate (lib_mysql L) c ?ps e2 = Inl Dangling"
    using regist_params_dangling [OF assms(6) ps(2)] by (simp add: ps_executeUpdate_def)
  then show ?thesis
    by (simp add: registUser_def with_db_conn_def insert_user_def sbind_run db_query_def env_do_def env_res_def
        assms)
qed

text \<open>A user who exists already is not inserted: no statement is prepared and the result is 2, but the
  handler answers code 0 as for a new user.\<close>

theorem apiRegistUser_existing_user:
  assumes "data \<noteq> []"
    and "decodeRegistJson L data \<lparr>rg_uname = [], rg_nick_name = [], rg_pwd = [], rg_phone = [], rg_email = []\<rparr> =
      Inr (0, d)"
    and "db_take L ''image_host_master'' s = Inr (Some c, s0)"
    and "executeQuery (lib_mysql L) c (user_query (rg_uname d)) (w_env s0) = (Some (ResultSet res), n, e)"
    and "res_rows res \<noteq> []"
  shows "\<exists>s'. registUser L d s = Inr (2, s') \<and> w_env s' = e \<and>
    apiRegistUser L data s = Inr ((0, encodeRegistJson L 0), s')"
proof -
  have "\<exists>row. first_row (Some (ResultSet res)) = Some row"
    using assms(5) by (auto simp: first_row_def rs_next_def ResultSet_def neq_Nil_conv)
  then obtain s' where "registUser L d s = Inr (2, s')" "w_env s' = e"
    by (auto simp: registUser_def with_db_conn_def sbind_run db_query_def env_do_def assms(3,4) db_auto_rel_def)
  then show ?thesis
    using assms(1,2) by (simp add: apiRegistUser_def sbind_run)
qed

definition regist_lib :: "(string option list) list \<Rightarrow> (jval, mem) libs" where
  "regist_lib rows = lib_example\<lparr>
     lib_mysql := quiet_mysql\<lparr>my_store_result := \<lambda>c w. (Some \<lparr>res_fields = [''id''], res_rows = rows\<rparr>, w),
       my_stmt_param_count := \<lambda>c w. (6, w)\<rparr>,
     js_parse := \<lambda>_. Some (JObj [(''firstPwd'', JStr ''p''), (''nickName'', JStr ''n''), (''userName'', JStr ''u'')])\<rparr>"

lemma db_take_master_example:
  "db_take L ''image_host_master'' world_example =
     Inr (Some (Conn ''image_host_master'' 0), world_example\<lparr>w_db :=
       Some [(''image_host_master'', (db_pool_example ''image_host_master'')\<lparr>dp_free_list := []\<rparr>),
             (''image_host_slave'', db_pool_example ''image_host_slave'')]\<rparr>)"
  by (simp add: db_take_def sbind_def db_getInstance_def dbm_getInstance_def db_getConn_def getConn_def
      getConnection_def dp_enter_def dp_pop_def world_example_def db_pool_example_def DBPool_def)

lemma regist_query_example:
  "executeQuery (lib_mysql (regist_lib rows)) c q e = (Some (ResultSet \<lparr>res_fields = [''id''], res_rows = rows\<rparr>), length rows, e)"
  by (simp add: executeQuery_def run_query_def regist_lib_def lib_example_def quiet_mysql_def)

definition regist_example :: regist_data where
  "regist_example = \<lparr>rg_uname = ''u'', rg_nick_name = ''n'', rg_pwd = ''p'', rg_phone = [], rg_email = []\<rparr>"

theorem registUser_new_user_dangles_witness:
  "registUser (regist_lib []) regist_example world_example = Inl Dangling"
proof -
  have "ps_init (lib_mysql (regist_lib [])) c insert_user_sql PrepareStatement e =
      (True, \<lparr>ps_stmt = True, ps_bind = Some (replicate 6 BindUnset), ps_param_count = 6\<rparr>, e)" for c e
    by (simp add: ps_init_def regist_lib_def lib_example_def quiet_mysql_def PrepareStatement_def)
  from registUser_new_user_dangles [OF db_take_master_example regist_query_example _ _ this, of 0]
  show ?thesis
    by (simp add: first_row_def rs_next_def ResultSet_def regist_lib_def lib_example_def quiet_mysql_def)
qed

lemma regist_decode_example:
  "js_parse L = js_parse (regist_lib []) \<Longrightarrow> js_member L = js_member lib_example \<Longrightarrow> js_isNull L = js_isNull lib_example \<Longrightarrow>
   js_asString L = js_asString lib_example \<Longrightarrow>
   decodeRegistJson L ''x'' \<lparr>rg_uname = [], rg_nick_name = [], rg_pwd = [], rg_phone = [], rg_email = []\<rparr> =
     Inr (0, regist_example)"
  by (simp add: decodeRegistJson_def regist_field_def json_string_def regist_lib_def lib_example_def regist_example_def)

text \<open>A server that prepares no statement that names \<open>usr_name\<close>.\<close>

definition schema_lib :: "(jval, mem) libs" where
  "schema_lib = regist_lib []\<lparr>lib_mysql := (lib_mysql (regist_lib []))\<lparr>my_stmt_prepare := \<lambda>c sql w. (strstr sql ''usr_name'' \<noteq> None, w)\<rparr>\<rparr>"

theorem apiRegistUser_registers_nobody_witness:
  "\<exists>s'. apiRegistUser schema_lib ''x'' world_example = Inr ((0, encodeRegistJson schema_lib 0), s') \<and>
     w_env s' = w_env world_example"
proof -
  have decode: "decodeRegistJson schema_lib ''x'' \<lparr>rg_uname = [], rg_nick_name = [], rg_pwd = [], rg_phone = [], rg_email = []\<rparr> =
      Inr (0, regist_example)"
    by (rule regist_decode_example) (simp_all add: schema_lib_def regist_lib_def)
  have query: "executeQuery (lib_mysql schema_lib) c q e = (Some (ResultSet \<lparr>res_fields = [''id''], res_rows = []\<rparr>), 0, e)" for c q e
    by (simp add: executeQuery_def run_query_def schema_lib_def regist_lib_def lib_example_def quiet_mysql_def)
  have none: "first_row (Some (ResultSet \<lparr>res_fields = [''id''], res_rows = []\<rparr>)) = None"
    by (simp add: first_row_def rs_next_def ResultSet_def)
  have "fst (my_stmt_prepare (lib_mysql schema_lib) c insert_user_sql w)" for c w
    by (simp add: schema_lib_def insert_user_sql_def)
  from apiRegistUser_registers_nobody [OF _ decode db_take_master_example query none this]
  show ?thesis
    by (auto simp: ps_init_def ps_destroy_def PrepareStatement_def schema_lib_def regist_lib_def lib_example_def quiet_mysql_def
        insert_user_sql_def)
qed

theorem apiRegistUser_existing_user_witness:
  "\<exists>s'. registUser (regist_lib [[Some ''1'']]) regist_example world_example = Inr (2, s') \<and>
     apiRegistUser (regist_lib [[Some ''1'']]) ''x'' world_example =
       Inr ((0, encodeRegistJson (regist_lib [[Some ''1'']]) 0), s')"
proof -
  have "decodeRegistJson (regist_lib [[Some ''1'']]) ''x''
      \<lparr>rg_uname = [], rg_nick_name = [], rg_pwd = [], rg_phone = [], rg_email = []\<rparr> = Inr (0, regist_example)"
    by (simp add: decodeRegistJson_def regist_field_def json_string_def regist_lib_def lib_example_def
        regist_example_def)
  from apiRegistUser_existing_user [OF _ this db_take_master_example regist_query_example] show ?thesis
    by fastforce
qed

end
