(* ===== verification/MyFiles.thy ===== *)
theory MyFiles
  imports Login
begin

text \<open>
  The handler that counts and lists a user's files (\<^verbatim>\<open>src/api/myfiles.cc\<close>).
\<close>

section \<open>Definitions\<close>

text \<open>The result code and the out parameters. The user name is converted without a test for null.\<close>

definition decodeCountJson ::
  "('v, 'w) libs \<Rightarrow> string \<Rightarrow> (int \<times> string \<times> string) res" where
  "decodeCountJson L str_json =
     (case js_parse L str_json of
        None \<Rightarrow> Inr (-1, [], [])
      | Some root \<Rightarrow>
          rbind (rbind (js_member L root ''user'') (js_asString L)) (\<lambda>user_name.
          rbind (json_string L root ''token'') (\<lambda>t. case t of
            None \<Rightarrow> Inr (-1, user_name, [])
          | Some token \<Rightarrow> Inr (0, user_name, token))))"

definition encodeCountJson :: "('v, 'w) libs \<Rightarrow> int \<Rightarrow> int \<Rightarrow> string" where
  "encodeCountJson L ret file_total =
     (let root = jset ''code'' (JInt ret) JNull;
          root = (if ret = 0 then jset ''total'' (JInt file_total) root else root)
      in js_fast L root)"

text \<open>The result code and the count, which stays what it was when the query fails.\<close>

definition handleUserFileCount :: "('v, 'w) libs \<Rightarrow> string \<Rightarrow> int \<Rightarrow> ('w world, int \<times> int) stm" where
  "handleUserFileCount L user_name count =
     with_db_conn L ''image_host_slave'' (\<lambda>connection.
       sbind (db_query L connection
         (FormatString ''selece count(*) from user_file_list where user = '%s';'' [FStr user_name]))
         (\<lambda>result.
            case first_row result of
              Some r \<Rightarrow> slift (rbind (getInt r ''count(*)'') (\<lambda>count. Inr (0, count)))
            | None \<Rightarrow> sret (-1, count)))"

definition decodeFilesListJson ::
  "('v, 'w) libs \<Rightarrow> string \<Rightarrow> int \<Rightarrow> int \<Rightarrow> (int \<times> string \<times> string \<times> int \<times> int) res" where
  "decodeFilesListJson L str_json start count =
     (case js_parse L str_json of
        None \<Rightarrow> Inr (-1, [], [], start, count)
      | Some root \<Rightarrow>
          rbind (json_string L root ''user'') (\<lambda>u. case u of
            None \<Rightarrow> Inr (-1, [], [], start, count)
          | Some user_name \<Rightarrow>
          rbind (json_string L root ''token'') (\<lambda>t. case t of
            None \<Rightarrow> Inr (-1, user_name, [], start, count)
          | Some token \<Rightarrow>
          rbind (json_int L root ''start'') (\<lambda>i. case i of
            None \<Rightarrow> Inr (-1, user_name, token, start, count)
          | Some start \<Rightarrow>
          rbind (json_int L root ''count'') (\<lambda>i. case i of
            None \<Rightarrow> Inr (-1, user_name, token, start, count)
          | Some count \<Rightarrow> Inr (0, user_name, token, start, count))))))"

definition encodeGetFileListFailedJson :: "('v, 'w) libs \<Rightarrow> string" where
  "encodeGetFileListFailedJson L = js_fast L (jset ''code'' (JInt 1) JNull)"

definition file_columns :: "(string \<times> string \<times> bool) list" where
  "file_columns =
     [(''user'', ''user'', False), (''md5'', ''md5'', False), (''create_time'', ''create_time'', False),
      (''file_name'', ''file_name'', False), (''share_status'', ''shared_status'', True), (''pv'', ''pv'', True),
      (''url'', ''url'', False), (''size'', ''size'', True), (''type'', ''type'', False)]"

definition file_list_query :: "string \<Rightarrow> int \<Rightarrow> int \<Rightarrow> string" where
  "file_list_query user_name start count = FormatString
     ''select user_file_list.*, file_info.size, file_info.type from file_info, user_file_list where user = '%s' and file_info.md5 = user_file_list.md5 limit %d, %d;''
     [FStr user_name, FInt start, FInt count]"

definition file_list_response ::
  "('v, 'w) libs \<Rightarrow> int \<Rightarrow> result_set option \<Rightarrow> (int \<times> string) res" where
  "file_list_response L total_count result =
     (case result of
        Some r \<Rightarrow>
          rbind (json_rows file_columns r JNull 0) (\<lambda>(files, file_index).
            Inr (0, js_fast L
              (jset ''count'' (JInt file_index) (jset ''files'' files
                (jset ''total'' (JInt total_count) (jset ''code'' (JInt 0) JNull))))))
      | None \<Rightarrow> Inr (-1, js_fast L (jset ''code'' (JInt 1) JNull)))"

text \<open>The result code and the response. The connection for the listing has no guard.\<close>

definition getUserFileList ::
  "('v, 'w) libs \<Rightarrow> string \<Rightarrow> int \<Rightarrow> int \<Rightarrow> ('w world, int \<times> string) stm" where
  "getUserFileList L user_name start count =
     sbind (handleUserFileCount L user_name 0) (\<lambda>(r, total_count).
       if r \<noteq> 0 then sret (-1, js_fast L (jset ''code'' (JInt 1) JNull))
       else if total_count = 0 then
         sret (0, js_fast L (jset ''total'' (JInt 0) (jset ''count'' (JInt 0) (jset ''code'' (JInt 0) JNull))))
       else
         sbind (db_take L ''image_host_slave'') (\<lambda>connection.
         sbind (db_query L connection (file_list_query user_name start count)) (\<lambda>result.
           slift (file_list_response L total_count result))))"

text \<open>\<open>cmd\<close> is what the uninitialised array of 20 characters holds. The two numbers are uninitialised
  too, but only used once they are set.\<close>

definition apiMyfiles ::
  "('v, 'w) libs \<Rightarrow> string \<Rightarrow> string \<Rightarrow> string \<Rightarrow> ('w world, int \<times> string) stm" where
  "apiMyfiles L cmd url post_data =
     sbind (slift (QueryParseKeyValue (c_str url) ''cmd'' cmd)) (\<lambda>(_, cmd, _).
     sbind (slift (strcmp_eq cmd ''count'')) (\<lambda>is_count.
       if is_count then
         sbind (slift (decodeCountJson L post_data)) (\<lambda>(r, user_name, token).
           if r \<noteq> 0 then sret (-1, encodeCountJson L 1 0)
           else sbind (VerifyToken L user_name token) (\<lambda>v.
             if v \<noteq> 0 then sret (-1, encodeCountJson L 1 0)
             else sbind (handleUserFileCount L user_name 0) (\<lambda>(h, total_count).
               sret (0, if h \<noteq> 0 then encodeCountJson L 1 0 else encodeCountJson L 0 total_count))))
       else sbind (slift (strcmp_eq cmd ''normal'')) (\<lambda>is_normal.
       if is_normal then
         sbind (slift (decodeFilesListJson L post_data 0 0)) (\<lambda>(r, user_name, token, start, count).
           if r \<noteq> 0 then sret (-1, encodeGetFileListFailedJson L)
           else sbind (VerifyToken L user_name token) (\<lambda>v.
             if v \<noteq> 0 then sret (-1, encodeGetFileListFailedJson L)
             else sbind (getUserFileList L user_name start count) (\<lambda>(_, str_json). sret (0, str_json))))
       else sret (-1, encodeGetFileListFailedJson L))))"

section \<open>Lemmas\<close>

lemma handleUserFileCount_frame [frame_intros]: "framed cache_frame (handleUserFileCount L u n)"
  unfolding handleUserFileCount_def by (intro frame_intros)

lemma handleUserFileCount_steady [steady_intros]:
  "db_steady (handleUserFileCount L u n)" "cache_steady (handleUserFileCount L u n)"
proof -
  show "db_steady (handleUserFileCount L u n)"
    unfolding handleUserFileCount_def by (intro steady_intros frame_intros)
  show "cache_steady (handleUserFileCount L u n)" by (rule cache_steady_framed [OF handleUserFileCount_frame])
qed

lemma getUserFileList_frame [frame_intros]: "framed cache_frame (getUserFileList L u a b)"
  unfolding getUserFileList_def by (intro frame_intros)

lemma getUserFileList_steady [steady_intros]: "cache_steady (getUserFileList L u a b)"
  by (rule cache_steady_framed [OF getUserFileList_frame])

lemma apiMyfiles_cache_steady [steady_intros]: "cache_steady (apiMyfiles L cmd url data)"
  unfolding apiMyfiles_def by (intro steady_intros)

text \<open>A listing loses at most connections to the read-only database.\<close>

lemma list_files_loses [frame_intros]:
  "framed db_loses (sbind (db_take L ''image_host_slave'') (\<lambda>connection.
     sbind (db_query L connection q) (\<lambda>result. slift (f result))))"
proof (rule framedI)
  fix s a s'
  assume "sbind (db_take L ''image_host_slave'') (\<lambda>connection.
     sbind (db_query L connection q) (\<lambda>result. slift (f result))) s = Inr (a, s')"
  then obtain c s1 r where run: "db_take L ''image_host_slave'' s = Inr (c, s1)"
    "db_query L c q s1 = Inr (r, s')"
    by (auto simp: sbind_eq_Inr_iff slift_def elim!: rbind_InrE)
  obtain conn where "c = Some conn" using run(2) by (cases c) (auto simp: db_query_def)
  then have "db_loses s s1" using db_loses_take run(1) by blast
  moreover have "w_db s' = w_db s1" using framedD [OF frame_db_query(1) run(2)] by (simp add: db_frame_def)
  ultimately show "db_loses s s'" by (simp add: db_loses_def db_good_def db_capacity_def)
qed

lemma getUserFileList_loses [frame_intros]: "framed db_loses (getUserFileList L u a b)"
  unfolding getUserFileList_def by (intro frame_intros db_loses_steady [OF handleUserFileCount_steady(1)])

lemma apiMyfiles_loses: "framed db_loses (apiMyfiles L cmd url data)"
  unfolding apiMyfiles_def
  by (intro frame_intros db_loses_steady [OF handleUserFileCount_steady(1)] db_loses_steady [OF VerifyToken_steady(1)])

section \<open>Properties\<close>

text \<open>The text of the query that counts begins with a word that is no statement, so a server that knows SQL
  reports an error, and the count fails.\<close>

lemma count_query_misspelt:
  "prefix ''selece'' (FormatString ''selece count(*) from user_file_list where user = '%s';'' [FStr u])"
  by simp

lemma executeQuery_error: "run_query M c q w = (True, e) \<Longrightarrow> fst (executeQuery M c q w) = None"
  by (simp add: executeQuery_def)

lemma handleUserFileCount_rejected:
  assumes "\<forall>c sql w. prefix ''selece'' sql \<longrightarrow> fst (my_real_query (lib_mysql L) c sql w)"
    and "handleUserFileCount L u n s = Inr (x, s')"
  shows "x = (-1, n)"
proof -
  define q where "q = FormatString ''selece count(*) from user_file_list where user = '%s';'' [FStr u]"
  have "fst (my_real_query (lib_mysql L) c q w)" for c w
    using assms(1) count_query_misspelt unfolding q_def by blast
  then have "\<exists>e. run_query (lib_mysql L) c q w = (True, e)" for c w
    by (intro exI [of _ "snd (run_query (lib_mysql L) c q w)"]) (simp add: run_query_def prod_eq_iff)
  then have none: "fst (executeQuery (lib_mysql L) c q w) = None" for c w
    by (metis executeQuery_error)
  obtain c s1 r s2 s3 where query: "db_query L c q s1 = Inr (r, s2)"
    and result: "(case first_row r of Some r \<Rightarrow> slift (rbind (getInt r ''count(*)'') (\<lambda>count. Inr (0, count)))
      | None \<Rightarrow> sret (-1, n)) s2 = Inr (x, s3)"
    using assms(2) unfolding handleUserFileCount_def q_def [symmetric] with_db_conn_def sbind_eq_Inr_iff
    by (auto simp only: sret_def prod.inject sum.inject)
  have "r = None"
  proof (cases c)
    case (Some d)
    then show ?thesis
      using query none [of d "w_env s1"] by (cases "executeQuery (lib_mysql L) d q (w_env s1)") (auto simp: db_query_def env_do_def)
  qed (use query in \<open>simp add: db_query_def\<close>)
  then show ?thesis using result by (simp add: first_row_def)
qed

text \<open>C26. The text of the query that counts a user's files is misspelt. On a server that reports an error for it,
  the handler never gives a count or a list: whatever the command, the user, the token and the state, every
  response it gives is the one of failure; and the pools of the database keep what they could hand out.\<close>

theorem apiMyfiles_always_fails:
  assumes "\<forall>c sql w. prefix ''selece'' sql \<longrightarrow> fst (my_real_query (lib_mysql L) c sql w)"
    and "apiMyfiles L cmd url data s = Inr ((r, resp), s')" "db_good s"
  shows "resp = js_fast L (jset ''code'' (JInt 1) JNull) \<and> db_good s' \<and> db_capacity s' = db_capacity s"
proof -
  let ?fail = "js_fast L (jset ''code'' (JInt 1) JNull)"
  define files where "files u a b = sbind (handleUserFileCount L u 0) (\<lambda>_. sret (-1 :: int, ?fail))" for u :: string and a b :: int
  have list: "getUserFileList L u a b t = files u a b t" for u a b t
    using handleUserFileCount_rejected [OF assms(1), of u 0 t]
    by (cases "handleUserFileCount L u 0 t") (auto simp: getUserFileList_def files_def sbind_def)
  have steady: "db_steady (files u a b)" for u a b unfolding files_def by (intro steady_intros)
  then have "db_steady (getUserFileList L u a b)" for u a b using list by (simp add: steady_def)
  then have "db_steady (apiMyfiles L cmd url data)" unfolding apiMyfiles_def by (intro steady_intros)
  moreover have "resp = ?fail"
    using assms(2)
    by (auto dest!: handleUserFileCount_rejected [OF assms(1)] simp: apiMyfiles_def sbind_eq_Inr_iff list files_def encodeCountJson_def encodeGetFileListFailedJson_def
        split: if_splits prod.splits)
  ultimately show ?thesis using assms(2,3) unfolding steady_def by blast
qed

definition reject_lib :: "(jval, mem) libs" where
  "reject_lib = lib_example\<lparr>lib_mysql := quiet_mysql\<lparr>my_real_query := \<lambda>c sql w. (prefix ''selece'' sql, w)\<rparr>,
     js_parse := \<lambda>_. Some (JObj [(''token'', JStr ''t''), (''user'', JStr ''u'')])\<rparr>"

definition count_command :: string where
  "count_command = ''count'' @ replicate 15 NUL"

text \<open>The check of a token only uses the redis library.\<close>

lemma VerifyToken_redis:
  assumes "lib_redis L = lib_redis M"
  shows "VerifyToken L u t = VerifyToken M u t"
  unfolding VerifyToken_def with_cache_conn_def cache_take_def cache_getInstance_def [abs_def]
    cache_getConn_def [abs_def] assms by (rule refl)

text \<open>A user whose token is good asks for the count.\<close>

lemma reject_count_example:
  "\<exists>s'. apiMyfiles reject_lib count_command ''/api/myfiles'' ''{}'' (world_example\<lparr>w_env := ([''t'' \<mapsto> ''u''], \<lambda>_. [])\<rparr>) =
     Inr ((0, js_fast reject_lib (jset ''code'' (JInt 1) JNull)), s')"
proof -
  let ?s = "world_example\<lparr>w_env := ([''t'' \<mapsto> ''u''], \<lambda>_. [])\<rparr>"
  let ?s1 = "world_example\<lparr>w_cache := Some [(''token'', cache_pool_example\<lparr>cp_free_list := [CcPtr 0 1, CcPtr 0 0]\<rparr>)],
    w_env := ([''t'' \<mapsto> ''u''], \<lambda>_. [])\<rparr>"
  have "VerifyToken reject_lib ''u'' ''t'' ?s = VerifyToken lib_example ''u'' ''t'' ?s"
    by (rule fun_cong [OF VerifyToken_redis]) (simp add: reject_lib_def)
  then have token: "VerifyToken reject_lib ''u'' ''t'' ?s = Inr (0, ?s1)" using token_world_example by simp
  have "strcmp_eq count_command ''count'' = Inr True" by (simp add: count_command_def numeral_eq_Suc)
  moreover have "decodeCountJson reject_lib ''{}'' = Inr (0, ''u'', ''t'')"
    by (simp add: decodeCountJson_def json_string_def reject_lib_def lib_example_def)
  moreover have "QueryParseKeyValue (c_str ''/api/myfiles'') ''cmd'' count_command = Inr (-1, count_command, 0)"
    by (simp add: QueryParseKeyValue_def c_str_def)
  moreover have "\<exists>s'. handleUserFileCount reject_lib ''u'' 0 ?s1 = Inr ((-1, 0), s')"
    by (simp add: handleUserFileCount_def with_db_conn_def sbind_run db_take_def db_getInstance_def dbm_getInstance_def
        db_getConn_def getConn_def getConnection_def dp_enter_def dp_pop_def world_example_def db_pool_example_def
        DBPool_def less_char_def db_query_def env_do_def executeQuery_def run_query_def reject_lib_def quiet_mysql_def
        first_row_def db_auto_rel_def)
  ultimately show ?thesis
    using token by (auto simp: apiMyfiles_def sbind_run encodeCountJson_def)
qed

theorem apiMyfiles_always_fails_witness:
  "\<exists>r s'. apiMyfiles reject_lib count_command ''/api/myfiles'' ''{}'' (world_example\<lparr>w_env := ([''t'' \<mapsto> ''u''], \<lambda>_. [])\<rparr>) =
      Inr ((r, js_fast reject_lib (jset ''code'' (JInt 1) JNull)), s') \<and>
     db_good s' \<and> db_capacity s' = db_capacity world_example"
proof -
  let ?s = "world_example\<lparr>w_env := ([''t'' \<mapsto> ''u''], \<lambda>_. [])\<rparr>"
  obtain s' where run: "apiMyfiles reject_lib count_command ''/api/myfiles'' ''{}'' ?s =
      Inr ((0, js_fast reject_lib (jset ''code'' (JInt 1) JNull)), s')"
    using reject_count_example by blast
  have "db_good ?s" "db_capacity ?s = db_capacity world_example"
    using world_example_good(1) by (auto simp: db_good_def db_capacity_def)
  moreover have "\<forall>c sql w. prefix ''selece'' sql \<longrightarrow> fst (my_real_query (lib_mysql reject_lib) c sql w)"
    by (simp add: reject_lib_def)
  ultimately show ?thesis using apiMyfiles_always_fails [OF _ run] run by auto
qed

text \<open>If the text were accepted, a listing that finds files would keep the connection it listed them with:
  afterwards the pool of the read-only database could hand out one connection less, for good.\<close>

theorem getUserFileList_leaks:
  assumes "db_good s" "handleUserFileCount L u 0 s = Inr ((0, k), s1)" "k \<noteq> 0"
    and "getUserFileList L u a b s = Inr ((r, resp), s')"
  shows "\<exists>n. db_capacity s ''image_host_slave'' = Some n \<and> db_capacity s' ''image_host_slave'' = Some (n - 1)"
proof -
  have s1: "db_good s1" "db_capacity s1 = db_capacity s"
    using steadyD [OF handleUserFileCount_steady(1) assms(2,1)] by simp_all
  obtain c s2 s3 res where take: "db_take L ''image_host_slave'' s1 = Inr (c, s2)"
    and query: "db_query L c (file_list_query u a b) s2 = Inr (res, s3)"
    and rest: "slift (file_list_response L k res) s3 = Inr ((r, resp), s')"
    using assms(2,3,4) by (auto simp: getUserFileList_def sbind_eq_Inr_iff)
  obtain conn where c: "c = Some conn" using query by (cases c) (auto simp: db_query_def)
  have cap: "\<exists>n. db_capacity s1 ''image_host_slave'' = Some n \<and> db_capacity s2 ''image_host_slave'' = Some (n - 1)"
    using db_take_Some take s1(1) unfolding c by blast
  have "w_db s3 = w_db s2"
    using framedD [OF frame_db_query(1) query] by (simp add: db_frame_def)
  moreover have "s' = s3"
    using rest by (auto simp: slift_def elim!: rbind_InrE)
  ultimately show ?thesis using cap s1(2) by (simp add: db_capacity_def)
qed

definition files_res :: mysql_res where
  "files_res = \<lparr>res_fields = [''count(*)'', ''user'', ''md5'', ''create_time'', ''file_name'', ''pv'', ''url'', ''size'', ''type''],
     res_rows = [replicate 9 (Some ''3'')]\<rparr>"

definition files_lib :: "(jval, mem) libs" where
  "files_lib = lib_example\<lparr>lib_mysql := quiet_mysql\<lparr>my_store_result := \<lambda>c w. (Some files_res, w)\<rparr>\<rparr>"

lemma files_query_example: "executeQuery (lib_mysql files_lib) c q e = (Some (ResultSet files_res), 1, e)"
  by (simp add: executeQuery_def run_query_def files_lib_def lib_example_def quiet_mysql_def files_res_def)

lemma slave_take_example:
  "db_take L ''image_host_slave'' world_example =
     Inr (Some (Conn ''image_host_slave'' 0), world_example\<lparr>w_db :=
       Some [(''image_host_master'', db_pool_example ''image_host_master''),
             (''image_host_slave'', (db_pool_example ''image_host_slave'')\<lparr>dp_free_list := []\<rparr>)]\<rparr>)"
  by (simp add: db_take_def sbind_def db_getInstance_def dbm_getInstance_def db_getConn_def getConn_def
      getConnection_def dp_enter_def dp_pop_def world_example_def db_pool_example_def DBPool_def less_char_def)

lemma slave_give_example:
  "db_auto_rel (Some (Conn ''image_host_slave'' 0)) (world_example\<lparr>w_db :=
       Some [(''image_host_master'', db_pool_example ''image_host_master''),
             (''image_host_slave'', (db_pool_example ''image_host_slave'')\<lparr>dp_free_list := []\<rparr>)]\<rparr>) =
     Inr ((), world_example)"
  by (simp add: db_auto_rel_def AutoRelConn_destroy_def releaseConn_def releaseConnection_def world_example_def
      db_pool_example_def less_char_def)

lemma files_count_example: "handleUserFileCount files_lib u 0 world_example = Inr ((0, 3), world_example)"
proof -
  have "first_row (Some (ResultSet files_res)) = Some ((ResultSet files_res)\<lparr>rs_row := Row (replicate 9 (Some ''3'')), rs_rest := []\<rparr>)"
    by (simp add: first_row_def rs_next_def ResultSet_def files_res_def)
  moreover have "getInt ((ResultSet files_res)\<lparr>rs_row := Row (replicate 9 (Some ''3'')), rs_rest := []\<rparr>) ''count(*)'' = Inr 3"
    by code_simp
  moreover have "w_env (world_example\<lparr>w_db := d\<rparr>) = w_env world_example" for d by simp
  moreover have "(world_example\<lparr>w_db := d\<rparr>)\<lparr>w_env := w_env world_example\<rparr> = world_example\<lparr>w_db := d\<rparr>" for d
    by (simp add: world_example_def)
  ultimately show ?thesis
    by (simp add: handleUserFileCount_def with_db_conn_def sbind_run slave_take_example db_query_def env_do_def
        files_query_example slave_give_example)
qed

lemma files_list_example:
  "\<exists>r s'. getUserFileList files_lib ''u'' 0 10 world_example = Inr (r, s')"
proof -
  have "\<not> isl (json_rows file_columns (ResultSet files_res) JNull 0)" by code_simp
  then obtain files i where "json_rows file_columns (ResultSet files_res) JNull 0 = Inr (files, i)"
    by (cases "json_rows file_columns (ResultSet files_res) JNull 0") auto
  then show ?thesis
    by (simp add: getUserFileList_def sbind_run files_count_example slave_take_example db_query_def env_do_def
        files_query_example file_list_response_def)
qed

theorem getUserFileList_leaks_witness:
  "\<exists>r s'. getUserFileList files_lib ''u'' 0 10 world_example = Inr (r, s') \<and>
     db_capacity world_example ''image_host_slave'' = Some 2 \<and> db_capacity s' ''image_host_slave'' = Some 1"
proof -
  obtain r resp s' where run: "getUserFileList files_lib ''u'' 0 10 world_example = Inr ((r, resp), s')"
    using files_list_example by auto
  have "db_capacity world_example ''image_host_slave'' = Some 2"
    by (simp add: db_capacity_def world_example_def db_pool_example_def DBPool_def capacity_def MIN_DB_CONN_CNT_def)
  then show ?thesis
    using getUserFileList_leaks [OF world_example_good(1) files_count_example _ run] run by auto
qed

text \<open>When the pool of the read-only database is exhausted, the listing, the count, and every login wait
  for a connection that nobody will give back.\<close>

theorem exhausted_slave_blocks:
  assumes "w_db s = Some pools" "om_find pools ''image_host_slave'' = Some p" "capacity p = 0"
    and "\<not> dp_abort_request p"
  shows "getUserFileList L u a b s = Inl WaitsForever \<and> handleUserFileCount L u k s = Inl WaitsForever \<and>
    verifyUserPassword L u pwd s = Inl WaitsForever"
proof -
  note wait = db_take_exhausted [OF assms, of L]
  have "handleUserFileCount L u k s = Inl WaitsForever" for k
    unfolding handleUserFileCount_def by (rule with_db_conn_exhausted [OF wait])
  moreover have "verifyUserPassword L u pwd s = Inl WaitsForever"
    unfolding verifyUserPassword_def by (rule with_db_conn_exhausted [OF wait])
  ultimately show ?thesis by (simp add: getUserFileList_def sbind_Inl)
qed

theorem exhausted_slave_blocks_witness:
  "verifyUserPassword lib_example ''u'' ''p'' (world_example\<lparr>w_db := Some
     [(''image_host_slave'', (db_pool_example ''image_host_slave'')\<lparr>dp_free_list := [], dp_cur_conn_cnt := 2, dp_live := 2\<rparr>)]\<rparr>) =
   Inl WaitsForever"
  using exhausted_slave_blocks [of "world_example\<lparr>w_db := Some
     [(''image_host_slave'', (db_pool_example ''image_host_slave'')\<lparr>dp_free_list := [], dp_cur_conn_cnt := 2, dp_live := 2\<rparr>)]\<rparr>"
     _ _ lib_example "''u''" 0 0 0 "''p''"]
  by (simp add: capacity_def db_pool_example_def DBPool_def)

end
