(* ===== verification/SharePicture.thy ===== *)
theory SharePicture
  imports MyFiles
begin

text \<open>
  The handler for shared pictures (\<^verbatim>\<open>src/api/sharepicture.cc\<close>): sharing a picture, browsing one and
  counting the visit, listing the shared pictures of a user.
\<close>

section \<open>Definitions\<close>

definition HTTP_RESP_OK :: int where
  "HTTP_RESP_OK = 0"

definition HTTP_RESP_FAIL :: int where
  "HTTP_RESP_FAIL = 1"

text \<open>The result code, user name, token, md5 and file name. The first test reads a member with a
  misspelt name.\<close>

definition decodeSharePictureJson ::
  "('v, 'w) libs \<Rightarrow> string \<Rightarrow> (int \<times> string \<times> string \<times> string \<times> string) res" where
  "decodeSharePictureJson L str_json =
     (case js_parse L str_json of
        None \<Rightarrow> Inr (-1, [], [], [], [])
      | Some root \<Rightarrow>
          rbind (js_member L root ''tokeen'') (\<lambda>v.
          if js_isNull L v then Inr (-1, [], [], [], [])
          else rbind (rbind (js_member L root ''token'') (js_asString L)) (\<lambda>token.
          rbind (json_string L root ''user'') (\<lambda>u. case u of
            None \<Rightarrow> Inr (-1, [], token, [], [])
          | Some user_name \<Rightarrow>
          rbind (json_string L root ''md5'') (\<lambda>m. case m of
            None \<Rightarrow> Inr (-1, user_name, token, [], [])
          | Some md5 \<Rightarrow>
          rbind (json_string L root ''filename'') (\<lambda>f. case f of
            None \<Rightarrow> Inr (-1, user_name, token, md5, [])
          | Some filename \<Rightarrow> Inr (0, user_name, token, md5, filename)))))))"

definition encodeSharePictureJson :: "('v, 'w) libs \<Rightarrow> int \<Rightarrow> string \<Rightarrow> string" where
  "encodeSharePictureJson L ret urlmd5 =
     (let root = jset ''code'' (JInt ret) JNull;
          root = (if HTTP_RESP_OK = ret then jset ''urlmd5'' (JStr urlmd5) root else root)
      in js_fast L root)"

definition share_insert :: "string \<Rightarrow> string \<Rightarrow> string \<Rightarrow> string \<Rightarrow> string \<Rightarrow> string" where
  "share_insert user filemd5 file_name urlmd5 create_time = FormatString
     ''insert into share_picture_list(user, filemd5, file_name, urlmd5, `key`, pv, create_time) value('%s', '%s', '%s', '%s', '%s', %d, '%s');''
     [FStr user, FStr filemd5, FStr file_name, FStr urlmd5, FStr [], FInt 0, FStr create_time]"

text \<open>The result code and the response.\<close>

definition handleSharePicture ::
  "('v, 'w) libs \<Rightarrow> string \<Rightarrow> string \<Rightarrow> string \<Rightarrow> ('w world, int \<times> string) stm" where
  "handleSharePicture L user filemd5 file_name =
     with_db_conn L ''image_host_slave'' (\<lambda>connection.
       sbind (RandomString L 32) (\<lambda>urlmd5.
       sbind (env_do (sys_time L)) (\<lambda>now.
       sbind (db_update L connection
                (share_insert user filemd5 file_name urlmd5 (sys_format_time L now)) True) (\<lambda>updated.
         let retval = (if \<not> updated then -1 else 0)
         in sret (retval, encodeSharePictureJson L
                   (if retval = 0 then HTTP_RESP_OK else HTTP_RESP_FAIL) urlmd5)))))"

text \<open>The member that is tested is named by the out parameter itself, which the caller passes empty.\<close>

definition decodeBrowsePictureJson :: "('v, 'w) libs \<Rightarrow> string \<Rightarrow> string \<Rightarrow> (int \<times> string) res" where
  "decodeBrowsePictureJson L str_json urlmd5 =
     (case js_parse L str_json of
        None \<Rightarrow> Inr (-1, urlmd5)
      | Some root \<Rightarrow>
          rbind (js_member L root urlmd5) (\<lambda>v.
          if js_isNull L v then Inr (-1, urlmd5)
          else rbind (rbind (js_member L root ''urlmd5'') (js_asString L)) (\<lambda>urlmd5. Inr (0, urlmd5))))"

definition encodeBrowsePictureJson ::
  "('v, 'w) libs \<Rightarrow> int \<Rightarrow> int \<Rightarrow> string \<Rightarrow> string \<Rightarrow> string \<Rightarrow> string" where
  "encodeBrowsePictureJson L ret pv url user time =
     (let root = jset ''code'' (JInt ret) JNull;
          root = (if ret = 0
                  then jset ''time'' (JStr time) (jset ''user'' (JStr user)
                         (jset ''url'' (JStr url) (jset ''pv'' (JInt pv) root)))
                  else root)
      in js_fast L root)"

record shared_picture =
  sp_user :: string
  sp_filemd5 :: string
  sp_file_name :: string
  sp_pv :: int
  sp_create_time :: string

definition browse_query :: "string \<Rightarrow> string" where
  "browse_query urlmd5 = FormatString
     ''selece user, filemd5, file_name, pv, create_time from share_picture_list where urlmd5 = '%s';''
     [FStr urlmd5]"

text \<open>The five reads of the first query; the md5 of the file is read from a column the query does not
  select.\<close>

definition read_shared_picture :: "result_set \<Rightarrow> shared_picture res" where
  "read_shared_picture r =
     rbind (get_std_string r ''user'') (\<lambda>user.
     rbind (get_std_string r ''urlmd5'') (\<lambda>filemd5.
     rbind (get_std_string r ''file_name'') (\<lambda>file_name.
     rbind (getInt r ''pv'') (\<lambda>pv.
     rbind (get_std_string r ''create_time'') (\<lambda>create_time.
       Inr \<lparr>sp_user = user, sp_filemd5 = filemd5, sp_file_name = file_name, sp_pv = pv,
            sp_create_time = create_time\<rparr>)))))"

text \<open>The code behind the label \<open>END\<close>, for a failure. The counter is printed only on success.\<close>

definition browse_failed :: "('v, 'w) libs \<Rightarrow> int \<times> string" where
  "browse_failed L = (-1, encodeBrowsePictureJson L HTTP_RESP_FAIL 0 [] [] [])"

definition handleBrowsePicture :: "('v, 'w) libs \<Rightarrow> string \<Rightarrow> ('w world, int \<times> string) stm" where
  "handleBrowsePicture L urlmd5 =
     with_db_conn L ''image_host_master'' (\<lambda>connection.
       sbind (db_query L connection (browse_query urlmd5)) (\<lambda>result.
         case first_row result of
           None \<Rightarrow> sret (browse_failed L)
         | Some r \<Rightarrow>
             sbind (slift (read_shared_picture r)) (\<lambda>sp.
             sbind (db_query L connection
               (FormatString ''select url from file_info where md5 = '%s';'' [FStr (sp_filemd5 sp)])) (\<lambda>result.
               case first_row result of
                 None \<Rightarrow> sret (browse_failed L)
               | Some r \<Rightarrow>
                   sbind (slift (get_std_string r ''url'')) (\<lambda>picture_url.
                   let pv = to_int32 (sp_pv sp + 1)
                   in sbind (db_update L connection
                        (FormatString ''update share_picture_list set pv = %d where urlmd5 = '%s';''
                           [FInt pv, FStr urlmd5]) True) (\<lambda>updated.
                        if \<not> updated then sret (browse_failed L)
                        else sret (0, encodeBrowsePictureJson L HTTP_RESP_OK pv picture_url (sp_user sp)
                                        (sp_create_time sp))))))))"

definition decodePictureListJson ::
  "('v, 'w) libs \<Rightarrow> string \<Rightarrow> int \<Rightarrow> int \<Rightarrow> (int \<times> string \<times> string \<times> int \<times> int) res" where
  "decodePictureListJson L str_json start count =
     (case js_parse L str_json of
        None \<Rightarrow> Inr (-1, [], [], start, count)
      | Some root \<Rightarrow>
          rbind (json_string L root ''token'') (\<lambda>t. case t of
            None \<Rightarrow> Inr (-1, [], [], start, count)
          | Some token \<Rightarrow>
          rbind (json_string L root ''user'') (\<lambda>u. case u of
            None \<Rightarrow> Inr (-1, [], token, start, count)
          | Some user_name \<Rightarrow>
          rbind (json_int L root ''start'') (\<lambda>i. case i of
            None \<Rightarrow> Inr (-1, user_name, token, start, count)
          | Some start \<Rightarrow>
          rbind (json_int L root ''count'') (\<lambda>i. case i of
            None \<Rightarrow> Inr (-1, user_name, token, start, count)
          | Some count \<Rightarrow> Inr (0, user_name, token, start, count))))))"

definition getSharedPictureCount ::
  "('v, 'w) libs \<Rightarrow> conn option \<Rightarrow> string \<Rightarrow> ('w world, int \<times> int) stm" where
  "getSharedPictureCount L connection user_name =
     sbind (getSharedPictureCountByUsername L connection user_name) (\<lambda>(r, count).
       sret (if r < 0 then -1 else 0, count))"

definition picture_columns :: "(string \<times> string \<times> bool) list" where
  "picture_columns =
     [(''user'', ''user'', False), (''filemd5'', ''filemd5'', False), (''file_name'', ''file_name'', False),
      (''urlmd5'', ''urlmd5'', False), (''pv'', ''pv'', True), (''create_time'', ''create_time'', False),
      (''size'', ''size'', True)]"

text \<open>The two parts of the text are pasted together without a space between them.\<close>

definition picture_list_query :: "string \<Rightarrow> int \<Rightarrow> int \<Rightarrow> string" where
  "picture_list_query user start count = FormatString
     (''select share_picture_list.user, share_picture_list.filemd5, share_picture_list.file_name, share_pciture_list.urlmd5, share_picture_list.pv, share_picture_list.create_time, file_info.size'' @
      ''from file_info, share_picture_list where share_picture_list.user = '%s' and file_info.md5 = share_picture_list.filemd5 limit %d, %d;'')
     [FStr user, FInt start, FInt count]"

text \<open>The response. On a failure the code is put into a second object that shadows the first, which is
  printed as it is: null.\<close>

definition handleGetSharePictureList ::
  "('v, 'w) libs \<Rightarrow> string \<Rightarrow> int \<Rightarrow> int \<Rightarrow> ('w world, string) stm" where
  "handleGetSharePictureList L user start count =
     with_db_conn L ''image_host_slave'' (\<lambda>connection.
       sbind (getSharedPictureCount L connection user) (\<lambda>(ret, all).
         if ret \<noteq> 0 then sret (js_styled L JNull)
         else sbind (db_query L connection (picture_list_query user start count)) (\<lambda>result.
           case result of
             None \<Rightarrow> sret (js_styled L JNull)
           | Some r \<Rightarrow>
               sbind (slift (json_rows picture_columns r JNull 0)) (\<lambda>(files, file_count).
                 let root = (if file_count > 0 then jset ''files'' files JNull else JNull)
                 in sret (js_styled L
                      (jset ''total'' (JInt all) (jset ''count'' (JInt file_count) (jset ''code'' (JInt 0) root))))))))"

text \<open>\<open>cmd\<close> is what the uninitialised array of 20 characters holds. The response is empty for a command
  the handler does not know; the token is read but never checked.\<close>

definition apiSharePicture ::
  "('v, 'w) libs \<Rightarrow> string \<Rightarrow> string \<Rightarrow> string \<Rightarrow> ('w world, int \<times> string) stm" where
  "apiSharePicture L cmd url post_data =
     sbind (slift (QueryParseKeyValue (c_str url) ''cmd'' cmd)) (\<lambda>(_, cmd, _).
     sbind (slift (strcmp_eq cmd ''share'')) (\<lambda>is_share.
       if is_share then
         sbind (slift (decodeSharePictureJson L post_data)) (\<lambda>(retval, user_name, token, md5, filename).
           if retval = 0 then
             sbind (handleSharePicture L (c_str user_name) (c_str md5) (c_str filename))
               (\<lambda>(_, str_json). sret (retval, str_json))
           else sret (retval, encodeSharePictureJson L HTTP_RESP_FAIL []))
       else sbind (slift (strcmp_eq cmd ''browse'')) (\<lambda>is_browse.
       if is_browse then
         sbind (slift (decodeBrowsePictureJson L post_data [])) (\<lambda>(retval, urlmd5).
           if retval = 0 then
             sbind (handleBrowsePicture L (c_str urlmd5)) (\<lambda>(_, str_json). sret (retval, str_json))
           else sret (retval, encodeSharePictureJson L HTTP_RESP_FAIL urlmd5))
       else sbind (slift (strcmp_eq cmd ''normal'')) (\<lambda>is_normal.
       if is_normal then
         sbind (slift (decodePictureListJson L post_data 0 0)) (\<lambda>(retval, user_name, token, start, count).
           if retval = 0 then
             sbind (handleGetSharePictureList L (c_str user_name) start count) (\<lambda>str_json. sret (retval, str_json))
           else sret (retval, encodeSharePictureJson L HTTP_RESP_FAIL []))
       else sret (0, [])))))"

section \<open>Lemmas\<close>

lemma getSharedPictureCount_frames [frame_intros]:
  "framed db_frame (getSharedPictureCount L c u)" "framed cache_frame (getSharedPictureCount L c u)"
  unfolding getSharedPictureCount_def by (intro frame_intros)+

lemma share_frames [frame_intros]:
  "framed cache_frame (handleSharePicture L u m f)"
  "framed cache_frame (handleBrowsePicture L url)"
  "framed cache_frame (handleGetSharePictureList L u a b)"
  unfolding handleSharePicture_def handleBrowsePicture_def handleGetSharePictureList_def Let_def
  by (intro frame_intros)+

lemma share_db_steady [steady_intros]:
  "db_steady (handleSharePicture L u m f)"
  "db_steady (handleBrowsePicture L url)"
  "db_steady (handleGetSharePictureList L u a b)"
  unfolding handleSharePicture_def handleBrowsePicture_def handleGetSharePictureList_def Let_def
  by (intro steady_intros frame_intros)+

lemma apiSharePicture_frame [frame_intros]: "framed cache_frame (apiSharePicture L cmd url data)"
  unfolding apiSharePicture_def by (intro frame_intros)

lemma apiSharePicture_steady [steady_intros]:
  "db_steady (apiSharePicture L cmd url data)" "cache_steady (apiSharePicture L cmd url data)"
proof -
  show "db_steady (apiSharePicture L cmd url data)"
    unfolding apiSharePicture_def by (intro steady_intros)
  show "cache_steady (apiSharePicture L cmd url data)"
    by (rule cache_steady_framed [OF apiSharePicture_frame])
qed

section \<open>Computations that do not look at the cache\<close>

text \<open>Such a computation runs the same whatever the cache manager is, and hands it on unchanged.\<close>

definition ignores_cache :: "('w world, 'a) stm \<Rightarrow> bool" where
  "ignores_cache m \<longleftrightarrow>
     (\<forall>s c. m (s\<lparr>w_cache := c\<rparr>) = map_sum id (apsnd (\<lambda>s'. s'\<lparr>w_cache := c\<rparr>)) (m s))"

named_theorems ignore_intros "computations that do not look at the cache"

lemma ignores_basic [ignore_intros]:
  "ignores_cache (sret a)" "ignores_cache (slift r)" "ignores_cache (env_do f)"
  by (auto simp: ignores_cache_def slift_def rbind_def env_do_def split: sum.splits prod.splits)

lemma ignores_sbind [ignore_intros]:
  assumes "ignores_cache m" "\<And>a. ignores_cache (f a)"
  shows "ignores_cache (sbind m f)"
  unfolding ignores_cache_def
proof (intro allI)
  fix s c
  show "sbind m f (s\<lparr>w_cache := c\<rparr>) = map_sum id (apsnd (\<lambda>s'. s'\<lparr>w_cache := c\<rparr>)) (sbind m f s)"
  proof (cases "m s")
    case (Inl e)
    then show ?thesis using assms(1) by (simp add: ignores_cache_def sbind_def)
  next
    case (Inr r)
    then show ?thesis
      using assms by (cases r) (simp add: ignores_cache_def sbind_def)
  qed
qed

lemma ignores_control [ignore_intros]:
  "ignores_cache m \<Longrightarrow> ignores_cache n \<Longrightarrow> ignores_cache (if b then m else n)"
  "ignores_cache m \<Longrightarrow> (\<And>a. ignores_cache (g a)) \<Longrightarrow> ignores_cache (case x of None \<Rightarrow> m | Some a \<Rightarrow> g a)"
  "(\<And>a b. ignores_cache (h a b)) \<Longrightarrow> ignores_cache (case p of (a, b) \<Rightarrow> h a b)"
  by (auto split: option.split prod.split)

lemma ignores_db [ignore_intros]:
  "ignores_cache (db_take L n)" "ignores_cache (db_auto_rel conn)"
  "ignores_cache (db_query L conn sql)" "ignores_cache (db_update L conn sql b)"
proof -
  have "ignores_cache (db_getInstance L)" "ignores_cache (db_getConn L n)"
    by (auto simp: ignores_cache_def db_getInstance_def db_getConn_def rbind_def split: sum.splits option.splits)
  then show "ignores_cache (db_take L n)" unfolding db_take_def by (intro ignore_intros)
  show "ignores_cache (db_auto_rel conn)" by (simp add: ignores_cache_def db_auto_rel_def)
  show "ignores_cache (db_query L conn sql)" "ignores_cache (db_update L conn sql b)"
    by (cases conn; simp add: db_query_def db_update_def ignore_intros)+
qed

lemma ignores_with_db [ignore_intros]:
  "(\<And>c. ignores_cache (body c)) \<Longrightarrow> ignores_cache (with_db_conn L n body)"
  unfolding with_db_conn_def by (intro ignore_intros)

lemma ignores_random [ignore_intros]: "ignores_cache (random_loop L n str)"
  by (induction n arbitrary: str) (simp_all add: ignore_intros)

section \<open>Properties\<close>

text \<open>C27. Sharing, browsing and listing shared pictures never check the token: the handler does the same and
  answers the same whatever the token store holds, or if there is none at all.\<close>

theorem apiSharePicture_ignores_tokens:
  "apiSharePicture L cmd url data (s\<lparr>w_cache := c\<rparr>) =
     map_sum id (apsnd (\<lambda>s'. s'\<lparr>w_cache := c\<rparr>)) (apiSharePicture L cmd url data s)"
proof -
  have "ignores_cache (apiSharePicture L cmd url data)"
    unfolding apiSharePicture_def handleSharePicture_def handleBrowsePicture_def handleGetSharePictureList_def
      getSharedPictureCount_def getSharedPictureCountByUsername_def RandomString_def Let_def
    by (intro ignore_intros)
  then show ?thesis by (simp add: ignores_cache_def)
qed

text \<open>Browsing a shared picture that exists reads a null pointer: the query selects the columns it is
  asked for, and the md5 of the file is then read from a column that is not among them.\<close>

theorem handleBrowsePicture_hit_faults:
  assumes "db_take L ''image_host_master'' s = Inr (Some c, s0)"
    and "executeQuery (lib_mysql L) c (browse_query url) (w_env s0) =
      (Some (ResultSet \<lparr>res_fields = [''user'', ''filemd5'', ''file_name'', ''pv'', ''create_time''],
                        res_rows = [Some user # cells]\<rparr>), n, e)"
  shows "handleBrowsePicture L url s = Inl NullDeref"
proof -
  let ?r = "(ResultSet \<lparr>res_fields = [''user'', ''filemd5'', ''file_name'', ''pv'', ''create_time''],
      res_rows = [Some user # cells]\<rparr>)\<lparr>rs_row := Row (Some user # cells), rs_rest := []\<rparr>"
  have "rs_key_map ?r = [(''create_time'', 4), (''file_name'', 2), (''filemd5'', 1), (''pv'', 3), (''user'', 0)]"
    by (simp add: ResultSet_def om_empty_def less_char_def)
  then have "read_shared_picture ?r = Inl NullDeref"
    by (simp add: read_shared_picture_def get_std_string_def getString_def getIndex_def row_cell_def
        string_of_ptr_def Let_def)
  then show ?thesis
    using assms by (simp add: handleBrowsePicture_def with_db_conn_def sbind_run db_query_def env_do_def first_row_one)
qed

definition browse_res :: mysql_res where
  "browse_res = \<lparr>res_fields = [''user'', ''filemd5'', ''file_name'', ''pv'', ''create_time''],
     res_rows = [[Some ''u'', Some ''m'', Some ''f'', Some ''1'', Some ''t'']]\<rparr>"

definition browse_lib :: "(jval, mem) libs" where
  "browse_lib = lib_example\<lparr>lib_mysql := quiet_mysql\<lparr>my_store_result := \<lambda>c w. (Some browse_res, w)\<rparr>\<rparr>"

lemma master_take_example:
  "db_take L ''image_host_master'' world_example =
     Inr (Some (Conn ''image_host_master'' 0), world_example\<lparr>w_db :=
       Some [(''image_host_master'', (db_pool_example ''image_host_master'')\<lparr>dp_free_list := []\<rparr>),
             (''image_host_slave'', db_pool_example ''image_host_slave'')]\<rparr>)"
  by (simp add: db_take_def sbind_def db_getInstance_def dbm_getInstance_def db_getConn_def getConn_def
      getConnection_def dp_enter_def dp_pop_def world_example_def db_pool_example_def DBPool_def)

theorem handleBrowsePicture_hit_faults_witness:
  "handleBrowsePicture browse_lib ''x'' world_example = Inl NullDeref"
proof -
  have "executeQuery (lib_mysql browse_lib) c q e = (Some (ResultSet browse_res), 1, e)" for c q e
    by (simp add: executeQuery_def run_query_def browse_lib_def lib_example_def quiet_mysql_def browse_res_def)
  from handleBrowsePicture_hit_faults [OF master_take_example this [unfolded browse_res_def]]
  show ?thesis .
qed

end
