(* ===== verification/Upload.thy ===== *)
theory Upload
  imports Common
begin

text \<open>
  The upload handler (\<^verbatim>\<open>src/api/upload.cc\<close>): cutting the fields out of the form, renaming the stored
  file, handing it to the storage program, asking for its address, and recording it in the database.

  The handler works in character arrays it does not initialise; what they hold at first is a parameter.
  Of the two processes after a \<open>fork\<close> only the parent is described; the child is replaced by the
  program it runs, named with its arguments to \<open>sys_fork\<close>. (The code passes the path as a string object
  where a pointer belongs; the model passes its text.)
\<close>

section \<open>Definitions\<close>

text \<open>The two settings that are read later.\<close>

definition apiUploadInit :: "string \<Rightarrow> string \<Rightarrow> ('w world, int) stm" where
  "apiUploadInit dfs_path_client storage_web_server_ip s =
     Inr (0, s\<lparr>w_dfs_path_client := dfs_path_client, w_web_server_ip := storage_web_server_ip\<rparr>)"

record upload_bufs =
  ub_suffix :: string
  ub_boundary :: string
  ub_file_name :: string
  ub_file_content_type :: string
  ub_file_path :: string
  ub_new_file_path :: string
  ub_file_md5 :: string
  ub_file_size :: string
  ub_user :: string
  ub_read :: string
  ub_stat :: string
  ub_host :: string
  ub_child :: string
  ub_sql :: string
  ub_sql_suffix :: string

subsection \<open>The storage programs\<close>

text \<open>One \<open>read\<close> into an array: the bytes that came, then what was there.\<close>

definition read_into :: "('v, 'w) libs \<Rightarrow> string \<Rightarrow> ('w world, string) stm" where
  "read_into L buf =
     sbind (env_do (sys_read L (length buf))) (\<lambda>bytes.
       sret (take (length buf) bytes @ drop (length bytes) buf))"

text \<open>The result, and the identifier of the stored file.\<close>

definition uploadFileToFastDfs ::
  "('v, 'w) libs \<Rightarrow> string \<Rightarrow> string \<Rightarrow> string \<Rightarrow> ('w world, bool \<times> string) stm" where
  "uploadFileToFastDfs L buf file_path fileid =
     sbind (sget w_dfs_path_client) (\<lambda>dfs_path_client.
      if dfs_path_client = [] then sret (False, fileid)
      else
        sbind (env_do (sys_pipe L)) (\<lambda>piped.
        if \<not> piped then sret (False, fileid)
        else sbind (env_do (sys_fork L ''fdfs_upload_file'' [c_str dfs_path_client, file_path])) (\<lambda>forked.
        if \<not> forked then sret (False, fileid)
        else sbind (read_into L buf) (\<lambda>buf.
             sbind (slift (TrimSpace (Some buf))) (\<lambda>(_, buf).
             sbind (slift (buf_str buf)) (\<lambda>text.
               if text = [] then sret (False, fileid) else sret (True, text)))))))"

definition host_marker :: string where
  "host_marker = ''source ip address: ''"

text \<open>The host name is copied, and then not used.\<close>

definition copy_host :: "string \<Rightarrow> string \<Rightarrow> string res" where
  "copy_host stat host =
     rbind (buf_str stat) (\<lambda>stat.
       case strstr stat host_marker of
         None \<Rightarrow> Inl NullDeref
       | Some p \<Rightarrow>
           (let q = p + length host_marker
            in case strstr (drop q stat) [LF] of
                 None \<Rightarrow> Inl OutOfBounds
               | Some n \<Rightarrow>
                   rbind (strncpy host (drop q stat) n) (\<lambda>host. buf_set host n NUL)))"

definition getFullUrlByFileId ::
  "('v, 'w) libs \<Rightarrow> upload_bufs \<Rightarrow> string \<Rightarrow> string \<Rightarrow> ('w world, bool \<times> string) stm" where
  "getFullUrlByFileId L b fileid fdfs_file_url =
     sbind (sget w_dfs_path_client) (\<lambda>dfs_path_client.
     sbind (sget w_web_server_ip) (\<lambda>storage_web_server_ip.
      if storage_web_server_ip = [] then sret (False, fdfs_file_url)
      else
        sbind (env_do (sys_pipe L)) (\<lambda>piped.
        if \<not> piped then sret (False, fdfs_file_url)
        else sbind (env_do (sys_fork L ''fdfs_file_info'' [c_str dfs_path_client, c_str (ub_child b)])) (\<lambda>forked.
        if \<not> forked then sret (False, fdfs_file_url)
        else sbind (read_into L (ub_stat b)) (\<lambda>stat.
             sbind (slift (copy_host stat (ub_host b))) (\<lambda>host.
               sret (True, ''http://'' @ storage_web_server_ip @ ''/'' @ fileid)))))))"

subsection \<open>The database\<close>

text \<open>An array after \<open>snprintf\<close>, and a statement executed from it with a length of its own.\<close>

definition snprintf_into :: "string \<Rightarrow> string \<Rightarrow> string" where
  "snprintf_into buf out =
     (let t = snprintf_str (length buf) out in t @ NUL # drop (Suc (length t)) buf)"

definition update_from_buffer ::
  "('v, 'w) libs \<Rightarrow> conn option \<Rightarrow> string \<Rightarrow> nat \<Rightarrow> ('w world, bool) stm" where
  "update_from_buffer L conn buf sql_len =
     (case conn of
        None \<Rightarrow> slift (Inl NullDeref)
      | Some _ \<Rightarrow> sbind (slift (sql_bytes buf sql_len)) (\<lambda>sql. db_update L conn sql False))"

definition file_info_insert :: "string \<Rightarrow> string \<Rightarrow> string \<Rightarrow> int \<Rightarrow> string \<Rightarrow> string" where
  "file_info_insert md5 fileid url file_bytes sfx = FormatString
     ''insert into file_info(md5, file_id, url, size, type, count) values('%s', '%s', '%s', '%ld', '%s', %d);''
     [FStr md5, FStr fileid, FStr url, FInt file_bytes, FStr sfx, FInt 1]"

definition user_file_insert :: "string \<Rightarrow> string \<Rightarrow> string \<Rightarrow> string \<Rightarrow> string" where
  "user_file_insert user md5 create_time filename = FormatString
     ''insert into user_file_list(user, md5, create_time, file_name, shared_status, pv) values ('%s', '%s', '%s', '%s',  %d, %d);''
     [FStr user, FStr md5, FStr create_time, FStr filename, FInt 0, FInt 0]"

text \<open>The length given to the database is that of the whole statement, not of what the array holds.\<close>

definition storeFileInfo ::
  "('v, 'w) libs \<Rightarrow> upload_bufs \<Rightarrow> conn option \<Rightarrow> string \<Rightarrow> string \<Rightarrow> string \<Rightarrow> int \<Rightarrow> string \<Rightarrow> string \<Rightarrow>
     ('w world, bool) stm" where
  "storeFileInfo L b db_conn user filename md5 file_size fileid url =
     sbind (slift (GetFileSuffix (Some filename) (ub_sql_suffix b))) (\<lambda>(_, sfx).
     sbind (slift (buf_str sfx)) (\<lambda>sfx.
       let sql = file_info_insert md5 fileid url file_size sfx;
           sql_cmd = snprintf_into (ub_sql b) sql
       in sbind (update_from_buffer L db_conn sql_cmd (length sql)) (\<lambda>updated.
          if \<not> updated then sret False
          else sbind (env_do (sys_time L)) (\<lambda>now.
            let sql = user_file_insert user md5 (sys_format_time L now) filename
            in update_from_buffer L db_conn (snprintf_into sql_cmd sql) (length sql)))))"

subsection \<open>The form\<close>

text \<open>A search from a position of the text; a position past the end is out of bounds.\<close>

definition strstr_at :: "string \<Rightarrow> nat \<Rightarrow> string \<Rightarrow> nat option res" where
  "strstr_at s i pat =
     (if i \<le> length s then Inr (map_option ((+) i) (strstr (drop i s) pat)) else Inl OutOfBounds)"

text \<open>From a position on the line that names the field: to the end of that line, over the empty line,
  and the text up to the end of the next line into the array, without a terminator. A search that
  fails leaves a null pointer to be moved, or a length that is out of all bounds. The second component
  is where the search goes on.\<close>

definition copy_field :: "string \<Rightarrow> nat \<Rightarrow> string \<Rightarrow> (string \<times> nat) res" where
  "copy_field s i buf =
     rbind (strstr_at s i CRLF) (\<lambda>p2. case p2 of
       None \<Rightarrow> Inl NullDeref
     | Some p2 \<Rightarrow>
         (let start = p2 + 4
          in rbind (strstr_at s start CRLF) (\<lambda>p2. case p2 of
               None \<Rightarrow> Inl OutOfBounds
             | Some p2 \<Rightarrow>
                 rbind (strncpy buf (drop start s) (p2 - start)) (\<lambda>buf. Inr (buf, p2 + 2)))))"

definition form_field :: "string \<Rightarrow> nat \<Rightarrow> string \<Rightarrow> string \<Rightarrow> (string \<times> nat) option res" where
  "form_field s i name buf =
     rbind (strstr_at s i name) (\<lambda>p2. case p2 of
       None \<Rightarrow> Inr None
     | Some p2 \<Rightarrow> rbind (copy_field s p2 buf) (\<lambda>r. Inr (Some r)))"

text \<open>The first field is searched for, but copied from the line after the boundary.\<close>

definition first_field :: "string \<Rightarrow> nat \<Rightarrow> string \<Rightarrow> string \<Rightarrow> (string \<times> nat) option res" where
  "first_field s i name buf =
     rbind (strstr_at s i name) (\<lambda>p2. case p2 of
       None \<Rightarrow> Inr None
     | Some _ \<Rightarrow> rbind (copy_field s i buf) (\<lambda>r. Inr (Some r)))"

definition field_name :: "string \<Rightarrow> string" where
  "field_name n = ''name='' @ CHR 0x22 # n @ [CHR 0x22]"

text \<open>The next field, when the one before was there.\<close>

definition and_then :: "'a option res \<Rightarrow> ('a \<Rightarrow> 'b option res) \<Rightarrow> 'b option res" where
  "and_then m f = rbind m (\<lambda>x. case x of None \<Rightarrow> Inr None | Some a \<Rightarrow> f a)"

definition copy_boundary :: "string \<Rightarrow> string \<Rightarrow> nat option res" where
  "copy_boundary s buf =
     (case strstr s CRLF of
        None \<Rightarrow> Inr None
      | Some p1 \<Rightarrow>
          rbind (strncpy buf s p1) (\<lambda>buf. rbind (buf_set buf p1 NUL) (\<lambda>_. Inr (Some (p1 + 2)))))"

text \<open>The arrays with the fields, or nothing when one is missing.\<close>

definition parse_form :: "upload_bufs \<Rightarrow> string \<Rightarrow> upload_bufs option res" where
  "parse_form b post_data =
     (let s = c_str post_data
      in and_then (copy_boundary s (ub_boundary b)) (\<lambda>i.
         and_then (first_field s i (field_name ''file_name'') (ub_file_name b)) (\<lambda>(file_name, i).
         and_then (form_field s i (field_name ''file_content_type'') (ub_file_content_type b)) (\<lambda>(content_type, i).
         and_then (form_field s i (field_name ''file_path'') (ub_file_path b)) (\<lambda>(file_path, i).
         and_then (form_field s i (field_name ''file_md5'') (ub_file_md5 b)) (\<lambda>(file_md5, i).
         and_then (form_field s i (field_name ''file_size'') (ub_file_size b)) (\<lambda>(file_size, i).
         and_then (form_field s i (field_name ''user'') (ub_user b)) (\<lambda>(user, i).
           Inr (Some (b\<lparr>ub_file_name := file_name, ub_file_content_type := content_type,
             ub_file_path := file_path, ub_file_md5 := file_md5, ub_file_size := file_size,
             ub_user := user\<rparr>))))))))))"

subsection \<open>The handler\<close>

text \<open>The name of the file with its suffix is appended to an array that nobody cleared.\<close>

definition make_new_path :: "upload_bufs \<Rightarrow> string \<Rightarrow> string \<Rightarrow> string res" where
  "make_new_path b file_name file_path =
     rbind (GetFileSuffix (Some file_name) (ub_suffix b)) (\<lambda>(_, sfx).
     rbind (strcat (ub_new_file_path b) file_path) (\<lambda>p.
     rbind (strcat p ''.'') (\<lambda>p.
     rbind (buf_str sfx) (\<lambda>sfx.
     rbind (strcat p sfx) buf_str))))"

definition upload_failed :: "('v, 'w) libs \<Rightarrow> int \<times> string" where
  "upload_failed L = (-1, js_styled L (jset ''code'' (JInt 1) JNull))"

definition upload_form ::
  "('v, 'w) libs \<Rightarrow> upload_bufs \<Rightarrow> conn option \<Rightarrow> ('w world, int \<times> string) stm" where
  "upload_form L b dbconn =
     sbind (slift (strtol_buf (ub_file_size b))) (\<lambda>fileszl.
     sbind (slift (buf_str (ub_file_name b))) (\<lambda>file_name.
     sbind (slift (buf_str (ub_file_path b))) (\<lambda>file_path.
     sbind (slift (make_new_path b file_name file_path)) (\<lambda>new_file_path.
     sbind (env_do (sys_rename L file_path new_file_path)) (\<lambda>renamed.
     if \<not> renamed then sret (upload_failed L)
     else sbind (uploadFileToFastDfs L (ub_read b) new_file_path []) (\<lambda>(uploaded, fileid).
     sbind (env_do (sys_unlink L new_file_path)) (\<lambda>_.
     if \<not> uploaded then sret (upload_failed L)
     else sbind (getFullUrlByFileId L b fileid []) (\<lambda>(found, fdfs_file_url).
     if \<not> found then sret (upload_failed L)
     else sbind (slift (buf_str (ub_user b))) (\<lambda>user.
     sbind (slift (buf_str (ub_file_md5 b))) (\<lambda>file_md5.
     sbind (storeFileInfo L b dbconn user file_name file_md5 fileszl (c_str fileid)
              (c_str fdfs_file_url)) (\<lambda>stored.
     if \<not> stored then sret (upload_failed L)
     else sret (0, js_styled L (jset ''code'' (JInt 0) JNull)))))))))))))"

definition apiUpload :: "('v, 'w) libs \<Rightarrow> upload_bufs \<Rightarrow> string \<Rightarrow> ('w world, int \<times> string) stm" where
  "apiUpload L b post_data =
     with_db_conn L ''image_host_master'' (\<lambda>dbconn.
       sbind (slift (parse_form b post_data)) (\<lambda>form.
         case form of
           None \<Rightarrow> sret (upload_failed L)
         | Some b \<Rightarrow> upload_form L b dbconn))"

section \<open>Lemmas\<close>

lemma read_into_frame [frame_intros]: "framed db_frame (read_into L b)" "framed cache_frame (read_into L b)"
  unfolding read_into_def by (intro frame_intros)+

lemma storage_frames [frame_intros]:
  "framed db_frame (uploadFileToFastDfs L buf p f)" "framed cache_frame (uploadFileToFastDfs L buf p f)"
  "framed db_frame (getFullUrlByFileId L b f u)" "framed cache_frame (getFullUrlByFileId L b f u)"
  unfolding uploadFileToFastDfs_def getFullUrlByFileId_def by (intro frame_intros)+

lemma update_from_buffer_frame [frame_intros]:
  "framed db_frame (update_from_buffer L c b n)" "framed cache_frame (update_from_buffer L c b n)"
  unfolding update_from_buffer_def by (intro frame_intros)+

lemma storeFileInfo_frame [frame_intros]:
  "framed db_frame (storeFileInfo L b c u f m z i url)" "framed cache_frame (storeFileInfo L b c u f m z i url)"
  unfolding storeFileInfo_def Let_def by (intro frame_intros)+

lemma upload_form_frame [frame_intros]:
  "framed db_frame (upload_form L b c)" "framed cache_frame (upload_form L b c)"
  unfolding upload_form_def by (intro frame_intros)+

lemma apiUpload_frame [frame_intros]: "framed cache_frame (apiUpload L b data)"
  unfolding apiUpload_def by (intro frame_intros)

lemma apiUpload_steady [steady_intros]: "db_steady (apiUpload L b data)" "cache_steady (apiUpload L b data)"
proof -
  show "db_steady (apiUpload L b data)"
    unfolding apiUpload_def by (intro steady_intros frame_intros)
  show "cache_steady (apiUpload L b data)" by (rule cache_steady_framed [OF apiUpload_frame])
qed

subsection \<open>Cutting a form\<close>

text \<open>A pattern with a character that the text before it and the start of the pattern do not have is
  found where it stands.\<close>

lemma strstr_marker:
  assumes "c \<notin> set a" "c \<notin> set u"
  shows "strstr (a @ (u @ c # v) @ rest) (u @ c # v) = Some (length a)"
  unfolding strstr_Some_iff
proof (intro conjI allI impI notI)
  fix j
  assume j: "j < length a" "prefix (u @ c # v) (drop j (a @ (u @ c # v) @ rest))"
  then obtain zs where "drop j (a @ (u @ c # v) @ rest) = u @ c # (v @ zs)"
    by (auto simp: prefix_def)
  then have "drop j (a @ (u @ c # v) @ rest) ! length u = c"
    by (simp only: nth_append_length)
  moreover have "drop j (a @ (u @ c # v) @ rest) ! length u = ((a @ u) @ c # v @ rest) ! (j + length u)"
    using j(1) by (subst nth_drop) simp_all
  moreover have "((a @ u) @ c # v @ rest) ! (j + length u) = (a @ u) ! (j + length u)"
    using j(1) by (subst nth_append) simp
  moreover have "(a @ u) ! (j + length u) \<in> set (a @ u)"
    using j(1) by (intro nth_mem) simp
  ultimately show False using assms by simp
qed simp_all

lemma strstr_CRLF: "CR \<notin> set a \<Longrightarrow> strstr (a @ CRLF @ rest) CRLF = Some (length a)"
  using strstr_marker [of CR a "[]" "[LF]" rest] by simp

text \<open>One part of a form, and the form the web server in front of the program sends.\<close>

definition form_line :: "string \<Rightarrow> string" where
  "form_line n = ''Content-Disposition: form-data; '' @ field_name n"

definition form_value :: "string \<Rightarrow> string \<Rightarrow> string" where
  "form_value n v = form_line n @ CRLF @ CRLF @ v @ CRLF"

definition form_part :: "string \<Rightarrow> string \<Rightarrow> string \<Rightarrow> string" where
  "form_part bd n v = bd @ CRLF @ form_value n v"

definition upload_body :: "string \<Rightarrow> string \<Rightarrow> string \<Rightarrow> string \<Rightarrow> string \<Rightarrow> string \<Rightarrow> string \<Rightarrow> string \<Rightarrow> string" where
  "upload_body bd file_name content_type file_path md5 file_bytes user rest =
     form_part bd ''file_name'' file_name @ form_part bd ''file_content_type'' content_type @
     form_part bd ''file_path'' file_path @ form_part bd ''file_md5'' md5 @
     form_part bd ''file_size'' file_bytes @ form_part bd ''user'' user @ rest"

definition copied :: "string \<Rightarrow> string \<Rightarrow> string" where
  "copied v buf = v @ drop (length v) buf"

lemma copy_field_value:
  assumes "CR \<notin> set line" "CR \<notin> set v" "length v \<le> length buf"
  shows "copy_field (pre @ line @ CRLF @ CRLF @ v @ CRLF @ rest) (length pre) buf =
    Inr (copied v buf, length pre + length (line @ CRLF @ CRLF @ v @ CRLF))"
proof -
  let ?s = "pre @ line @ CRLF @ CRLF @ v @ CRLF @ rest"
  have "strstr_at ?s (length pre) CRLF = Inr (Some (length pre + length line))"
    using strstr_CRLF [OF assms(1), of "CRLF @ v @ CRLF @ rest"] by (simp add: strstr_at_def)
  moreover have "strstr_at ?s (length pre + length line + 4) CRLF =
      Inr (Some (length pre + length line + 4 + length v))"
    using strstr_CRLF [OF assms(2), of rest] by (simp add: strstr_at_def)
  ultimately show ?thesis
    using assms(3) by (simp add: copy_field_def strncpy_def strncpy_bytes_def copied_def)
qed

lemma form_line_no_CR: "CR \<notin> set n \<Longrightarrow> CR \<notin> set (form_line n)"
  by (simp add: form_line_def field_name_def)

lemma first_field_value:
  assumes "CR \<notin> set n" "CHR 0x22 \<notin> set n" "CR \<notin> set v" "length v \<le> length buf"
  shows "first_field (pre @ form_value n v @ rest) (length pre) (field_name n) buf =
    Inr (Some (copied v buf, length pre + length (form_value n v)))"
proof -
  let ?d = "''Content-Disposition: form-data; ''" and ?s = "pre @ form_value n v @ rest"
  have "strstr (?d @ (''name='' @ CHR 0x22 # n @ [CHR 0x22]) @ CRLF @ CRLF @ v @ CRLF @ rest)
      (''name='' @ CHR 0x22 # n @ [CHR 0x22]) = Some (length ?d)"
    by (rule strstr_marker) simp_all
  then have "strstr (form_value n v @ rest) (field_name n) = Some (length ?d)"
    by (simp only: form_value_def form_line_def field_name_def append_assoc)
  then have "strstr_at ?s (length pre) (field_name n) = Inr (Some (length pre + length ?d))"
    by (simp add: strstr_at_def)
  moreover have "copy_field ?s (length pre) buf =
      Inr (copied v buf, length pre + length (form_value n v))"
    using copy_field_value [OF form_line_no_CR [OF assms(1)] assms(3,4), of pre rest]
    by (simp add: form_value_def)
  ultimately show ?thesis by (simp add: first_field_def)
qed

lemma form_field_value:
  assumes "CR \<notin> set n" "CHR 0x22 \<notin> set n" "CHR 0x22 \<notin> set bd" "CR \<notin> set v" "length v \<le> length buf"
  shows "form_field (pre @ form_part bd n v @ rest) (length pre) (field_name n) buf =
    Inr (Some (copied v buf, length pre + length (form_part bd n v)))"
proof -
  let ?d = "bd @ CRLF @ ''Content-Disposition: form-data; ''" and ?s = "pre @ form_part bd n v @ rest"
  have "strstr (?d @ (''name='' @ CHR 0x22 # n @ [CHR 0x22]) @ CRLF @ CRLF @ v @ CRLF @ rest)
      (''name='' @ CHR 0x22 # n @ [CHR 0x22]) = Some (length ?d)"
    by (rule strstr_marker) (use assms(3) in simp_all)
  then have "strstr (form_part bd n v @ rest) (field_name n) = Some (length ?d)"
    by (simp only: form_part_def form_value_def form_line_def field_name_def append_assoc)
  then have "strstr_at ?s (length pre) (field_name n) = Inr (Some (length pre + length ?d))"
    by (simp add: strstr_at_def)
  moreover have "copy_field ((pre @ ?d) @ field_name n @ CRLF @ CRLF @ v @ CRLF @ rest)
      (length (pre @ ?d)) buf =
      Inr (copied v buf, length (pre @ ?d) + length (field_name n @ CRLF @ CRLF @ v @ CRLF))"
    by (rule copy_field_value) (use assms in \<open>simp_all add: field_name_def\<close>)
  then have "copy_field ?s (length pre + length ?d) buf =
      Inr (copied v buf, length pre + length (form_part bd n v))"
    by (simp add: form_part_def form_value_def form_line_def add_ac)
  ultimately show ?thesis by (simp add: form_field_def)
qed

lemma copy_boundary_value:
  assumes "CR \<notin> set bd" "length bd < length buf"
  shows "copy_boundary (bd @ CRLF @ rest) buf = Inr (Some (length (bd @ CRLF)))"
  using strstr_CRLF [OF assms(1), of rest] assms(2)
  by (simp add: copy_boundary_def strncpy_def buf_set_def)

text \<open>C30. A form with the six fields in their order, values and boundary within the arrays, is cut into
  the six values; behind each value its array keeps the bytes it had.\<close>

theorem parse_form_copies_fields:
  assumes "CHR 0x22 \<notin> set bd" "CR \<notin> set bd" "length bd < length (ub_boundary b)"
    and "NUL \<notin> set (upload_body bd fn ct fp md5 sz user rest)"
    and "CR \<notin> set (fn @ ct @ fp @ md5 @ sz @ user)"
    and "length fn \<le> length (ub_file_name b)" "length ct \<le> length (ub_file_content_type b)"
    and "length fp \<le> length (ub_file_path b)" "length md5 \<le> length (ub_file_md5 b)"
    and "length sz \<le> length (ub_file_size b)" "length user \<le> length (ub_user b)"
  shows "parse_form b (upload_body bd fn ct fp md5 sz user rest) =
    Inr (Some (b\<lparr>ub_file_name := copied fn (ub_file_name b),
      ub_file_content_type := copied ct (ub_file_content_type b),
      ub_file_path := copied fp (ub_file_path b), ub_file_md5 := copied md5 (ub_file_md5 b),
      ub_file_size := copied sz (ub_file_size b), ub_user := copied user (ub_user b)\<rparr>))"
proof -
  define p1 where "p1 = bd @ CRLF"
  define p2 where "p2 = p1 @ form_value ''file_name'' fn"
  define p3 where "p3 = p2 @ form_part bd ''file_content_type'' ct"
  define p4 where "p4 = p3 @ form_part bd ''file_path'' fp"
  define p5 where "p5 = p4 @ form_part bd ''file_md5'' md5"
  define p6 where "p6 = p5 @ form_part bd ''file_size'' sz"
  define r6 where "r6 = form_part bd ''user'' user @ rest"
  define r5 where "r5 = form_part bd ''file_size'' sz @ r6"
  define r4 where "r4 = form_part bd ''file_md5'' md5 @ r5"
  define r3 where "r3 = form_part bd ''file_path'' fp @ r4"
  define r2 where "r2 = form_part bd ''file_content_type'' ct @ r3"
  define s where "s = upload_body bd fn ct fp md5 sz user rest"
  have s: "s = bd @ CRLF @ form_value ''file_name'' fn @ r2" "s = p1 @ form_value ''file_name'' fn @ r2"
    "s = p2 @ form_part bd ''file_content_type'' ct @ r3" "s = p3 @ form_part bd ''file_path'' fp @ r4"
    "s = p4 @ form_part bd ''file_md5'' md5 @ r5" "s = p5 @ form_part bd ''file_size'' sz @ r6"
    "s = p6 @ form_part bd ''user'' user @ rest"
    by (simp_all add: s_def upload_body_def p1_def p2_def p3_def p4_def p5_def p6_def
        r2_def r3_def r4_def r5_def r6_def form_part_def)
  have "copy_boundary s (ub_boundary b) = Inr (Some (length p1))"
    by (subst s(1), subst copy_boundary_value) (use assms in \<open>simp_all add: p1_def\<close>)
  moreover have "first_field s (length p1) (field_name ''file_name'') (ub_file_name b) =
      Inr (Some (copied fn (ub_file_name b), length p2))"
    by (subst s(2), subst first_field_value) (use assms in \<open>simp_all add: p2_def\<close>)
  moreover have "form_field s (length p2) (field_name ''file_content_type'') (ub_file_content_type b) =
      Inr (Some (copied ct (ub_file_content_type b), length p3))"
    by (subst s(3), subst form_field_value) (use assms in \<open>simp_all add: p3_def\<close>)
  moreover have "form_field s (length p3) (field_name ''file_path'') (ub_file_path b) =
      Inr (Some (copied fp (ub_file_path b), length p4))"
    by (subst s(4), subst form_field_value) (use assms in \<open>simp_all add: p4_def\<close>)
  moreover have "form_field s (length p4) (field_name ''file_md5'') (ub_file_md5 b) =
      Inr (Some (copied md5 (ub_file_md5 b), length p5))"
    by (subst s(5), subst form_field_value) (use assms in \<open>simp_all add: p5_def\<close>)
  moreover have "form_field s (length p5) (field_name ''file_size'') (ub_file_size b) =
      Inr (Some (copied sz (ub_file_size b), length p6))"
    by (subst s(6), subst form_field_value) (use assms in \<open>simp_all add: p6_def\<close>)
  moreover have "form_field s (length p6) (field_name ''user'') (ub_user b) =
      Inr (Some (copied user (ub_user b), length (p6 @ form_part bd ''user'' user)))"
    by (subst s(7), subst form_field_value) (use assms in \<open>simp_all\<close>)
  moreover have "c_str s = s" using assms(4) by (simp add: c_str_id s_def)
  ultimately show ?thesis
    by (simp add: parse_form_def and_then_def s_def [symmetric])
qed

text \<open>The arrays as the code declares them, all cleared.\<close>

definition upload_bufs_zero :: upload_bufs where
  "upload_bufs_zero =
     \<lparr>ub_suffix = replicate 8 NUL, ub_boundary = replicate 512 NUL, ub_file_name = replicate 128 NUL,
      ub_file_content_type = replicate 128 NUL, ub_file_path = replicate 128 NUL,
      ub_new_file_path = replicate 128 NUL, ub_file_md5 = replicate 128 NUL,
      ub_file_size = replicate 32 NUL, ub_user = replicate 32 NUL, ub_read = replicate 512 NUL,
      ub_stat = replicate 512 NUL, ub_host = replicate 30 NUL, ub_child = replicate 512 NUL,
      ub_sql = replicate 512 NUL, ub_sql_suffix = replicate 8 NUL\<rparr>"

theorem parse_form_copies_fields_witness:
  "parse_form upload_bufs_zero
     (upload_body ''--b'' ''a.png'' ''image/png'' ''/tmp/1'' ''m5'' ''12'' ''joe'' ''--b--'') =
   Inr (Some (upload_bufs_zero\<lparr>ub_file_name := copied ''a.png'' (ub_file_name upload_bufs_zero),
      ub_file_content_type := copied ''image/png'' (ub_file_content_type upload_bufs_zero),
      ub_file_path := copied ''/tmp/1'' (ub_file_path upload_bufs_zero),
      ub_file_md5 := copied ''m5'' (ub_file_md5 upload_bufs_zero),
      ub_file_size := copied ''12'' (ub_file_size upload_bufs_zero),
      ub_user := copied ''joe'' (ub_user upload_bufs_zero)\<rparr>))"
  by (rule parse_form_copies_fields)
    (simp_all add: upload_bufs_zero_def upload_body_def form_part_def form_value_def form_line_def
      field_name_def)

text \<open>A file name shorter than its array is read together with whatever follows it there: without a
  NUL behind it the handler reads past the array.\<close>

theorem upload_reads_past_value:
  assumes "NUL \<notin> set name" "NUL \<notin> set (drop (length name) old)"
  shows "upload_form L (b\<lparr>ub_file_name := copied name old\<rparr>) c s = Inl OutOfBounds"
  using assms by (simp add: upload_form_def sbind_def slift_def buf_str_def copied_def strtol_buf_def Let_def)

theorem upload_reads_past_value_witness:
  "upload_form lib_example (upload_bufs_zero\<lparr>ub_file_name := copied ''a.png'' ''something''\<rparr>) (Some (Conn ''m'' 0))
     world_example = Inl OutOfBounds"
  by (rule upload_reads_past_value) simp_all

subsection \<open>Recording the file\<close>

lemma snprintf_into_fits:
  "length out < length buf \<Longrightarrow> length (snprintf_into buf out) = length buf \<and>
     sql_bytes (snprintf_into buf out) (length out) = Inr out"
  by (cases buf) (simp_all add: snprintf_into_def snprintf_str_def sql_bytes_def)

lemma snprintf_into_long:
  "buf \<noteq> [] \<Longrightarrow> length buf < length out \<Longrightarrow> sql_bytes (snprintf_into buf out) (length out) = Inl OutOfBounds"
  by (cases buf) (simp_all add: snprintf_into_def snprintf_str_def sql_bytes_def)

lemma update_from_buffer_fits:
  "length sql < length buf \<Longrightarrow>
   update_from_buffer L (Some c) (snprintf_into buf sql) (length sql) = db_update L (Some c) sql False"
  by (simp add: update_from_buffer_def snprintf_into_fits fun_eq_iff sbind_def slift_def)

text \<open>C31. Statements that fit the array reach the database as they were formatted: the file first, and
  when that succeeded, its entry in the list of the user.\<close>

theorem storeFileInfo_executes_inserts:
  assumes "GetFileSuffix (Some filename) (ub_sql_suffix b) = Inr (r, sfx_buf)" "buf_str sfx_buf = Inr sfx"
    and "length (file_info_insert md5 fileid url n sfx) < length (ub_sql b)"
    and "\<And>t. length (user_file_insert user md5 (sys_format_time L t) filename) < length (ub_sql b)"
  shows "storeFileInfo L b (Some c) user filename md5 n fileid url =
    sbind (db_update L (Some c) (file_info_insert md5 fileid url n sfx) False) (\<lambda>updated.
      if \<not> updated then sret False
      else sbind (env_do (sys_time L)) (\<lambda>now.
             db_update L (Some c) (user_file_insert user md5 (sys_format_time L now) filename) False))"
proof -
  let ?b = "snprintf_into (ub_sql b) (file_info_insert md5 fileid url n sfx)"
  have "length ?b = length (ub_sql b)" using snprintf_into_fits [OF assms(3)] by simp
  then have second: "update_from_buffer L (Some c) (snprintf_into ?b (user_file_insert user md5 (sys_format_time L t) filename))
      (length (user_file_insert user md5 (sys_format_time L t) filename)) =
    db_update L (Some c) (user_file_insert user md5 (sys_format_time L t) filename) False" for t
    by (intro update_from_buffer_fits) (simp add: assms(4))
  show ?thesis
    unfolding storeFileInfo_def assms(1) Let_def
    by (rule ext) (simp add: sbind_def slift_def assms(2) update_from_buffer_fits [OF assms(3)] second
        cong: if_cong)
qed

theorem storeFileInfo_executes_inserts_witness:
  "storeFileInfo lib_example upload_bufs_zero (Some (Conn ''m'' 0)) ''joe'' ''a.png'' ''m5'' 12 ''g/f'' ''http://h/g/f'' =
    sbind (db_update lib_example (Some (Conn ''m'' 0)) (file_info_insert ''m5'' ''g/f'' ''http://h/g/f'' 12 ''png'') False)
      (\<lambda>updated.
        if \<not> updated then sret False
        else sbind (env_do (sys_time lib_example)) (\<lambda>now.
               db_update lib_example (Some (Conn ''m'' 0))
                 (user_file_insert ''joe'' ''m5'' (sys_format_time lib_example now) ''a.png'') False))"
proof (rule storeFileInfo_executes_inserts)
  show "GetFileSuffix (Some ''a.png'') (ub_sql_suffix upload_bufs_zero) = Inr (0, ''png'' @ replicate 5 NUL)"
    by (simp add: GetFileSuffix_def upload_bufs_zero_def strncpy_def strncpy_bytes_def buf_set_def
        numeral_eq_Suc)
  show "buf_str (''png'' @ replicate 5 NUL) = Inr ''png''" by (simp add: buf_str_def c_str_def)
  show "length (file_info_insert ''m5'' ''g/f'' ''http://h/g/f'' 12 ''png'') < length (ub_sql upload_bufs_zero)"
    by (simp add: file_info_insert_def c_str_def dec_int_def dec_nat.simps upload_bufs_zero_def)
  show "length (user_file_insert ''joe'' ''m5'' (sys_format_time lib_example t) ''a.png'')
      < length (ub_sql upload_bufs_zero)" for t
    by (simp add: user_file_insert_def c_str_def dec_int_def dec_nat.simps upload_bufs_zero_def lib_example_def)
qed

text \<open>A statement longer than the array is cut in it, but its full length is handed on: the database
  client is told to read past the array.\<close>

theorem storeFileInfo_long_statement_faults:
  assumes "GetFileSuffix (Some filename) (ub_sql_suffix b) = Inr (r, sfx_buf)" "buf_str sfx_buf = Inr sfx"
    and "ub_sql b \<noteq> []" "length (ub_sql b) < length (file_info_insert md5 fileid url n sfx)"
  shows "storeFileInfo L b (Some c) user filename md5 n fileid url s = Inl OutOfBounds"
  using snprintf_into_long [OF assms(3,4)] assms(1,2)
  by (simp add: storeFileInfo_def update_from_buffer_def sbind_def slift_def Let_def)

theorem storeFileInfo_long_statement_faults_witness:
  "storeFileInfo lib_example (upload_bufs_zero\<lparr>ub_sql := replicate 16 NUL\<rparr>) (Some (Conn ''m'' 0)) ''joe''
     ''a.png'' ''m5'' 12 ''g/f'' ''http://h/g/f'' world_example = Inl OutOfBounds"
proof (rule storeFileInfo_long_statement_faults)
  let ?b = "upload_bufs_zero\<lparr>ub_sql := replicate 16 NUL\<rparr>"
  show "GetFileSuffix (Some ''a.png'') (ub_sql_suffix ?b) = Inr (0, ''png'' @ replicate 5 NUL)"
    by (simp add: GetFileSuffix_def upload_bufs_zero_def strncpy_def strncpy_bytes_def buf_set_def
        numeral_eq_Suc)
  show "buf_str (''png'' @ replicate 5 NUL) = Inr ''png''" by (simp add: buf_str_def c_str_def)
  show "ub_sql ?b \<noteq> []" by simp
  show "length (ub_sql ?b) < length (file_info_insert ''m5'' ''g/f'' ''http://h/g/f'' 12 ''png'')"
    by (simp add: file_info_insert_def c_str_def dec_int_def dec_nat.simps)
qed

end
