(* ===== verification/HttpChars.thy ===== *)
theory HttpChars
  imports CString
begin

text \<open>
  The tables and character classes of the HTTP parser (\<^verbatim>\<open>src/http_parser.cc\<close>, strict mode, which is the
  default of \<^verbatim>\<open>src/include/http_parser.h\<close>), its states, and the automaton of the request address. The
  tables are written out as the code has them; entries that the code does not give are zero, as C fills
  up an initialiser.
\<close>

unbundle bit_operations_syntax

section \<open>Tables\<close>

definition tokens_graph :: string where
  "tokens_graph =
    [NUL, CHR ''!'', NUL, CHR ''#'', CHR 0x24, CHR 0x25, CHR ''&'', CHR 0x27,
     NUL, NUL, CHR ''*'', CHR ''+'', NUL, CHR ''-'', CHR ''.'', NUL,
     CHR ''0'', CHR ''1'', CHR ''2'', CHR ''3'', CHR ''4'', CHR ''5'', CHR ''6'', CHR ''7'',
     CHR ''8'', CHR ''9'', NUL, NUL, NUL, NUL, NUL, NUL,
     NUL, CHR ''a'', CHR ''b'', CHR ''c'', CHR ''d'', CHR ''e'', CHR ''f'', CHR ''g'',
     CHR ''h'', CHR ''i'', CHR ''j'', CHR ''k'', CHR ''l'', CHR ''m'', CHR ''n'', CHR ''o'',
     CHR ''p'', CHR ''q'', CHR ''r'', CHR ''s'', CHR ''t'', CHR ''u'', CHR ''v'', CHR ''w'',
     CHR ''x'', CHR ''y'', CHR ''z'', NUL, NUL, NUL, CHR 0x5E, CHR ''_'',
     CHR 0x60, CHR ''a'', CHR ''b'', CHR ''c'', CHR ''d'', CHR ''e'', CHR ''f'', CHR ''g'',
     CHR ''h'', CHR ''i'', CHR ''j'', CHR ''k'', CHR ''l'', CHR ''m'', CHR ''n'', CHR ''o'',
     CHR ''p'', CHR ''q'', CHR ''r'', CHR ''s'', CHR ''t'', CHR ''u'', CHR ''v'', CHR ''w'',
     CHR ''x'', CHR ''y'', CHR ''z'', NUL, CHR 0x7C, NUL, CHR 0x7E, NUL]"

definition tokens :: string where
  "tokens = replicate 32 NUL @ tokens_graph @ replicate 128 NUL"


text \<open>The digits, the letters \<open>A\<close> to \<open>F\<close> and \<open>a\<close> to \<open>f\<close>; the code gives 128 of the 256 entries.\<close>

definition unhex :: "int list" where
  "unhex =
   [-1, -1, -1, -1, -1, -1, -1, -1, -1, -1, -1, -1, -1, -1, -1, -1,
    -1, -1, -1, -1, -1, -1, -1, -1, -1, -1, -1, -1, -1, -1, -1, -1,
    -1, -1, -1, -1, -1, -1, -1, -1, -1, -1, -1, -1, -1, -1, -1, -1,
    0, 1, 2, 3, 4, 5, 6, 7, 8, 9, -1, -1, -1, -1, -1, -1,
    -1, 10, 11, 12, 13, 14, 15, -1, -1, -1, -1, -1, -1, -1, -1, -1,
    -1, -1, -1, -1, -1, -1, -1, -1, -1, -1, -1, -1, -1, -1, -1, -1,
    -1, 10, 11, 12, 13, 14, 15, -1, -1, -1, -1, -1, -1, -1, -1, -1,
    -1, -1, -1, -1, -1, -1, -1, -1, -1, -1, -1, -1, -1, -1, -1, -1] @
   replicate 128 0"

text \<open>One bit for each character; in strict mode the macro \<open>T\<close> gives 0.\<close>

definition strict_T :: "nat \<Rightarrow> nat" where
  "strict_T v = 0"

definition normal_url_char :: "nat list" where
  "normal_url_char =
    [0 OR 0 OR 0 OR 0 OR 0 OR 0 OR 0 OR 0,
     0 OR strict_T 2 OR 0 OR 0 OR strict_T 16 OR 0 OR 0 OR 0,
     0 OR 0 OR 0 OR 0 OR 0 OR 0 OR 0 OR 0,
     0 OR 0 OR 0 OR 0 OR 0 OR 0 OR 0 OR 0,
     0 OR 2 OR 4 OR 0 OR 16 OR 32 OR 64 OR 128,
     1 OR 2 OR 4 OR 8 OR 16 OR 32 OR 64 OR 128,
     1 OR 2 OR 4 OR 8 OR 16 OR 32 OR 64 OR 128,
     1 OR 2 OR 4 OR 8 OR 16 OR 32 OR 64 OR 0] @
    replicate 7 (1 OR 2 OR 4 OR 8 OR 16 OR 32 OR 64 OR 128) @
    [1 OR 2 OR 4 OR 8 OR 16 OR 32 OR 64 OR 0] @ replicate 16 0"

definition BIT_AT :: "nat list \<Rightarrow> nat \<Rightarrow> bool" where
  "BIT_AT a i \<longleftrightarrow> (a ! drop_bit 3 i) AND push_bit (i AND 7) 1 \<noteq> 0"

section \<open>Character classes\<close>

definition LOWER :: "char \<Rightarrow> char" where
  "LOWER c = char_of (code c OR 0x20)"

definition IS_ALPHA :: "char \<Rightarrow> bool" where
  "IS_ALPHA c \<longleftrightarrow> 97 \<le> code (LOWER c) \<and> code (LOWER c) \<le> 122"

definition IS_NUM :: "char \<Rightarrow> bool" where
  "IS_NUM c \<longleftrightarrow> 48 \<le> code c \<and> code c \<le> 57"

definition IS_ALPHANUM :: "char \<Rightarrow> bool" where
  "IS_ALPHANUM c \<longleftrightarrow> IS_ALPHA c \<or> IS_NUM c"

definition IS_MARK :: "char \<Rightarrow> bool" where
  "IS_MARK c \<longleftrightarrow> c \<in> {CHR ''-'', CHR ''_'', CHR ''.'', CHR ''!'', CHR 0x7E, CHR ''*'', CHR 0x27, CHR ''('', CHR '')''}"

definition IS_USERINFO_CHAR :: "char \<Rightarrow> bool" where
  "IS_USERINFO_CHAR c \<longleftrightarrow> IS_ALPHANUM c \<or> IS_MARK c \<or>
     c \<in> {CHR 0x25, CHR '';'', CHR '':'', CHR ''&'', CHR ''='', CHR ''+'', CHR 0x24, CHR '',''}"

definition TOKEN :: "char \<Rightarrow> char" where
  "TOKEN c = tokens ! code c"

definition IS_URL_CHAR :: "char \<Rightarrow> bool" where
  "IS_URL_CHAR c \<longleftrightarrow> BIT_AT normal_url_char (code c)"

section \<open>States\<close>

datatype (plugins only: code size) pstate =
    s_dead | s_start_req_or_res | s_res_or_resp_H | s_start_res | s_res_H | s_res_HT | s_res_HTT | s_res_HTTP
  | s_res_first_http_major | s_res_http_major | s_res_first_http_minor | s_res_http_minor
  | s_res_first_status_code | s_res_status_code | s_res_status | s_res_line_almost_done
  | s_start_req | s_req_method | s_req_spaces_before_url | s_req_schema | s_req_schema_slash
  | s_req_schema_slash_slash | s_req_server_start | s_req_server | s_req_server_with_at | s_req_path
  | s_req_query_string_start | s_req_query_string | s_req_fragment_start | s_req_fragment
  | s_req_http_start | s_req_http_H | s_req_http_HT | s_req_http_HTT | s_req_http_HTTP
  | s_req_first_http_major | s_req_http_major | s_req_first_http_minor | s_req_http_minor
  | s_req_line_almost_done | s_header_field_start | s_header_field | s_header_value_start | s_header_value
  | s_header_value_lws | s_header_almost_done | s_chunk_size_start | s_chunk_size | s_chunk_parameters
  | s_chunk_size_almost_done | s_headers_almost_done | s_headers_done
  | s_chunk_data | s_chunk_data_almost_done | s_chunk_data_done | s_body_identity | s_body_identity_eof
  | s_message_done

text \<open>The states after \<open>s_headers_done\<close> are those of a body.\<close>

definition PARSING_HEADER :: "pstate \<Rightarrow> bool" where
  "PARSING_HEADER s \<longleftrightarrow> s \<notin> {s_chunk_data, s_chunk_data_almost_done, s_chunk_data_done, s_body_identity,
     s_body_identity_eof, s_message_done}"

section \<open>The address\<close>

definition parse_server_char :: "char \<Rightarrow> pstate" where
  "parse_server_char ch =
     (if ch = CHR ''/'' then s_req_path
      else if ch = CHR ''?'' then s_req_query_string_start
      else if ch = CHR ''@'' then s_req_server_with_at
      else if IS_USERINFO_CHAR ch \<or> ch = CHR ''['' \<or> ch = CHR '']'' then s_req_server
      else s_dead)"

definition parse_query_char :: "char \<Rightarrow> pstate" where
  "parse_query_char ch =
     (if IS_URL_CHAR ch then s_req_query_string
      else if ch = CHR ''?'' then s_req_query_string
      else if ch = CHR ''#'' then s_req_fragment_start
      else s_dead)"

definition parse_url_char :: "pstate \<Rightarrow> char \<Rightarrow> pstate" where
  "parse_url_char s ch =
     (if ch = SP \<or> ch = CR \<or> ch = LF then s_dead
      else if ch = TAB \<or> ch = CHR 0x0C then s_dead
      else case s of
        s_req_spaces_before_url \<Rightarrow>
          (if ch = CHR ''/'' \<or> ch = CHR ''*'' then s_req_path
           else if IS_ALPHA ch then s_req_schema else s_dead)
      | s_req_schema \<Rightarrow>
          (if IS_ALPHA ch then s else if ch = CHR '':'' then s_req_schema_slash else s_dead)
      | s_req_schema_slash \<Rightarrow> (if ch = CHR ''/'' then s_req_schema_slash_slash else s_dead)
      | s_req_schema_slash_slash \<Rightarrow> (if ch = CHR ''/'' then s_req_server_start else s_dead)
      | s_req_server_with_at \<Rightarrow> (if ch = CHR ''@'' then s_dead else parse_server_char ch)
      | s_req_server_start \<Rightarrow> parse_server_char ch
      | s_req_server \<Rightarrow> parse_server_char ch
      | s_req_path \<Rightarrow>
          (if IS_URL_CHAR ch then s
           else if ch = CHR ''?'' then s_req_query_string_start
           else if ch = CHR ''#'' then s_req_fragment_start else s_dead)
      | s_req_query_string_start \<Rightarrow> parse_query_char ch
      | s_req_query_string \<Rightarrow> parse_query_char ch
      | s_req_fragment_start \<Rightarrow>
          (if IS_URL_CHAR ch then s_req_fragment
           else if ch = CHR ''?'' then s_req_fragment
           else if ch = CHR ''#'' then s else s_dead)
      | s_req_fragment \<Rightarrow>
          (if IS_URL_CHAR ch then s else if ch = CHR ''?'' \<or> ch = CHR ''#'' then s else s_dead)
      | _ \<Rightarrow> s_dead)"

section \<open>Lemmas\<close>

lemma code_inject: "code c = code d \<longleftrightarrow> c = d"
  by (metis char_of_code)

lemma code_NUL: "code NUL = 0"
  by (simp add: code_def)

lemma LOWER_code: "code (LOWER c) = code c OR 32"
proof -
  have "int (code c) OR int 32 < 2 ^ 8" by (rule OR_upper) (use code_less [of c] in simp_all)
  then have "int (code c OR 32) < 2 ^ 8" by (simp only: of_nat_or_eq)
  then show ?thesis by (simp add: LOWER_def)
qed

text \<open>The tables, entry by entry.\<close>

definition token_spec :: "int \<Rightarrow> int" where
  "token_spec n =
     (if 65 \<le> n \<and> n \<le> 90 then n + 32
      else if 97 \<le> n \<and> n \<le> 122 \<or> 48 \<le> n \<and> n \<le> 57 then n
      else if n \<in> {33, 35, 36, 37, 38, 39, 42, 43, 45, 46, 94, 95, 96, 124, 126} then n else 0)"

lemma tokens_graph_table: "map (int \<circ> code) tokens_graph = map token_spec [32..127]"
  by (simp add: tokens_graph_def code_def token_spec_def)

lemma TOKEN_code: "int (code (TOKEN c)) = token_spec (int (code c))"
proof -
  consider "code c < 32" | "32 \<le> code c" "code c < 128" | "128 \<le> code c" by linarith
  then show ?thesis
  proof cases
    case 2
    have "length tokens_graph = 96" by (simp add: tokens_graph_def)
    moreover have "map (int \<circ> code) tokens_graph ! (code c - 32) = map token_spec [32..127] ! (code c - 32)"
      by (simp only: tokens_graph_table)
    moreover have "code c - 32 < 96" using 2 by simp
    ultimately show ?thesis
      using 2 by (simp add: TOKEN_def tokens_def nth_append del: upto_rec_numeral)
  next
    case 3
    moreover have "code c - 128 < 128" using code_less [of c] by linarith
    ultimately show ?thesis
      by (simp add: TOKEN_def tokens_def tokens_graph_def nth_append token_spec_def code_NUL)
  qed (simp add: TOKEN_def tokens_def nth_append token_spec_def code_NUL)
qed

lemma normal_url_char_table:
  "list_all (\<lambda>n. BIT_AT normal_url_char (nat n) \<longleftrightarrow> 33 \<le> n \<and> n \<le> 126 \<and> n \<noteq> 35 \<and> n \<noteq> 63) [0..255]"
proof -
  have rep: "replicate 7 x = [x, x, x, x, x, x, x]"
    "replicate 16 x = [x, x, x, x, x, x, x, x, x, x, x, x, x, x, x, x]" for x :: nat
    by (simp_all add: numeral_eq_Suc)
  have eq: "normal_url_char = [0, 0, 0, 0, 246, 255, 255, 127, 255, 255, 255, 255, 255, 255, 255, 127,
      0, 0, 0, 0, 0, 0, 0, 0, 0, 0, 0, 0, 0, 0, 0, 0]"
    by (simp add: normal_url_char_def strict_T_def rep)
  show ?thesis by (simp add: eq BIT_AT_def upto_rec1)
qed

lemma IS_URL_CHAR_code: "IS_URL_CHAR c \<longleftrightarrow> 33 \<le> code c \<and> code c \<le> 126 \<and> code c \<noteq> 35 \<and> code c \<noteq> 63"
proof -
  have "int (code c) \<in> set [0..255]" using code_less [of c] by (simp del: code_less)
  from normal_url_char_table [unfolded list_all_iff, rule_format, OF this] show ?thesis by (simp add: IS_URL_CHAR_def)
qed

definition unhex_spec :: "int \<Rightarrow> int" where
  "unhex_spec n =
     (if 128 \<le> n then 0 else if 48 \<le> n \<and> n \<le> 57 then n - 48
      else if 65 \<le> n \<and> n \<le> 70 then n - 55 else if 97 \<le> n \<and> n \<le> 102 then n - 87 else -1)"

lemma unhex_table: "unhex = map unhex_spec [0..127] @ replicate 128 0"
  by (simp add: unhex_def unhex_spec_def upto_rec1)

lemma unhex_code: "unhex ! code c = unhex_spec (int (code c))"
proof (cases "code c < 128")
  case True
  then show ?thesis by (simp add: unhex_table nth_append del: upto_rec_numeral)
next
  case False
  moreover have "code c - 128 < 128" using code_less [of c] by linarith
  ultimately show ?thesis by (simp add: unhex_table nth_append unhex_spec_def del: upto_rec_numeral)
qed

text \<open>C38. The tables compute the classes their comments promise, on all 256 characters, but for the upper
  half of the one for hexadecimal digits, which the code does not give: there every character counts as
  the digit 0.\<close>

theorem parser_tables:
  "(IS_URL_CHAR c \<longleftrightarrow> 33 \<le> code c \<and> code c \<le> 126 \<and> code c \<noteq> 35 \<and> code c \<noteq> 63) \<and>
   int (code (TOKEN c)) = token_spec (int (code c)) \<and>
   unhex ! code c = unhex_spec (int (code c))"
  using IS_URL_CHAR_code TOKEN_code unhex_code by (simp only: simp_thms)

end
