(* ===== verification/HttpParser.thy ===== *)
theory HttpParser
  imports HttpChars
begin

text \<open>
  The HTTP parser (\<^verbatim>\<open>src/http_parser.cc\<close>, \<^verbatim>\<open>src/include/http_parser.h\<close>), byte by byte, one definition for
  each case of its switch. The settings are those of the wrapper: all callbacks but the ones for the
  begin of a message and for the status line are set and return 0, so what a callback does to the parser
  is to be recorded in the list of events, and the branches for a callback that fails or pauses never run.
  A callback that is not set does nothing. A position in the data stands for a pointer into it.
\<close>

section \<open>The parser object\<close>

text \<open>A callback with a position and a length in the buffer, or with the two counters of the parser.\<close>

datatype http_event =
    EvUrl nat nat
  | EvHeaderField nat nat
  | EvHeaderValue nat nat
  | EvHeadersComplete "32 word" "64 word"
  | EvBody nat nat
  | EvMessageComplete

datatype http_parser_type = HTTP_REQUEST | HTTP_RESPONSE | HTTP_BOTH

datatype http_flag =
    F_CHUNKED | F_CONNECTION_KEEP_ALIVE | F_CONNECTION_CLOSE | F_TRAILING | F_UPGRADE | F_SKIPBODY

datatype (plugins only: code size) http_errno =
    HPE_OK | HPE_CB_message_begin | HPE_CB_status_complete | HPE_CB_url | HPE_CB_header_field
  | HPE_CB_header_value | HPE_CB_headers_complete | HPE_CB_body | HPE_CB_message_complete
  | HPE_INVALID_EOF_STATE | HPE_HEADER_OVERFLOW | HPE_CLOSED_CONNECTION | HPE_INVALID_VERSION
  | HPE_INVALID_STATUS | HPE_INVALID_METHOD | HPE_INVALID_URL | HPE_INVALID_HOST | HPE_INVALID_PORT
  | HPE_INVALID_PATH | HPE_INVALID_QUERY_STRING | HPE_INVALID_FRAGMENT | HPE_LF_EXPECTED
  | HPE_INVALID_HEADER_TOKEN | HPE_INVALID_CONTENT_LENGTH | HPE_INVALID_CHUNK_SIZE | HPE_INVALID_CONSTANT
  | HPE_INVALID_INTERNAL_STATE | HPE_STRICT | HPE_PAUSED | HPE_UNKNOWN

datatype (plugins only: code size) http_method =
    HTTP_DELETE | HTTP_GET | HTTP_HEAD | HTTP_POST | HTTP_PUT | HTTP_CONNECT | HTTP_OPTIONS | HTTP_TRACE
  | HTTP_COPY | HTTP_LOCK | HTTP_MKCOL | HTTP_MOVE | HTTP_PROPFIND | HTTP_PROPPATCH | HTTP_SEARCH
  | HTTP_UNLOCK | HTTP_REPORT | HTTP_MKACTIVITY | HTTP_CHECKOUT | HTTP_MERGE | HTTP_MSEARCH | HTTP_NOTIFY
  | HTTP_SUBSCRIBE | HTTP_UNSUBSCRIBE | HTTP_PATCH | HTTP_PURGE

text \<open>The names, as the preprocessor makes strings of the entries of the map.\<close>

primrec method_string :: "http_method \<Rightarrow> string" where
  "method_string HTTP_DELETE = ''DELETE''"
| "method_string HTTP_GET = ''GET''"
| "method_string HTTP_HEAD = ''HEAD''"
| "method_string HTTP_POST = ''POST''"
| "method_string HTTP_PUT = ''PUT''"
| "method_string HTTP_CONNECT = ''CONNECT''"
| "method_string HTTP_OPTIONS = ''OPTIONS''"
| "method_string HTTP_TRACE = ''TRACE''"
| "method_string HTTP_COPY = ''COPY''"
| "method_string HTTP_LOCK = ''LOCK''"
| "method_string HTTP_MKCOL = ''MKCOL''"
| "method_string HTTP_MOVE = ''MOVE''"
| "method_string HTTP_PROPFIND = ''PROPFIND''"
| "method_string HTTP_PROPPATCH = ''PROPPATCH''"
| "method_string HTTP_SEARCH = ''SEARCH''"
| "method_string HTTP_UNLOCK = ''UNLOCK''"
| "method_string HTTP_REPORT = ''REPORT''"
| "method_string HTTP_MKACTIVITY = ''MKACTIVITY''"
| "method_string HTTP_CHECKOUT = ''CHECKOUT''"
| "method_string HTTP_MERGE = ''MERGE''"
| "method_string HTTP_MSEARCH = ''M - SEARCH''"
| "method_string HTTP_NOTIFY = ''NOTIFY''"
| "method_string HTTP_SUBSCRIBE = ''SUBSCRIBE''"
| "method_string HTTP_UNSUBSCRIBE = ''UNSUBSCRIBE''"
| "method_string HTTP_PATCH = ''PATCH''"
| "method_string HTTP_PURGE = ''PURGE''"

datatype (plugins only: code size) header_states =
    h_general | h_C | h_CO | h_CON
  | h_matching_connection | h_matching_proxy_connection | h_matching_content_length
  | h_matching_transfer_encoding | h_matching_upgrade
  | h_connection | h_content_length | h_transfer_encoding | h_upgrade
  | h_matching_transfer_encoding_chunked | h_matching_connection_keep_alive | h_matching_connection_close
  | h_transfer_encoding_chunked | h_connection_keep_alive | h_connection_close

record http_parser =
  p_type :: http_parser_type
  p_flags :: "http_flag set"
  p_state :: pstate
  p_header_state :: header_states
  p_index :: nat
  p_nread :: "32 word"
  p_content_length :: "64 word"
  p_http_major :: nat
  p_http_minor :: nat
  p_status_code :: nat
  p_method :: http_method
  p_errno :: http_errno
  p_upgrade :: bool

abbreviation ULLONG_MAX :: "64 word" where "ULLONG_MAX \<equiv> -1"

abbreviation HTTP_MAX_HEADER_SIZE :: "32 word" where "HTTP_MAX_HEADER_SIZE \<equiv> 80 * 1024"

text \<open>A run of \<open>http_parser_execute\<close>: the position, the marks, and the callbacks made.\<close>

record http_exec = http_parser +
  x_p :: nat
  x_header_field_mark :: "nat option"
  x_header_value_mark :: "nat option"
  x_url_mark :: "nat option"
  x_body_mark :: "nat option"
  x_events :: "http_event list"

text \<open>How the code for one byte ends: at the end of the switch, by \<open>goto reexecute_byte\<close>, by \<open>goto error\<close>,
  by a return, or in a fault.\<close>

datatype outcome =
    Break http_exec | Reexec http_exec | Error http_exec | Return nat http_exec | Fault fault

definition SET_ERRNO :: "http_errno \<Rightarrow> http_exec \<Rightarrow> outcome" where
  "SET_ERRNO e x = Error (x\<lparr>p_errno := e\<rparr>)"

definition go :: "pstate \<Rightarrow> http_exec \<Rightarrow> outcome" where
  "go s x = Break (x\<lparr>p_state := s\<rparr>)"

definition STRICT_CHECK :: "bool \<Rightarrow> http_exec \<Rightarrow> outcome \<Rightarrow> outcome" where
  "STRICT_CHECK c x k = (if c then SET_ERRNO HPE_STRICT x else k)"

definition assert_that :: "bool \<Rightarrow> outcome \<Rightarrow> outcome" where
  "assert_that c k = (if c then k else Fault AssertFailed)"

subsection \<open>Callbacks and marks\<close>

definition notify_message_complete :: "http_exec \<Rightarrow> http_exec" where
  "notify_message_complete x = x\<lparr>x_events := x_events x @ [EvMessageComplete]\<rparr>"

definition notify_headers_complete :: "http_exec \<Rightarrow> http_exec" where
  "notify_headers_complete x = x\<lparr>x_events := x_events x @ [EvHeadersComplete (p_nread x) (p_content_length x)]\<rparr>"

definition callback_url :: "http_exec \<Rightarrow> http_exec" where
  "callback_url x = (case x_url_mark x of None \<Rightarrow> x
     | Some m \<Rightarrow> x\<lparr>x_events := x_events x @ [EvUrl m (x_p x - m)], x_url_mark := None\<rparr>)"

definition callback_header_field :: "http_exec \<Rightarrow> http_exec" where
  "callback_header_field x = (case x_header_field_mark x of None \<Rightarrow> x
     | Some m \<Rightarrow> x\<lparr>x_events := x_events x @ [EvHeaderField m (x_p x - m)], x_header_field_mark := None\<rparr>)"

definition callback_header_value :: "http_exec \<Rightarrow> http_exec" where
  "callback_header_value x = (case x_header_value_mark x of None \<Rightarrow> x
     | Some m \<Rightarrow> x\<lparr>x_events := x_events x @ [EvHeaderValue m (x_p x - m)], x_header_value_mark := None\<rparr>)"

text \<open>For the body the length is given.\<close>

definition callback_body :: "nat \<Rightarrow> http_exec \<Rightarrow> http_exec" where
  "callback_body e x = (case x_body_mark x of None \<Rightarrow> x
     | Some m \<Rightarrow> x\<lparr>x_events := x_events x @ [EvBody m (e - m)], x_body_mark := None\<rparr>)"

definition mark :: "nat \<Rightarrow> nat option \<Rightarrow> nat option" where
  "mark p m = (case m of None \<Rightarrow> Some p | Some q \<Rightarrow> Some q)"

subsection \<open>Keep-alive\<close>

definition http_message_needs_eof :: "http_exec \<Rightarrow> bool" where
  "http_message_needs_eof x =
     (if p_type x = HTTP_REQUEST then False
      else if p_status_code x div 100 = 1 \<or> p_status_code x = 204 \<or> p_status_code x = 304 \<or>
        F_SKIPBODY \<in> p_flags x then False
      else if F_CHUNKED \<in> p_flags x \<or> p_content_length x \<noteq> ULLONG_MAX then False
      else True)"

definition http_should_keep_alive :: "http_exec \<Rightarrow> bool" where
  "http_should_keep_alive x =
     (if p_http_major x > 0 \<and> p_http_minor x > 0 then
        (if F_CONNECTION_CLOSE \<in> p_flags x then False else \<not> http_message_needs_eof x)
      else (if F_CONNECTION_KEEP_ALIVE \<notin> p_flags x then False else \<not> http_message_needs_eof x))"

definition start_state :: "http_exec \<Rightarrow> pstate" where
  "start_state x = (if p_type x = HTTP_REQUEST then s_start_req else s_start_res)"

definition NEW_MESSAGE :: "http_exec \<Rightarrow> pstate" where
  "NEW_MESSAGE x = (if http_should_keep_alive x then start_state x else s_dead)"

section \<open>The first line\<close>

definition digit :: "char \<Rightarrow> nat" where
  "digit ch = code ch - 48"

definition do_dead :: "char \<Rightarrow> http_exec \<Rightarrow> outcome" where
  "do_dead ch x = (if ch = CR \<or> ch = LF then Break x else SET_ERRNO HPE_CLOSED_CONNECTION x)"

definition do_start_req_or_res :: "char \<Rightarrow> http_exec \<Rightarrow> outcome" where
  "do_start_req_or_res ch x =
     (if ch = CR \<or> ch = LF then Break x
      else
        (let x = x\<lparr>p_flags := {}, p_content_length := ULLONG_MAX\<rparr>
         in if ch = CHR ''H'' then go s_res_or_resp_H x
            else Reexec (x\<lparr>p_type := HTTP_REQUEST, p_state := s_start_req\<rparr>)))"

definition do_res_or_resp_H :: "char \<Rightarrow> http_exec \<Rightarrow> outcome" where
  "do_res_or_resp_H ch x =
     (if ch = CHR ''T'' then go s_res_HT (x\<lparr>p_type := HTTP_RESPONSE\<rparr>)
      else if ch \<noteq> CHR ''E'' then SET_ERRNO HPE_INVALID_CONSTANT x
      else go s_req_method (x\<lparr>p_type := HTTP_REQUEST, p_method := HTTP_HEAD, p_index := 2\<rparr>))"

definition do_start_res :: "char \<Rightarrow> http_exec \<Rightarrow> outcome" where
  "do_start_res ch x =
     (let x = x\<lparr>p_flags := {}, p_content_length := ULLONG_MAX\<rparr>
      in if ch = CHR ''H'' then go s_res_H x
         else if ch = CR \<or> ch = LF then Break x
         else SET_ERRNO HPE_INVALID_CONSTANT x)"

definition do_expect :: "char \<Rightarrow> pstate \<Rightarrow> char \<Rightarrow> http_exec \<Rightarrow> outcome" where
  "do_expect want s ch x = STRICT_CHECK (ch \<noteq> want) x (go s x)"

text \<open>The digits of the version, in a response and in a request.\<close>

definition do_first_major :: "nat \<Rightarrow> pstate \<Rightarrow> char \<Rightarrow> http_exec \<Rightarrow> outcome" where
  "do_first_major least s ch x =
     (if code ch < least \<or> code ch > 57 then SET_ERRNO HPE_INVALID_VERSION x
      else go s (x\<lparr>p_http_major := digit ch\<rparr>))"

definition do_major :: "pstate \<Rightarrow> char \<Rightarrow> http_exec \<Rightarrow> outcome" where
  "do_major s ch x =
     (if ch = CHR ''.'' then go s x
      else if \<not> IS_NUM ch then SET_ERRNO HPE_INVALID_VERSION x
      else
        (let x = x\<lparr>p_http_major := p_http_major x * 10 + digit ch\<rparr>
         in if p_http_major x > 999 then SET_ERRNO HPE_INVALID_VERSION x else Break x))"

definition do_first_minor :: "pstate \<Rightarrow> char \<Rightarrow> http_exec \<Rightarrow> outcome" where
  "do_first_minor s ch x =
     (if \<not> IS_NUM ch then SET_ERRNO HPE_INVALID_VERSION x
      else go s (x\<lparr>p_http_minor := digit ch\<rparr>))"

definition more_minor :: "char \<Rightarrow> http_exec \<Rightarrow> outcome" where
  "more_minor ch x =
     (if \<not> IS_NUM ch then SET_ERRNO HPE_INVALID_VERSION x
      else
        (let x = x\<lparr>p_http_minor := p_http_minor x * 10 + digit ch\<rparr>
         in if p_http_minor x > 999 then SET_ERRNO HPE_INVALID_VERSION x else Break x))"

definition do_res_http_minor :: "char \<Rightarrow> http_exec \<Rightarrow> outcome" where
  "do_res_http_minor ch x =
     (if ch = SP then go s_res_first_status_code x else more_minor ch x)"

definition do_req_http_minor :: "char \<Rightarrow> http_exec \<Rightarrow> outcome" where
  "do_req_http_minor ch x =
     (if ch = CR then go s_req_line_almost_done x
      else if ch = LF then go s_header_field_start x
      else more_minor ch x)"

definition do_res_first_status_code :: "char \<Rightarrow> http_exec \<Rightarrow> outcome" where
  "do_res_first_status_code ch x =
     (if \<not> IS_NUM ch then (if ch = SP then Break x else SET_ERRNO HPE_INVALID_STATUS x)
      else go s_res_status_code (x\<lparr>p_status_code := digit ch\<rparr>))"

definition do_res_status_code :: "char \<Rightarrow> http_exec \<Rightarrow> outcome" where
  "do_res_status_code ch x =
     (if \<not> IS_NUM ch then
        (if ch = SP then go s_res_status x
         else if ch = CR then go s_res_line_almost_done x
         else if ch = LF then go s_header_field_start x
         else SET_ERRNO HPE_INVALID_STATUS x)
      else
        (let x = x\<lparr>p_status_code := p_status_code x * 10 + digit ch\<rparr>
         in if p_status_code x > 999 then SET_ERRNO HPE_INVALID_STATUS x else Break x))"

definition do_res_status :: "char \<Rightarrow> http_exec \<Rightarrow> outcome" where
  "do_res_status ch x =
     (if ch = CR then go s_res_line_almost_done x
      else if ch = LF then go s_header_field_start x
      else Break x)"

text \<open>The method is guessed from its first letter and corrected at the letter where names part.\<close>

definition first_method :: "char \<Rightarrow> http_method option" where
  "first_method ch =
     (if ch = CHR ''C'' then Some HTTP_CONNECT
      else if ch = CHR ''D'' then Some HTTP_DELETE
      else if ch = CHR ''G'' then Some HTTP_GET
      else if ch = CHR ''H'' then Some HTTP_HEAD
      else if ch = CHR ''L'' then Some HTTP_LOCK
      else if ch = CHR ''M'' then Some HTTP_MKCOL
      else if ch = CHR ''N'' then Some HTTP_NOTIFY
      else if ch = CHR ''O'' then Some HTTP_OPTIONS
      else if ch = CHR ''P'' then Some HTTP_POST
      else if ch = CHR ''R'' then Some HTTP_REPORT
      else if ch = CHR ''S'' then Some HTTP_SUBSCRIBE
      else if ch = CHR ''T'' then Some HTTP_TRACE
      else if ch = CHR ''U'' then Some HTTP_UNLOCK
      else None)"

definition do_start_req :: "char \<Rightarrow> http_exec \<Rightarrow> outcome" where
  "do_start_req ch x =
     (if ch = CR \<or> ch = LF then Break x
      else
        (let x = x\<lparr>p_flags := {}, p_content_length := ULLONG_MAX\<rparr>
         in if \<not> IS_ALPHA ch then SET_ERRNO HPE_INVALID_METHOD x
            else
              (let x = x\<lparr>p_method := HTTP_DELETE, p_index := 1\<rparr>
               in case first_method ch of
                    None \<Rightarrow> SET_ERRNO HPE_INVALID_METHOD x
                  | Some m \<Rightarrow> go s_req_method (x\<lparr>p_method := m\<rparr>))))"

text \<open>The other name that has this letter at this place, if there is one.\<close>

definition other_method :: "http_method \<Rightarrow> nat \<Rightarrow> char \<Rightarrow> http_method option" where
  "other_method m i ch =
     (if m = HTTP_CONNECT then
        (if i = 1 \<and> ch = CHR ''H'' then Some HTTP_CHECKOUT
         else if i = 2 \<and> ch = CHR ''P'' then Some HTTP_COPY
         else None)
      else if m = HTTP_MKCOL then
        (if i = 1 \<and> ch = CHR ''O'' then Some HTTP_MOVE
         else if i = 1 \<and> ch = CHR ''E'' then Some HTTP_MERGE
         else if i = 1 \<and> ch = CHR ''-'' then Some HTTP_MSEARCH
         else if i = 2 \<and> ch = CHR ''A'' then Some HTTP_MKACTIVITY
         else None)
      else if m = HTTP_SUBSCRIBE then
        (if i = 1 \<and> ch = CHR ''E'' then Some HTTP_SEARCH else None)
      else if i = 1 \<and> m = HTTP_POST then
        (if ch = CHR ''R'' then Some HTTP_PROPFIND
         else if ch = CHR ''U'' then Some HTTP_PUT
         else if ch = CHR ''A'' then Some HTTP_PATCH
         else None)
      else if i = 2 then
        (if m = HTTP_PUT then (if ch = CHR ''R'' then Some HTTP_PURGE else None)
         else if m = HTTP_UNLOCK then (if ch = CHR ''S'' then Some HTTP_UNSUBSCRIBE else None)
         else None)
      else if i = 4 \<and> m = HTTP_PROPFIND \<and> ch = CHR ''P'' then Some HTTP_PROPPATCH
      else None)"

definition do_req_method :: "char \<Rightarrow> http_exec \<Rightarrow> outcome" where
  "do_req_method ch x =
     (if ch = NUL then SET_ERRNO HPE_INVALID_METHOD x
      else
        (let matcher = method_string (p_method x) @ [NUL]; i = p_index x
         in if length matcher \<le> i then Fault OutOfBounds
            else if ch = SP \<and> matcher ! i = NUL then
              go s_req_spaces_before_url (x\<lparr>p_index := i + 1\<rparr>)
            else if ch = matcher ! i then Break (x\<lparr>p_index := i + 1\<rparr>)
            else
              (case other_method (p_method x) i ch of
                 None \<Rightarrow> SET_ERRNO HPE_INVALID_METHOD x
               | Some m \<Rightarrow> Break (x\<lparr>p_method := m, p_index := i + 1\<rparr>))))"

definition url_char :: "char \<Rightarrow> http_exec \<Rightarrow> outcome" where
  "url_char ch x =
     (let x = x\<lparr>p_state := parse_url_char (p_state x) ch\<rparr>
      in if p_state x = s_dead then SET_ERRNO HPE_INVALID_URL x else Break x)"

definition do_req_spaces_before_url :: "char \<Rightarrow> http_exec \<Rightarrow> outcome" where
  "do_req_spaces_before_url ch x =
     (if ch = SP then Break x
      else
        (let x = x\<lparr>x_url_mark := mark (x_p x) (x_url_mark x)\<rparr>;
             x = (if p_method x = HTTP_CONNECT then x\<lparr>p_state := s_req_server_start\<rparr> else x)
         in url_char ch x))"

definition do_req_schema :: "char \<Rightarrow> http_exec \<Rightarrow> outcome" where
  "do_req_schema ch x =
     (if ch = SP \<or> ch = CR \<or> ch = LF then SET_ERRNO HPE_INVALID_URL x else url_char ch x)"

definition do_req_url :: "char \<Rightarrow> http_exec \<Rightarrow> outcome" where
  "do_req_url ch x =
     (if ch = SP then Break (callback_url (x\<lparr>p_state := s_req_http_start\<rparr>))
      else if ch = CR \<or> ch = LF then
        Break (callback_url (x\<lparr>p_http_major := 0, p_http_minor := 9,
          p_state := (if ch = CR then s_req_line_almost_done else s_header_field_start)\<rparr>))
      else url_char ch x)"

definition do_req_http_start :: "char \<Rightarrow> http_exec \<Rightarrow> outcome" where
  "do_req_http_start ch x =
     (if ch = CHR ''H'' then go s_req_http_H x
      else if ch = SP then Break x
      else SET_ERRNO HPE_INVALID_CONSTANT x)"

definition do_req_line_almost_done :: "char \<Rightarrow> http_exec \<Rightarrow> outcome" where
  "do_req_line_almost_done ch x =
     (if ch \<noteq> LF then SET_ERRNO HPE_LF_EXPECTED x else go s_header_field_start x)"

section \<open>Headers\<close>

abbreviation CONNECTION :: string where "CONNECTION \<equiv> ''connection''"
abbreviation PROXY_CONNECTION :: string where "PROXY_CONNECTION \<equiv> ''proxy-connection''"
abbreviation CONTENT_LENGTH :: string where "CONTENT_LENGTH \<equiv> ''content-length''"
abbreviation TRANSFER_ENCODING :: string where "TRANSFER_ENCODING \<equiv> ''transfer-encoding''"
abbreviation UPGRADE :: string where "UPGRADE \<equiv> ''upgrade''"
abbreviation CHUNKED :: string where "CHUNKED \<equiv> ''chunked''"
abbreviation KEEP_ALIVE :: string where "KEEP_ALIVE \<equiv> ''keep-alive''"
abbreviation CLOSE :: string where "CLOSE \<equiv> ''close''"

definition first_header_state :: "char \<Rightarrow> header_states" where
  "first_header_state c =
     (if c = CHR ''c'' then h_C
      else if c = CHR ''p'' then h_matching_proxy_connection
      else if c = CHR ''t'' then h_matching_transfer_encoding
      else if c = CHR ''u'' then h_matching_upgrade
      else h_general)"

definition do_header_field_start :: "char \<Rightarrow> http_exec \<Rightarrow> outcome" where
  "do_header_field_start ch x =
     (if ch = CR then go s_headers_almost_done x
      else if ch = LF then Reexec (x\<lparr>p_state := s_headers_almost_done\<rparr>)
      else if TOKEN ch = NUL then SET_ERRNO HPE_INVALID_HEADER_TOKEN x
      else Break (x\<lparr>x_header_field_mark := mark (x_p x) (x_header_field_mark x), p_index := 0,
             p_state := s_header_field, p_header_state := first_header_state (TOKEN ch)\<rparr>))"

text \<open>One more character of a name, which is compared with its terminator, too.\<close>

definition match_header :: "string \<Rightarrow> header_states \<Rightarrow> char \<Rightarrow> http_exec \<Rightarrow> http_exec" where
  "match_header name found c x =
     (let i = p_index x + 1; x = x\<lparr>p_index := i\<rparr>
      in if i > length name \<or> c \<noteq> (name @ [NUL]) ! i then x\<lparr>p_header_state := h_general\<rparr>
         else if i = length name - 1 then x\<lparr>p_header_state := found\<rparr>
         else x)"

definition header_field_char :: "char \<Rightarrow> char \<Rightarrow> http_exec \<Rightarrow> outcome" where
  "header_field_char ch c x =
     (case p_header_state x of
        h_general \<Rightarrow> Break x
      | h_C \<Rightarrow> Break (x\<lparr>p_index := p_index x + 1, p_header_state := (if c = CHR ''o'' then h_CO else h_general)\<rparr>)
      | h_CO \<Rightarrow> Break (x\<lparr>p_index := p_index x + 1, p_header_state := (if c = CHR ''n'' then h_CON else h_general)\<rparr>)
      | h_CON \<Rightarrow> Break (x\<lparr>p_index := p_index x + 1,
          p_header_state := (if c = CHR ''n'' then h_matching_connection
            else if c = CHR ''t'' then h_matching_content_length else h_general)\<rparr>)
      | h_matching_connection \<Rightarrow> Break (match_header CONNECTION h_connection c x)
      | h_matching_proxy_connection \<Rightarrow> Break (match_header PROXY_CONNECTION h_connection c x)
      | h_matching_content_length \<Rightarrow> Break (match_header CONTENT_LENGTH h_content_length c x)
      | h_matching_transfer_encoding \<Rightarrow> Break (match_header TRANSFER_ENCODING h_transfer_encoding c x)
      | h_matching_upgrade \<Rightarrow> Break (match_header UPGRADE h_upgrade c x)
      | h_connection \<Rightarrow> Break (if ch \<noteq> SP then x\<lparr>p_header_state := h_general\<rparr> else x)
      | h_content_length \<Rightarrow> Break (if ch \<noteq> SP then x\<lparr>p_header_state := h_general\<rparr> else x)
      | h_transfer_encoding \<Rightarrow> Break (if ch \<noteq> SP then x\<lparr>p_header_state := h_general\<rparr> else x)
      | h_upgrade \<Rightarrow> Break (if ch \<noteq> SP then x\<lparr>p_header_state := h_general\<rparr> else x)
      | _ \<Rightarrow> Fault AssertFailed)"

definition do_header_field :: "char \<Rightarrow> http_exec \<Rightarrow> outcome" where
  "do_header_field ch x =
     (if TOKEN ch \<noteq> NUL then header_field_char ch (TOKEN ch) x
      else if ch = CHR '':'' then Break (callback_header_field (x\<lparr>p_state := s_header_value_start\<rparr>))
      else if ch = CR then Break (callback_header_field (x\<lparr>p_state := s_header_almost_done\<rparr>))
      else if ch = LF then Break (callback_header_field (x\<lparr>p_state := s_header_field_start\<rparr>))
      else SET_ERRNO HPE_INVALID_HEADER_TOKEN x)"

definition header_value_first :: "char \<Rightarrow> char \<Rightarrow> http_exec \<Rightarrow> outcome" where
  "header_value_first ch c x =
     (case p_header_state x of
        h_upgrade \<Rightarrow> Break (x\<lparr>p_flags := insert F_UPGRADE (p_flags x), p_header_state := h_general\<rparr>)
      | h_transfer_encoding \<Rightarrow>
          Break (x\<lparr>p_header_state := (if CHR ''c'' = c then h_matching_transfer_encoding_chunked else h_general)\<rparr>)
      | h_content_length \<Rightarrow>
          (if \<not> IS_NUM ch then SET_ERRNO HPE_INVALID_CONTENT_LENGTH x
           else Break (x\<lparr>p_content_length := of_nat (digit ch)\<rparr>))
      | h_connection \<Rightarrow>
          Break (x\<lparr>p_header_state :=
            (if c = CHR ''k'' then h_matching_connection_keep_alive
             else if c = CHR ''c'' then h_matching_connection_close else h_general)\<rparr>)
      | _ \<Rightarrow> Break (x\<lparr>p_header_state := h_general\<rparr>))"

definition do_header_value_start :: "char \<Rightarrow> http_exec \<Rightarrow> outcome" where
  "do_header_value_start ch x =
     (if ch = SP \<or> ch = TAB then Break x
      else
        (let x = x\<lparr>x_header_value_mark := mark (x_p x) (x_header_value_mark x), p_state := s_header_value, p_index := 0\<rparr>
         in if ch = CR then
              Break (callback_header_value (x\<lparr>p_header_state := h_general, p_state := s_header_almost_done\<rparr>))
            else if ch = LF then Break (callback_header_value (x\<lparr>p_state := s_header_field_start\<rparr>))
            else header_value_first ch (LOWER ch) x))"

text \<open>A number grows by one digit; the test for an overflow is that it became smaller.\<close>

definition grow_length :: "64 word \<Rightarrow> 64 word \<Rightarrow> http_exec \<Rightarrow> outcome" where
  "grow_length base d x =
     (let t = p_content_length x * base + d
      in if t < p_content_length x \<or> t = ULLONG_MAX then SET_ERRNO HPE_INVALID_CONTENT_LENGTH x
         else Break (x\<lparr>p_content_length := t\<rparr>))"

definition header_value_char :: "char \<Rightarrow> char \<Rightarrow> http_exec \<Rightarrow> outcome" where
  "header_value_char ch c x =
     (case p_header_state x of
        h_general \<Rightarrow> Break x
      | h_connection \<Rightarrow> Fault AssertFailed
      | h_transfer_encoding \<Rightarrow> Fault AssertFailed
      | h_content_length \<Rightarrow>
          (if ch = SP then Break x
           else if \<not> IS_NUM ch then SET_ERRNO HPE_INVALID_CONTENT_LENGTH x
           else grow_length 10 (of_nat (digit ch)) x)
      | h_matching_transfer_encoding_chunked \<Rightarrow> Break (match_header CHUNKED h_transfer_encoding_chunked c x)
      | h_matching_connection_keep_alive \<Rightarrow> Break (match_header KEEP_ALIVE h_connection_keep_alive c x)
      | h_matching_connection_close \<Rightarrow> Break (match_header CLOSE h_connection_close c x)
      | h_transfer_encoding_chunked \<Rightarrow> Break (if ch \<noteq> SP then x\<lparr>p_header_state := h_general\<rparr> else x)
      | h_connection_keep_alive \<Rightarrow> Break (if ch \<noteq> SP then x\<lparr>p_header_state := h_general\<rparr> else x)
      | h_connection_close \<Rightarrow> Break (if ch \<noteq> SP then x\<lparr>p_header_state := h_general\<rparr> else x)
      | _ \<Rightarrow> Break (x\<lparr>p_state := s_header_value, p_header_state := h_general\<rparr>))"

definition do_header_value :: "char \<Rightarrow> http_exec \<Rightarrow> outcome" where
  "do_header_value ch x =
     (if ch = CR then Break (callback_header_value (x\<lparr>p_state := s_header_almost_done\<rparr>))
      else if ch = LF then Reexec (callback_header_value (x\<lparr>p_state := s_header_almost_done\<rparr>))
      else header_value_char ch (LOWER ch) x)"

definition do_header_almost_done :: "char \<Rightarrow> http_exec \<Rightarrow> outcome" where
  "do_header_almost_done ch x =
     STRICT_CHECK (ch \<noteq> LF) x
       (let x = x\<lparr>p_state := s_header_value_lws\<rparr>
        in case p_header_state x of
             h_connection_keep_alive \<Rightarrow> Break (x\<lparr>p_flags := insert F_CONNECTION_KEEP_ALIVE (p_flags x)\<rparr>)
           | h_connection_close \<Rightarrow> Break (x\<lparr>p_flags := insert F_CONNECTION_CLOSE (p_flags x)\<rparr>)
           | h_transfer_encoding_chunked \<Rightarrow> Break (x\<lparr>p_flags := insert F_CHUNKED (p_flags x)\<rparr>)
           | _ \<Rightarrow> Break x)"

definition do_header_value_lws :: "char \<Rightarrow> http_exec \<Rightarrow> outcome" where
  "do_header_value_lws ch x =
     (if ch = SP \<or> ch = TAB then go s_header_value_start x
      else Reexec (x\<lparr>p_state := s_header_field_start\<rparr>))"

definition message_complete :: "http_exec \<Rightarrow> http_exec" where
  "message_complete x = notify_message_complete (x\<lparr>p_state := NEW_MESSAGE x\<rparr>)"

definition do_headers_almost_done :: "char \<Rightarrow> http_exec \<Rightarrow> outcome" where
  "do_headers_almost_done ch x =
     STRICT_CHECK (ch \<noteq> LF) x
       (if F_TRAILING \<in> p_flags x then Break (message_complete x)
        else Reexec (notify_headers_complete
          (x\<lparr>p_state := s_headers_done, p_upgrade := F_UPGRADE \<in> p_flags x \<or> p_method x = HTTP_CONNECT\<rparr>)))"

section \<open>The body\<close>

definition do_headers_done :: "char \<Rightarrow> http_exec \<Rightarrow> outcome" where
  "do_headers_done ch x =
     STRICT_CHECK (ch \<noteq> LF) x
       (let x = x\<lparr>p_nread := 0\<rparr>
        in if p_upgrade x then Return (x_p x + 1) (message_complete x)
           else if F_SKIPBODY \<in> p_flags x then Break (message_complete x)
           else if F_CHUNKED \<in> p_flags x then go s_chunk_size_start x
           else if p_content_length x = 0 then Break (message_complete x)
           else if p_content_length x \<noteq> ULLONG_MAX then go s_body_identity x
           else if p_type x = HTTP_REQUEST \<or> \<not> http_message_needs_eof x then Break (message_complete x)
           else go s_body_identity_eof x)"

text \<open>All bytes that are there and belong to the body, at once; the position is left on the last of them.\<close>

definition to_read :: "nat \<Rightarrow> http_exec \<Rightarrow> nat" where
  "to_read len x = min (unat (p_content_length x)) (len - x_p x)"

definition take_body :: "nat \<Rightarrow> http_exec \<Rightarrow> http_exec" where
  "take_body len x =
     (let n = to_read len x
      in x\<lparr>x_body_mark := mark (x_p x) (x_body_mark x), p_content_length := p_content_length x - of_nat n,
           x_p := x_p x + n - 1\<rparr>)"

definition do_body_identity :: "nat \<Rightarrow> http_exec \<Rightarrow> outcome" where
  "do_body_identity len x =
     assert_that (p_content_length x \<noteq> 0 \<and> p_content_length x \<noteq> ULLONG_MAX)
       (let x = take_body len x
        in if p_content_length x = 0 then Reexec (callback_body (x_p x + 1) (x\<lparr>p_state := s_message_done\<rparr>))
           else Break x)"

definition do_body_identity_eof :: "nat \<Rightarrow> http_exec \<Rightarrow> outcome" where
  "do_body_identity_eof len x = Break (x\<lparr>x_body_mark := mark (x_p x) (x_body_mark x), x_p := len - 1\<rparr>)"

definition do_chunk_size_start :: "char \<Rightarrow> http_exec \<Rightarrow> outcome" where
  "do_chunk_size_start ch x =
     assert_that (p_nread x = 1) (assert_that (F_CHUNKED \<in> p_flags x)
       (let unhex_val = unhex ! code ch
        in if unhex_val = -1 then SET_ERRNO HPE_INVALID_CHUNK_SIZE x
           else go s_chunk_size (x\<lparr>p_content_length := of_int unhex_val\<rparr>)))"

definition do_chunk_size :: "char \<Rightarrow> http_exec \<Rightarrow> outcome" where
  "do_chunk_size ch x =
     assert_that (F_CHUNKED \<in> p_flags x)
       (if ch = CR then go s_chunk_size_almost_done x
        else
          (let unhex_val = unhex ! code ch
           in if unhex_val = -1 then
                (if ch = CHR '';'' \<or> ch = SP then go s_chunk_parameters x else SET_ERRNO HPE_INVALID_CHUNK_SIZE x)
              else grow_length 16 (of_int unhex_val) x))"

definition do_chunk_parameters :: "char \<Rightarrow> http_exec \<Rightarrow> outcome" where
  "do_chunk_parameters ch x =
     assert_that (F_CHUNKED \<in> p_flags x) (if ch = CR then go s_chunk_size_almost_done x else Break x)"

definition do_chunk_size_almost_done :: "char \<Rightarrow> http_exec \<Rightarrow> outcome" where
  "do_chunk_size_almost_done ch x =
     assert_that (F_CHUNKED \<in> p_flags x) (STRICT_CHECK (ch \<noteq> LF) x
       (let x = x\<lparr>p_nread := 0\<rparr>
        in if p_content_length x = 0 then
             go s_header_field_start (x\<lparr>p_flags := insert F_TRAILING (p_flags x)\<rparr>)
           else go s_chunk_data x))"

definition do_chunk_data :: "nat \<Rightarrow> http_exec \<Rightarrow> outcome" where
  "do_chunk_data len x =
     assert_that (F_CHUNKED \<in> p_flags x) (assert_that (p_content_length x \<noteq> 0 \<and> p_content_length x \<noteq> ULLONG_MAX)
       (let x = take_body len x
        in if p_content_length x = 0 then go s_chunk_data_almost_done x else Break x))"

definition do_chunk_data_almost_done :: "char \<Rightarrow> http_exec \<Rightarrow> outcome" where
  "do_chunk_data_almost_done ch x =
     assert_that (F_CHUNKED \<in> p_flags x) (assert_that (p_content_length x = 0)
       (STRICT_CHECK (ch \<noteq> CR) x (Break (callback_body (x_p x) (x\<lparr>p_state := s_chunk_data_done\<rparr>)))))"

definition do_chunk_data_done :: "char \<Rightarrow> http_exec \<Rightarrow> outcome" where
  "do_chunk_data_done ch x =
     assert_that (F_CHUNKED \<in> p_flags x)
       (STRICT_CHECK (ch \<noteq> LF) x (go s_chunk_size_start (x\<lparr>p_nread := 0\<rparr>)))"

section \<open>The switch\<close>

definition exec_byte :: "nat \<Rightarrow> char \<Rightarrow> http_exec \<Rightarrow> outcome" where
  "exec_byte len ch x =
     (case p_state x of
        s_dead \<Rightarrow> do_dead ch x
      | s_start_req_or_res \<Rightarrow> do_start_req_or_res ch x
      | s_res_or_resp_H \<Rightarrow> do_res_or_resp_H ch x
      | s_start_res \<Rightarrow> do_start_res ch x
      | s_res_H \<Rightarrow> do_expect (CHR ''T'') s_res_HT ch x
      | s_res_HT \<Rightarrow> do_expect (CHR ''T'') s_res_HTT ch x
      | s_res_HTT \<Rightarrow> do_expect (CHR ''P'') s_res_HTTP ch x
      | s_res_HTTP \<Rightarrow> do_expect (CHR ''/'') s_res_first_http_major ch x
      | s_res_first_http_major \<Rightarrow> do_first_major 48 s_res_http_major ch x
      | s_res_http_major \<Rightarrow> do_major s_res_first_http_minor ch x
      | s_res_first_http_minor \<Rightarrow> do_first_minor s_res_http_minor ch x
      | s_res_http_minor \<Rightarrow> do_res_http_minor ch x
      | s_res_first_status_code \<Rightarrow> do_res_first_status_code ch x
      | s_res_status_code \<Rightarrow> do_res_status_code ch x
      | s_res_status \<Rightarrow> do_res_status ch x
      | s_res_line_almost_done \<Rightarrow> do_expect LF s_header_field_start ch x
      | s_start_req \<Rightarrow> do_start_req ch x
      | s_req_method \<Rightarrow> do_req_method ch x
      | s_req_spaces_before_url \<Rightarrow> do_req_spaces_before_url ch x
      | s_req_schema \<Rightarrow> do_req_schema ch x
      | s_req_schema_slash \<Rightarrow> do_req_schema ch x
      | s_req_schema_slash_slash \<Rightarrow> do_req_schema ch x
      | s_req_server_start \<Rightarrow> do_req_schema ch x
      | s_req_server \<Rightarrow> do_req_url ch x
      | s_req_server_with_at \<Rightarrow> do_req_url ch x
      | s_req_path \<Rightarrow> do_req_url ch x
      | s_req_query_string_start \<Rightarrow> do_req_url ch x
      | s_req_query_string \<Rightarrow> do_req_url ch x
      | s_req_fragment_start \<Rightarrow> do_req_url ch x
      | s_req_fragment \<Rightarrow> do_req_url ch x
      | s_req_http_start \<Rightarrow> do_req_http_start ch x
      | s_req_http_H \<Rightarrow> do_expect (CHR ''T'') s_req_http_HT ch x
      | s_req_http_HT \<Rightarrow> do_expect (CHR ''T'') s_req_http_HTT ch x
      | s_req_http_HTT \<Rightarrow> do_expect (CHR ''P'') s_req_http_HTTP ch x
      | s_req_http_HTTP \<Rightarrow> do_expect (CHR ''/'') s_req_first_http_major ch x
      | s_req_first_http_major \<Rightarrow> do_first_major 49 s_req_http_major ch x
      | s_req_http_major \<Rightarrow> do_major s_req_first_http_minor ch x
      | s_req_first_http_minor \<Rightarrow> do_first_minor s_req_http_minor ch x
      | s_req_http_minor \<Rightarrow> do_req_http_minor ch x
      | s_req_line_almost_done \<Rightarrow> do_req_line_almost_done ch x
      | s_header_field_start \<Rightarrow> do_header_field_start ch x
      | s_header_field \<Rightarrow> do_header_field ch x
      | s_header_value_start \<Rightarrow> do_header_value_start ch x
      | s_header_value \<Rightarrow> do_header_value ch x
      | s_header_value_lws \<Rightarrow> do_header_value_lws ch x
      | s_header_almost_done \<Rightarrow> do_header_almost_done ch x
      | s_chunk_size_start \<Rightarrow> do_chunk_size_start ch x
      | s_chunk_size \<Rightarrow> do_chunk_size ch x
      | s_chunk_parameters \<Rightarrow> do_chunk_parameters ch x
      | s_chunk_size_almost_done \<Rightarrow> do_chunk_size_almost_done ch x
      | s_headers_almost_done \<Rightarrow> do_headers_almost_done ch x
      | s_headers_done \<Rightarrow> do_headers_done ch x
      | s_chunk_data \<Rightarrow> do_chunk_data len x
      | s_chunk_data_almost_done \<Rightarrow> do_chunk_data_almost_done ch x
      | s_chunk_data_done \<Rightarrow> do_chunk_data_done ch x
      | s_body_identity \<Rightarrow> do_body_identity len x
      | s_body_identity_eof \<Rightarrow> do_body_identity_eof len x
      | s_message_done \<Rightarrow> Break (message_complete x))"

section \<open>The loop\<close>

text \<open>What the handlers are made of.\<close>

lemmas outcome_defs = SET_ERRNO_def go_def STRICT_CHECK_def assert_that_def Let_def

lemmas first_line_defs = do_dead_def do_start_req_or_res_def do_res_or_resp_H_def do_start_res_def do_expect_def
  do_first_major_def do_major_def do_first_minor_def more_minor_def do_res_http_minor_def do_req_http_minor_def
  do_res_first_status_code_def do_res_status_code_def do_res_status_def do_start_req_def do_req_method_def
  url_char_def do_req_spaces_before_url_def do_req_schema_def do_req_url_def do_req_http_start_def
  do_req_line_almost_done_def

lemmas header_defs = do_header_field_start_def header_field_char_def do_header_field_def header_value_first_def
  do_header_value_start_def grow_length_def header_value_char_def do_header_value_def do_header_almost_done_def
  do_header_value_lws_def do_headers_almost_done_def do_headers_done_def

lemmas body_defs = do_body_identity_def do_body_identity_eof_def do_chunk_size_start_def do_chunk_size_def
  do_chunk_parameters_def do_chunk_size_almost_done_def do_chunk_data_def do_chunk_data_almost_done_def
  do_chunk_data_done_def

text \<open>A repetition goes from a state of a higher rank to one of a lower.\<close>

definition rank :: "pstate \<Rightarrow> nat" where
  "rank s =
     (case s of s_start_req_or_res \<Rightarrow> 1 | s_header_value \<Rightarrow> 1 | s_header_value_lws \<Rightarrow> 3 | s_header_field_start \<Rightarrow> 2
      | s_headers_almost_done \<Rightarrow> 1 | s_body_identity \<Rightarrow> 1 | _ \<Rightarrow> 0)"

lemma callbacks_state [simp]:
  "p_state (callback_url x) = p_state x" "p_state (callback_header_field x) = p_state x"
  "p_state (callback_header_value x) = p_state x" "p_state (callback_body n x) = p_state x"
  "p_state (notify_headers_complete x) = p_state x"
  by (simp_all add: callback_url_def callback_header_field_def callback_header_value_def callback_body_def
      notify_headers_complete_def split: option.split)

lemma grow_length_no_reexec: "grow_length b d x \<noteq> Reexec y"
  by (simp add: grow_length_def outcome_defs)

lemma header_chars_no_reexec:
  "header_field_char ch c x \<noteq> Reexec y" "header_value_first ch c x \<noteq> Reexec y"
  "header_value_char ch c x \<noteq> Reexec y"
  by (simp_all add: header_field_char_def header_value_first_def header_value_char_def grow_length_def
      outcome_defs split: header_states.split)

lemma exec_byte_rank: "exec_byte len ch x = Reexec x' \<Longrightarrow> rank (p_state x') < rank (p_state x)"
proof (cases "p_state x")
  case s_header_field_start
  assume "exec_byte len ch x = Reexec x'"
  then show ?thesis using s_header_field_start
    by (auto simp: exec_byte_def do_header_field_start_def outcome_defs rank_def split: if_splits)
next
  case s_header_almost_done
  assume "exec_byte len ch x = Reexec x'"
  then show ?thesis using s_header_almost_done
    by (auto simp: exec_byte_def do_header_almost_done_def outcome_defs split: if_splits header_states.splits)
next
  case s_headers_almost_done
  assume "exec_byte len ch x = Reexec x'"
  then show ?thesis using s_headers_almost_done
    by (auto simp: exec_byte_def do_headers_almost_done_def outcome_defs rank_def split: if_splits)
next
  case s_req_method
  assume "exec_byte len ch x = Reexec x'"
  then show ?thesis using s_req_method
    by (auto simp: exec_byte_def do_req_method_def outcome_defs split: if_splits option.splits)
qed (simp_all add: exec_byte_def first_line_defs do_header_field_def do_header_value_start_def
    do_header_value_def do_header_value_lws_def do_headers_done_def body_defs header_chars_no_reexec
    grow_length_no_reexec outcome_defs rank_def split: if_splits option.splits, (auto simp: rank_def)?)

function run_byte :: "nat \<Rightarrow> char \<Rightarrow> http_exec \<Rightarrow> outcome" where
  "run_byte len ch x = (case exec_byte len ch x of Reexec x' \<Rightarrow> run_byte len ch x' | r \<Rightarrow> r)"
  by auto
termination
  by (relation "measure (\<lambda>(len, ch, x). rank (p_state x))") (simp_all add: exec_byte_rank)

declare run_byte.simps [simp del]

text \<open>Bytes outside a body are counted.\<close>

definition count_byte :: "http_exec \<Rightarrow> outcome" where
  "count_byte x =
     (if PARSING_HEADER (p_state x) then
        (let x = x\<lparr>p_nread := p_nread x + 1\<rparr>
         in if p_nread x > HTTP_MAX_HEADER_SIZE then SET_ERRNO HPE_HEADER_OVERFLOW x else Break x)
      else Break x)"

definition exec_step :: "nat \<Rightarrow> char \<Rightarrow> http_exec \<Rightarrow> outcome" where
  "exec_step len ch x = (case count_byte x of Break x \<Rightarrow> run_byte len ch x | r \<Rightarrow> r)"

text \<open>No step moves back.\<close>

lemma callbacks_p [simp]:
  "x_p (callback_url x) = x_p x" "x_p (callback_header_field x) = x_p x"
  "x_p (callback_header_value x) = x_p x" "x_p (callback_body n x) = x_p x"
  "x_p (notify_headers_complete x) = x_p x" "x_p (message_complete x) = x_p x"
  "x_p (match_header name f c x) = x_p x"
  by (simp_all add: callback_url_def callback_header_field_def callback_header_value_def callback_body_def
      notify_headers_complete_def message_complete_def notify_message_complete_def match_header_def Let_def
      split: option.split)

text \<open>What holds of the state after the code for a byte: \<open>P\<close> at the end of the switch, \<open>R\<close> when the byte
  is looked at again, \<open>Q\<close> of the number of bytes consumed and the state when the parser stops; \<open>f\<close> tells
  whether a fault is allowed.\<close>

primrec ends :: "bool \<Rightarrow> (http_exec \<Rightarrow> bool) \<Rightarrow> (http_exec \<Rightarrow> bool) \<Rightarrow> (nat \<Rightarrow> http_exec \<Rightarrow> bool) \<Rightarrow> outcome \<Rightarrow> bool" where
  "ends f P R Q (Break x) = P x"
| "ends f P R Q (Reexec x) = R x"
| "ends f P R Q (Error x) = Q (x_p x) x"
| "ends f P R Q (Return n x) = Q n x"
| "ends f P R Q (Fault e) = f"

lemma ends_if: "ends f P R Q (if c then a else b) = (if c then ends f P R Q a else ends f P R Q b)"
  by simp

lemma ends_outcomes [simp]:
  "ends f P R Q (SET_ERRNO e x) = Q (x_p x) (x\<lparr>p_errno := e\<rparr>)"
  "ends f P R Q (go s x) = P (x\<lparr>p_state := s\<rparr>)"
  "ends f P R Q (STRICT_CHECK c x k) = (if c then Q (x_p x) (x\<lparr>p_errno := HPE_STRICT\<rparr>) else ends f P R Q k)"
  "ends f P R Q (assert_that c k) = (if c then ends f P R Q k else f)"
  by (simp_all add: outcome_defs)

lemma ends_option:
  "ends f P R Q (case v of None \<Rightarrow> a | Some m \<Rightarrow> g m) \<longleftrightarrow>
     (v = None \<longrightarrow> ends f P R Q a) \<and> (\<forall>m. v = Some m \<longrightarrow> ends f P R Q (g m))"
  by (cases v) simp_all

lemmas ends_simps = ends_if ends_option Let_def

lemma take_body_p: "p_content_length x \<noteq> 0 \<Longrightarrow> x_p x < len \<Longrightarrow> x_p x \<le> x_p (take_body len x) \<and> x_p (take_body len x) < len"
proof -
  assume "p_content_length x \<noteq> 0" "x_p x < len"
  then have "0 < to_read len x" "x_p x + to_read len x \<le> len"
    by (simp_all add: to_read_def unat_gt_0)
  then show ?thesis unfolding take_body_def Let_def by simp linarith
qed

lemma header_chars_p:
  assumes "x_p x < len"
  defines "P \<equiv> \<lambda>y. x_p x \<le> x_p y \<and> x_p y < len"
  shows "ends True P P (\<lambda>_ _. True) (header_field_char ch c x)"
    and "ends True P P (\<lambda>_ _. True) (header_value_first ch c x)"
    and "ends True P P (\<lambda>_ _. True) (header_value_char ch c x)"
    and "ends True P P (\<lambda>_ _. True) (grow_length b d x)"
  using assms(1)
  by (simp_all add: P_def header_field_char_def header_value_first_def header_value_char_def grow_length_def
      ends_simps split: header_states.split)

lemma exec_byte_p:
  assumes "x_p x < len"
  shows "ends True (\<lambda>y. x_p x \<le> x_p y \<and> x_p y < len) (\<lambda>y. x_p x \<le> x_p y \<and> x_p y < len) (\<lambda>_ _. True) (exec_byte len ch x)"
proof (cases "p_state x")
  case s_header_value_start
  then show ?thesis
    using assms header_chars_p(2) [of "x\<lparr>x_header_value_mark := mark (x_p x) (x_header_value_mark x),
      p_state := s_header_value, p_index := 0\<rparr>" len ch "LOWER ch"]
    by (simp add: exec_byte_def do_header_value_start_def ends_simps)
next
  case s_header_almost_done
  then show ?thesis
    using assms by (simp add: exec_byte_def do_header_almost_done_def ends_simps split: header_states.split)
qed (use assms take_body_p [of x len] header_chars_p [OF assms] in
    \<open>simp_all add: exec_byte_def first_line_defs do_header_field_start_def do_header_field_def
      do_header_value_def do_header_value_lws_def do_headers_almost_done_def do_headers_done_def body_defs
      ends_simps\<close>)

text \<open>The repetition of a byte keeps what the code for a byte keeps.\<close>

lemma run_byte_ends:
  assumes "\<And>x. R x \<Longrightarrow> ends f P R Q (exec_byte len ch x)" "R x"
  shows "ends f P R Q (run_byte len ch x)"
  using assms
proof (induction len ch x rule: run_byte.induct)
  case (1 len ch x)
  have "ends f P R Q (exec_byte len ch x)" using "1.prems"(1) [OF "1.prems"(2)] .
  then show ?case
    using "1.IH" "1.prems"(1) by (subst run_byte.simps) (auto split: outcome.split)
qed

lemma run_byte_p:
  assumes "x_p x < len"
  shows "ends True (\<lambda>y. x_p x \<le> x_p y \<and> x_p y < len) (\<lambda>y. x_p x \<le> x_p y \<and> x_p y < len) (\<lambda>_ _. True) (run_byte len ch x)"
proof (rule run_byte_ends)
  fix y :: http_exec assume "x_p x \<le> x_p y \<and> x_p y < len"
  then show "ends True (\<lambda>z. x_p x \<le> x_p z \<and> x_p z < len) (\<lambda>z. x_p x \<le> x_p z \<and> x_p z < len) (\<lambda>_ _. True) (exec_byte len ch y)"
    using exec_byte_p [of y len ch] by (cases "exec_byte len ch y") auto
qed (use assms in simp)

lemma exec_step_p:
  assumes "exec_step len ch x = Break y" "x_p x < len"
  shows "x_p x \<le> x_p y \<and> x_p y < len"
proof -
  obtain z where z: "count_byte x = Break z" "run_byte len ch z = Break y"
    using assms(1) by (auto simp: exec_step_def split: outcome.splits)
  have "x_p z = x_p x" using z(1) by (auto simp: count_byte_def outcome_defs split: if_splits)
  then show ?thesis using run_byte_p [of z len ch] assms(2) z(2) by simp
qed

function exec_loop :: "string \<Rightarrow> http_exec \<Rightarrow> outcome" where
  "exec_loop data x =
     (if length data \<le> x_p x then Break x
      else (case exec_step (length data) (data ! x_p x) x of
              Break x' \<Rightarrow> exec_loop data (x'\<lparr>x_p := x_p x' + 1\<rparr>)
            | r \<Rightarrow> r))"
  by auto
termination
proof (relation "measure (\<lambda>(data, x). length data - x_p x)", goal_cases)
  case (2 data x x')
  then show ?case using exec_step_p [of "length data" "data ! x_p x" x x'] by simp linarith
qed simp

declare exec_loop.simps [simp del]

text \<open>Marks that are left when the bytes have run out.\<close>

definition marks_set :: "http_exec \<Rightarrow> nat" where
  "marks_set x = length (filter (\<lambda>m. m \<noteq> None)
     [x_header_field_mark x, x_header_value_mark x, x_url_mark x, x_body_mark x])"

definition flush_marks :: "http_exec \<Rightarrow> http_exec" where
  "flush_marks x = callback_body (x_p x) (callback_url (callback_header_value (callback_header_field x)))"

definition exec_end :: "nat \<Rightarrow> http_exec \<Rightarrow> outcome" where
  "exec_end len x = assert_that (marks_set x \<le> 1) (Return len (flush_marks x))"

section \<open>The interface\<close>

definition http_parser_init :: "http_parser_type \<Rightarrow> http_parser" where
  "http_parser_init t =
     \<lparr>p_type = t, p_flags = {},
      p_state = (if t = HTTP_REQUEST then s_start_req
                 else if t = HTTP_RESPONSE then s_start_res else s_start_req_or_res),
      p_header_state = h_general, p_index = 0, p_nread = 0, p_content_length = 0, p_http_major = 0,
      p_http_minor = 0, p_status_code = 0, p_method = HTTP_DELETE, p_errno = HPE_OK, p_upgrade = False\<rparr>"

text \<open>The marks at the start belong to a field that was cut by the end of the data of the call before.\<close>

definition url_states :: "pstate set" where
  "url_states = {s_req_path, s_req_schema, s_req_schema_slash, s_req_schema_slash_slash, s_req_server_start,
     s_req_server, s_req_server_with_at, s_req_query_string_start, s_req_query_string, s_req_fragment_start,
     s_req_fragment}"

definition exec_start :: "http_parser \<Rightarrow> http_exec" where
  "exec_start parser = http_parser.extend parser
     \<lparr>x_p = 0, x_header_field_mark = (if p_state parser = s_header_field then Some 0 else None),
      x_header_value_mark = (if p_state parser = s_header_value then Some 0 else None),
      x_url_mark = (if p_state parser \<in> url_states then Some 0 else None), x_body_mark = None, x_events = []\<rparr>"

definition exec_all :: "string \<Rightarrow> http_exec \<Rightarrow> outcome" where
  "exec_all data x =
     (case exec_loop data x of
        Break x \<Rightarrow> exec_end (length data) x
      | Error x \<Rightarrow> Return (x_p x) (if p_errno x = HPE_OK then x\<lparr>p_errno := HPE_UNKNOWN\<rparr> else x)
      | r \<Rightarrow> r)"

text \<open>The result, the parser afterwards, and the callbacks made.\<close>

definition http_parser_execute :: "http_parser \<Rightarrow> string \<Rightarrow> (nat \<times> http_parser \<times> http_event list) res" where
  "http_parser_execute parser data =
     (if p_errno parser \<noteq> HPE_OK then Inr (0, parser, [])
      else if data = [] then
        (if p_state parser = s_body_identity_eof then Inr (0, parser, [EvMessageComplete])
         else if p_state parser \<in> {s_dead, s_start_req_or_res, s_start_res, s_start_req} then Inr (0, parser, [])
         else Inr (1, parser\<lparr>p_errno := HPE_INVALID_EOF_STATE\<rparr>, []))
      else
        (case exec_all data (exec_start parser) of
           Return n x \<Rightarrow> Inr (n, http_parser.truncate x, x_events x)
         | Fault e \<Rightarrow> Inl e
         | _ \<Rightarrow> Inl AssertFailed))"

definition http_body_is_final :: "http_parser \<Rightarrow> bool" where
  "http_body_is_final parser \<longleftrightarrow> p_state parser = s_message_done"

definition http_parser_pause :: "bool \<Rightarrow> http_parser \<Rightarrow> http_parser res" where
  "http_parser_pause paused parser =
     (if p_errno parser = HPE_OK \<or> p_errno parser = HPE_PAUSED
      then Inr (parser\<lparr>p_errno := (if paused then HPE_PAUSED else HPE_OK)\<rparr>)
      else Inl AssertFailed)"

end
