(* ===== verification/HttpSafety.thy ===== *)
theory HttpSafety
  imports HttpParser
begin

text \<open>
  The parser on any input: what holds between two bytes, and from it that every run returns, that no
  assertion of the code fails, that no name is read past its end, that the counters stay far below the
  width of their members, and that every piece of data a callback is given lies in the data.
\<close>

section \<open>The invariant\<close>

definition body_states :: "pstate set" where
  "body_states = {s_body_identity, s_body_identity_eof, s_chunk_data, s_chunk_data_almost_done}"

definition marks_ok :: "http_exec \<Rightarrow> bool" where
  "marks_ok x \<longleftrightarrow>
     (\<forall>m. x_url_mark x = Some m \<longrightarrow> p_state x \<in> url_states \<and> m \<le> x_p x) \<and>
     (\<forall>m. x_header_field_mark x = Some m \<longrightarrow> p_state x = s_header_field \<and> m \<le> x_p x) \<and>
     (\<forall>m. x_header_value_mark x = Some m \<longrightarrow> p_state x = s_header_value \<and> m \<le> x_p x) \<and>
     (\<forall>m. x_body_mark x = Some m \<longrightarrow> p_state x \<in> body_states \<and> m \<le> x_p x)"

fun event_in :: "nat \<Rightarrow> http_event \<Rightarrow> bool" where
  "event_in len (EvUrl p n) = (p + n \<le> len)"
| "event_in len (EvHeaderField p n) = (p + n \<le> len)"
| "event_in len (EvHeaderValue p n) = (p + n \<le> len)"
| "event_in len (EvBody p n) = (p + n \<le> len)"
| "event_in len _ = True"

definition events_ok :: "nat \<Rightarrow> http_exec \<Rightarrow> bool" where
  "events_ok len x \<longleftrightarrow> (\<forall>e \<in> set (x_events x). event_in len e)"

definition data_ok :: "nat \<Rightarrow> http_exec \<Rightarrow> bool" where
  "data_ok len x \<longleftrightarrow> x_p x < len \<and> marks_ok x \<and> events_ok len x"

text \<open>What the state tells of the other members.\<close>

definition field_states :: "header_states set" where
  "field_states = {h_general, h_C, h_CO, h_CON, h_matching_connection, h_matching_proxy_connection,
     h_matching_content_length, h_matching_transfer_encoding, h_matching_upgrade, h_connection,
     h_content_length, h_transfer_encoding, h_upgrade}"

definition chunk_states :: "pstate set" where
  "chunk_states = {s_chunk_size_start, s_chunk_size, s_chunk_parameters, s_chunk_size_almost_done, s_chunk_data,
     s_chunk_data_almost_done, s_chunk_data_done}"

definition control_ok :: "http_exec \<Rightarrow> bool" where
  "control_ok x \<longleftrightarrow>
     (p_state x = s_req_method \<longrightarrow> p_index x \<le> length (method_string (p_method x))) \<and>
     (p_state x = s_header_field \<longrightarrow> p_header_state x \<in> field_states) \<and>
     (p_state x = s_header_value \<longrightarrow> p_header_state x \<noteq> h_connection \<and> p_header_state x \<noteq> h_transfer_encoding) \<and>
     (p_state x \<in> chunk_states \<longrightarrow> F_CHUNKED \<in> p_flags x) \<and>
     (p_state x \<in> {s_chunk_size, s_chunk_parameters, s_chunk_size_almost_done, s_chunk_data, s_body_identity}
        \<longrightarrow> p_content_length x \<noteq> ULLONG_MAX) \<and>
     (p_state x \<in> {s_chunk_data, s_body_identity} \<longrightarrow> p_content_length x \<noteq> 0) \<and>
     (p_state x = s_chunk_data_almost_done \<longrightarrow> p_content_length x = 0)"

section \<open>Each case of the switch keeps it\<close>

lemma parse_url_char_states: "parse_url_char s ch = s_dead \<or> parse_url_char s ch \<in> url_states"
proof -
  have "parse_server_char ch \<in> insert s_dead url_states" "parse_query_char ch \<in> insert s_dead url_states"
    by (simp_all add: parse_server_char_def parse_query_char_def url_states_def)
  then show ?thesis
    by (cases s) (simp_all add: parse_url_char_def, simp_all add: url_states_def)
qed

lemma NEW_MESSAGE_states: "NEW_MESSAGE x \<in> {s_start_req, s_start_res, s_dead}"
  by (simp add: NEW_MESSAGE_def start_state_def)

subsection \<open>Marks and events\<close>

lemma mark_Some: "mark p m = Some q \<Longrightarrow> (m = None \<and> q = p) \<or> m = Some q"
  by (simp add: mark_def split: option.splits)

lemma data_ok_D:
  assumes "data_ok len x"
  shows "x_p x < len" "events_ok len x"
    "p_state x \<notin> url_states \<Longrightarrow> x_url_mark x = None"
    "p_state x \<noteq> s_header_field \<Longrightarrow> x_header_field_mark x = None"
    "p_state x \<noteq> s_header_value \<Longrightarrow> x_header_value_mark x = None"
    "p_state x \<notin> body_states \<Longrightarrow> x_body_mark x = None"
    "x_url_mark x = Some m \<Longrightarrow> m \<le> x_p x" "x_header_field_mark x = Some m \<Longrightarrow> m \<le> x_p x"
    "x_header_value_mark x = Some m \<Longrightarrow> m \<le> x_p x" "x_body_mark x = Some m \<Longrightarrow> m \<le> x_p x"
  using assms unfolding data_ok_def marks_ok_def by (auto simp: not_None_eq [symmetric] simp del: not_None_eq)

text \<open>A step that changes neither marks, position nor events, to a state that has no mark.\<close>

lemma data_ok_unmarked:
  assumes "data_ok len x" "p_state x \<notin> url_states" "p_state x \<noteq> s_header_field" "p_state x \<noteq> s_header_value"
    "p_state x \<notin> body_states"
    and "x_p y = x_p x" "x_events y = x_events x" "x_url_mark y = x_url_mark x"
      "x_header_field_mark y = x_header_field_mark x" "x_header_value_mark y = x_header_value_mark x"
      "x_body_mark y = x_body_mark x"
  shows "data_ok len y"
  using assms data_ok_D [OF assms(1)] by (simp add: data_ok_def marks_ok_def events_ok_def)

lemma callbacks_data:
  assumes "x_p x < len" "events_ok len x"
  shows "\<lbrakk>\<And>m. x_url_mark x = Some m \<Longrightarrow> m \<le> x_p x\<rbrakk> \<Longrightarrow> events_ok len (callback_url x) \<and> x_url_mark (callback_url x) = None"
    and "\<lbrakk>\<And>m. x_header_field_mark x = Some m \<Longrightarrow> m \<le> x_p x\<rbrakk> \<Longrightarrow>
      events_ok len (callback_header_field x) \<and> x_header_field_mark (callback_header_field x) = None"
    and "\<lbrakk>\<And>m. x_header_value_mark x = Some m \<Longrightarrow> m \<le> x_p x\<rbrakk> \<Longrightarrow>
      events_ok len (callback_header_value x) \<and> x_header_value_mark (callback_header_value x) = None"
    and "\<lbrakk>\<And>m. x_body_mark x = Some m \<Longrightarrow> m \<le> x_p x\<rbrakk> \<Longrightarrow> n \<le> x_p x + 1 \<Longrightarrow> x_p x \<le> n \<Longrightarrow>
      events_ok len (callback_body n x) \<and> x_body_mark (callback_body n x) = None"
  using assms
  by (auto simp: callback_url_def callback_header_field_def callback_header_value_def callback_body_def
      events_ok_def split: option.split)

lemma callbacks_other_marks [simp]:
  "x_header_field_mark (callback_url x) = x_header_field_mark x"
  "x_header_value_mark (callback_url x) = x_header_value_mark x" "x_body_mark (callback_url x) = x_body_mark x"
  "x_url_mark (callback_header_field x) = x_url_mark x"
  "x_header_value_mark (callback_header_field x) = x_header_value_mark x"
  "x_body_mark (callback_header_field x) = x_body_mark x"
  "x_url_mark (callback_header_value x) = x_url_mark x"
  "x_header_field_mark (callback_header_value x) = x_header_field_mark x"
  "x_body_mark (callback_header_value x) = x_body_mark x"
  "x_url_mark (callback_body n x) = x_url_mark x"
  "x_header_field_mark (callback_body n x) = x_header_field_mark x"
  "x_header_value_mark (callback_body n x) = x_header_value_mark x"
  by (simp_all add: callback_url_def callback_header_field_def callback_header_value_def callback_body_def
      split: option.split)

lemma match_header_data [simp]:
  "x_url_mark (match_header name f c x) = x_url_mark x"
  "x_header_field_mark (match_header name f c x) = x_header_field_mark x"
  "x_header_value_mark (match_header name f c x) = x_header_value_mark x"
  "x_body_mark (match_header name f c x) = x_body_mark x"
  "x_events (match_header name f c x) = x_events x" "p_state (match_header name f c x) = p_state x"
  by (simp_all add: match_header_def Let_def)

lemma notify_data [simp]:
  "x_url_mark (message_complete x) = x_url_mark x" "x_header_field_mark (message_complete x) = x_header_field_mark x"
  "x_header_value_mark (message_complete x) = x_header_value_mark x" "x_body_mark (message_complete x) = x_body_mark x"
  "x_url_mark (notify_headers_complete x) = x_url_mark x"
  "x_header_field_mark (notify_headers_complete x) = x_header_field_mark x"
  "x_header_value_mark (notify_headers_complete x) = x_header_value_mark x"
  "x_body_mark (notify_headers_complete x) = x_body_mark x"
  "events_ok len (message_complete x) = events_ok len x"
  "events_ok len (notify_headers_complete x) = events_ok len x"
  by (simp_all add: message_complete_def notify_message_complete_def notify_headers_complete_def events_ok_def)

lemma header_chars_data:
  assumes "x_p x < len" "events_ok len x" "x_url_mark x = None" "x_body_mark x = None"
  shows "p_state x = s_header_field \<Longrightarrow> x_header_value_mark x = None \<Longrightarrow>
      (\<And>m. x_header_field_mark x = Some m \<Longrightarrow> m \<le> x_p x) \<Longrightarrow>
      ends True (data_ok len) (data_ok len) (\<lambda>n y. n \<le> len \<and> events_ok len y) (header_field_char ch c x)"
    and "p_state x = s_header_value \<Longrightarrow> x_header_field_mark x = None \<Longrightarrow>
      (\<And>m. x_header_value_mark x = Some m \<Longrightarrow> m \<le> x_p x) \<Longrightarrow>
      ends True (data_ok len) (data_ok len) (\<lambda>n y. n \<le> len \<and> events_ok len y) (header_value_first ch c x)"
    and "p_state x = s_header_value \<Longrightarrow> x_header_field_mark x = None \<Longrightarrow>
      (\<And>m. x_header_value_mark x = Some m \<Longrightarrow> m \<le> x_p x) \<Longrightarrow>
      ends True (data_ok len) (data_ok len) (\<lambda>n y. n \<le> len \<and> events_ok len y) (header_value_char ch c x)"
  using assms
  by (simp_all add: header_field_char_def header_value_first_def header_value_char_def grow_length_def ends_simps
      data_ok_def marks_ok_def events_ok_def split: header_states.split)

abbreviation data_ends :: "nat \<Rightarrow> outcome \<Rightarrow> bool" where
  "data_ends len \<equiv> ends True (data_ok len) (data_ok len) (\<lambda>n y. n \<le> len \<and> events_ok len y)"

lemma url_char_data:
  assumes "x_p x < len" "events_ok len x" "x_header_field_mark x = None" "x_header_value_mark x = None"
    "x_body_mark x = None" "\<And>m. x_url_mark x = Some m \<Longrightarrow> m \<le> x_p x"
  shows "data_ends len (url_char ch x)"
  using assms parse_url_char_states [of "p_state x" ch]
  by (auto simp: url_char_def ends_simps data_ok_def marks_ok_def events_ok_def)

lemma take_body_data:
  assumes "x_p x < len" "events_ok len x" "x_url_mark x = None" "x_header_field_mark x = None"
    "x_header_value_mark x = None" "\<And>m. x_body_mark x = Some m \<Longrightarrow> m \<le> x_p x" "p_content_length x \<noteq> 0"
  defines "y \<equiv> take_body len x"
  shows "x_p y < len" "events_ok len y" "x_url_mark y = None" "x_header_field_mark y = None"
    "x_header_value_mark y = None" "\<And>m. x_body_mark y = Some m \<Longrightarrow> m \<le> x_p y" "p_state y = p_state x"
proof -
  have p: "x_p x \<le> x_p y" "x_p y < len" using take_body_p [OF assms(7,1)] by (simp_all add: y_def)
  have "m \<le> x_p x" if "x_body_mark y = Some m" for m
    using that assms(6) by (auto simp: y_def take_body_def Let_def dest: mark_Some)
  then show "\<And>m. x_body_mark y = Some m \<Longrightarrow> m \<le> x_p y" using p(1) le_trans by blast
  show "x_p y < len" by (rule p(2))
qed (use assms in \<open>simp_all add: take_body_def Let_def events_ok_def\<close>)

lemma events_update [simp]:
  "events_ok len (x\<lparr>p_state := s\<rparr>) = events_ok len x" "events_ok len (x\<lparr>p_header_state := h\<rparr>) = events_ok len x"
  "events_ok len (x\<lparr>x_url_mark := m\<rparr>) = events_ok len x"
  "events_ok len (x\<lparr>x_header_field_mark := m\<rparr>) = events_ok len x"
  "events_ok len (x\<lparr>x_header_value_mark := m\<rparr>) = events_ok len x"
  "events_ok len (x\<lparr>p_index := i\<rparr>) = events_ok len x" "events_ok len (x\<lparr>p_nread := r\<rparr>) = events_ok len x"
  "events_ok len (x\<lparr>p_http_major := i\<rparr>) = events_ok len x" "events_ok len (x\<lparr>p_http_minor := i\<rparr>) = events_ok len x"
  "events_ok len (x\<lparr>p_errno := e\<rparr>) = events_ok len x" "events_ok len (x\<lparr>p_upgrade := u\<rparr>) = events_ok len x"
  "events_ok len (x\<lparr>p_flags := f\<rparr>) = events_ok len x" "events_ok len (x\<lparr>p_content_length := c\<rparr>) = events_ok len x"
  "events_ok len (x\<lparr>x_p := i\<rparr>) = events_ok len x" "events_ok len (x\<lparr>x_body_mark := m\<rparr>) = events_ok len x"
  "events_ok len (x\<lparr>p_status_code := i\<rparr>) = events_ok len x" "events_ok len (x\<lparr>p_method := mt\<rparr>) = events_ok len x"
  "events_ok len (x\<lparr>p_type := pt\<rparr>) = events_ok len x"
  by (simp_all add: events_ok_def)

lemma data_ok_no_marks:
  assumes "x_p x < len" "events_ok len x" "x_url_mark x = None" "x_header_field_mark x = None"
    "x_header_value_mark x = None" "x_body_mark x = None"
  shows "data_ok len x"
  using assms by (simp add: data_ok_def marks_ok_def)

lemma unmarked_byte_data:
  assumes D: "data_ok len x" and s: "p_state x \<notin> url_states" "p_state x \<noteq> s_header_field" "p_state x \<noteq> s_header_value"
    "p_state x \<notin> body_states" "p_state x \<noteq> s_header_value_start" "p_state x \<noteq> s_req_spaces_before_url"
    "p_state x \<noteq> s_header_field_start"
  shows "data_ends len (exec_byte len ch x)"
proof -
  note M = data_ok_D(1-6) [OF D] and n = data_ok_no_marks
  show ?thesis
    by (cases "p_state x")
      (use s M in \<open>simp_all add: exec_byte_def first_line_defs do_header_almost_done_def do_header_value_lws_def
        do_headers_almost_done_def do_headers_done_def do_chunk_size_start_def do_chunk_size_def grow_length_def
        do_chunk_parameters_def do_chunk_size_almost_done_def do_chunk_data_done_def ends_simps n url_states_def
        body_states_def split: header_states.split\<close>)
qed

lemma url_byte_data:
  assumes D: "data_ok len x" and s: "p_state x \<in> insert s_req_spaces_before_url url_states"
  shows "data_ends len (exec_byte len ch x)"
proof -
  note M = data_ok_D(1,2,4-7) [OF D]
  have not: "p_state x \<noteq> s_header_field" "p_state x \<noteq> s_header_value" "p_state x \<notin> body_states"
    using s by (auto simp: url_states_def body_states_def)
  have char: "data_ends len (url_char ch x)"
    by (rule url_char_data) (use M not in simp_all)
  have first: "data_ends len (url_char ch (x\<lparr>x_url_mark := mark (x_p x) (x_url_mark x)\<rparr>))"
    "data_ends len (url_char ch (x\<lparr>x_url_mark := mark (x_p x) (x_url_mark x), p_state := st\<rparr>))" for st
    by (rule url_char_data; use M not in \<open>auto dest: mark_Some\<close>)+
  have callback: "data_ends len (Break (callback_url (x\<lparr>p_state := st\<rparr>)))"
    "data_ends len (Break (callback_url (x\<lparr>p_http_major := a, p_http_minor := b, p_state := st\<rparr>)))" for st a b
    using callbacks_data(1) [of "x\<lparr>p_state := st\<rparr>" len]
      callbacks_data(1) [of "x\<lparr>p_http_major := a, p_http_minor := b, p_state := st\<rparr>" len] M not
    by (simp_all add: data_ok_no_marks)
  show ?thesis
    by (cases "p_state x")
      (use s D M char first callback in \<open>simp_all add: exec_byte_def do_req_spaces_before_url_def do_req_schema_def
        do_req_url_def ends_simps url_states_def del: ends.simps(1)\<close>, use D in \<open>simp_all\<close>)
qed

lemma header_byte_data:
  assumes D: "data_ok len x"
    and s: "p_state x \<in> {s_header_field_start, s_header_field, s_header_value_start, s_header_value}"
  shows "data_ends len (exec_byte len ch x)"
proof -
  note M = data_ok_D(1-6,8-9) [OF D]
  have none: "x_url_mark x = None" "x_body_mark x = None"
    using s M by (auto simp: url_states_def body_states_def)
  have field: "data_ends len (Break (callback_header_field (x\<lparr>p_state := st\<rparr>)))" if "p_state x = s_header_field" for st
    using callbacks_data(2) [of "x\<lparr>p_state := st\<rparr>" len] M none that by (simp add: data_ok_no_marks)
  have callback: "data_ends len (Break (callback_header_value (y\<lparr>p_state := st\<rparr>))) \<and>
      data_ok len (callback_header_value (y\<lparr>p_state := st\<rparr>))"
    if "x_p y < len" "events_ok len y" "x_header_field_mark y = None" "x_url_mark y = None" "x_body_mark y = None"
      "\<And>m. x_header_value_mark y = Some m \<Longrightarrow> m \<le> x_p y" for y :: http_exec and st
    using callbacks_data(3) [of "y\<lparr>p_state := st\<rparr>" len] that by (simp add: data_ok_no_marks)
  show ?thesis
  proof (cases "p_state x")
    case s_header_field_start
    then have "x_header_field_mark x = None" "x_header_value_mark x = None" using M by simp_all
    then show ?thesis using s_header_field_start M none
      by (auto simp: exec_byte_def do_header_field_start_def ends_simps mark_def data_ok_def marks_ok_def
        url_states_def body_states_def)
  next
    case s_header_field
    then show ?thesis using header_chars_data(1) [OF M(1,2) none s_header_field] field M
      by (simp add: exec_byte_def do_header_field_def ends_simps del: ends.simps(1))
  next
    case s_header_value_start
    define y where "y = x\<lparr>x_header_value_mark := mark (x_p x) (x_header_value_mark x), p_state := s_header_value, p_index := 0\<rparr>"
    have y: "x_p y < len" "events_ok len y" "x_url_mark y = None" "x_body_mark y = None" "p_state y = s_header_value"
      "x_header_field_mark y = None" "\<And>m. x_header_value_mark y = Some m \<Longrightarrow> m \<le> x_p y"
      using M none s_header_value_start by (auto simp: y_def dest: mark_Some)
    have "data_ends len (header_value_first ch c y)" for c using header_chars_data(2) [OF y] .
    moreover have "data_ends len (Break (callback_header_value (y\<lparr>p_header_state := h, p_state := st\<rparr>)))"
      "data_ends len (Break (callback_header_value (y\<lparr>p_state := st\<rparr>)))" for h st
      using callback [of "y\<lparr>p_header_state := h\<rparr>" st] callback [of y st] y by simp_all
    ultimately show ?thesis using s_header_value_start D
      by (simp add: exec_byte_def do_header_value_start_def ends_simps del: ends.simps(1) flip: y_def)
        (simp add: y_def)
  next
    case s_header_value
    then show ?thesis
      using header_chars_data(3) [OF M(1,2) none s_header_value] callback [of x] M none
      by (simp add: exec_byte_def do_header_value_def ends_simps)
  qed (use s in simp_all)
qed

lemma body_byte_data:
  assumes D: "data_ok len x" and s: "p_state x \<in> body_states"
  shows "data_ends len (exec_byte len ch x)"
proof -
  note M = data_ok_D(1-5,10) [OF D]
  have none: "x_url_mark x = None" "x_header_field_mark x = None" "x_header_value_mark x = None"
    using s M by (auto simp: url_states_def body_states_def)
  define y where "y = take_body len x"
  have y: "x_p y < len" "events_ok len y" "x_url_mark y = None" "x_header_field_mark y = None"
    "x_header_value_mark y = None" "\<And>m. x_body_mark y = Some m \<Longrightarrow> m \<le> x_p y" "p_state y = p_state x"
    if "p_content_length x \<noteq> 0"
    using take_body_data [OF M(1,2) none M(6) that] by (simp_all add: y_def)
  have more: "data_ok len (callback_body n (z\<lparr>p_state := st\<rparr>))"
    if "x_p z < len" "events_ok len z" "x_url_mark z = None" "x_header_field_mark z = None"
      "x_header_value_mark z = None" "\<And>m. x_body_mark z = Some m \<Longrightarrow> m \<le> x_p z" "n \<le> x_p z + 1" "x_p z \<le> n"
    for n z st
    using callbacks_data(4) [of "z\<lparr>p_state := st\<rparr>" len n] that by (simp add: data_ok_no_marks)
  show ?thesis
  proof (cases "p_state x")
    case s_body_identity
    then show ?thesis using y more [of y "Suc (x_p y)" s_message_done]
      by (simp add: exec_byte_def do_body_identity_def ends_simps flip: y_def)
        (simp add: data_ok_def marks_ok_def url_states_def body_states_def)
  next
    case s_chunk_data
    then show ?thesis using y
      by (simp add: exec_byte_def do_chunk_data_def ends_simps data_ok_def marks_ok_def url_states_def body_states_def
          flip: y_def)
  next
    case s_chunk_data_almost_done
    then show ?thesis using M none more [of x "x_p x" s_chunk_data_done]
      by (simp add: exec_byte_def do_chunk_data_almost_done_def ends_simps)
  next
    case s_body_identity_eof
    have "m \<le> len - Suc 0" if "mark (x_p x) (x_body_mark x) = Some m" for m
    proof -
      have "m \<le> x_p x" using mark_Some [OF that] M(6) by auto
      then show ?thesis using M(1) by linarith
    qed
    then show ?thesis using s_body_identity_eof M none
      by (simp add: exec_byte_def do_body_identity_eof_def data_ok_def marks_ok_def url_states_def body_states_def)
  qed (use s in \<open>simp_all add: body_states_def\<close>)
qed

lemma exec_byte_data:
  assumes "data_ok len x"
  shows "data_ends len (exec_byte len ch x)"
proof -
  consider "p_state x \<in> body_states"
    | "p_state x \<in> insert s_req_spaces_before_url url_states"
    | "p_state x \<in> {s_header_field_start, s_header_field, s_header_value_start, s_header_value}"
    | "p_state x \<notin> body_states" "p_state x \<notin> insert s_req_spaces_before_url url_states"
      "p_state x \<notin> {s_header_field_start, s_header_field, s_header_value_start, s_header_value}"
    by blast
  then show ?thesis
    by cases (use assms body_byte_data url_byte_data header_byte_data unmarked_byte_data in \<open>simp_all\<close>)
qed

subsection \<open>Control\<close>

text \<open>The counter that the first chunk relies on is 0 at the end of a byte and 1 when the next one is read.\<close>

definition between_ok :: "http_exec \<Rightarrow> bool" where
  "between_ok x \<longleftrightarrow> control_ok x \<and> (p_state x = s_chunk_size_start \<longrightarrow> p_nread x = 0)"

definition within_ok :: "http_exec \<Rightarrow> bool" where
  "within_ok x \<longleftrightarrow> control_ok x \<and> (p_state x = s_chunk_size_start \<longrightarrow> p_nread x = 1)"

abbreviation control_ends :: "outcome \<Rightarrow> bool" where
  "control_ends \<equiv> ends False between_ok within_ok (\<lambda>n y. p_errno y \<noteq> HPE_OK \<or> between_ok y)"

lemma between_plain:
  "p_state x \<notin> {s_req_method, s_header_field, s_header_value, s_body_identity} \<Longrightarrow> p_state x \<notin> chunk_states \<Longrightarrow>
    between_ok x \<and> within_ok x"
  by (simp add: between_ok_def within_ok_def control_ok_def chunk_states_def)

lemma first_method_length: "first_method ch = Some m \<Longrightarrow> 1 \<le> length (method_string m)"
  by (auto simp: first_method_def split: if_splits)

lemma other_method_length: "other_method m i ch = Some m' \<Longrightarrow> i < length (method_string m')"
  by (auto simp: other_method_def split: if_splits)

lemma plain_byte_control:
  assumes "p_state x \<notin> {s_start_req, s_req_method, s_res_or_resp_H, s_header_field_start, s_header_field, s_header_value_start,
    s_header_value, s_headers_done, s_body_identity}" "p_state x \<notin> chunk_states"
  shows "control_ends (exec_byte len ch x)"
proof -
  have url: "between_ok y" if "p_state y = parse_url_char s ch" for y s
    using parse_url_char_states [of s ch] that
    by (auto intro!: conjunct1 [OF between_plain] simp: url_states_def chunk_states_def)
  have new: "NEW_MESSAGE x \<noteq> s_chunk_size_start \<and> NEW_MESSAGE x \<notin> chunk_states \<and>
      NEW_MESSAGE x \<notin> {s_req_method, s_header_field, s_header_value, s_body_identity}" for x
    using NEW_MESSAGE_states [of x] by (auto simp: chunk_states_def)
  show ?thesis
    by (cases "p_state x")
      (use assms url new in \<open>simp_all add: exec_byte_def first_line_defs do_header_almost_done_def do_header_value_lws_def
        do_headers_almost_done_def do_body_identity_eof_def message_complete_def notify_message_complete_def
        ends_simps between_plain chunk_states_def split: header_states.split\<close>)
qed

lemma match_header_control [simp]:
  "p_header_state x \<in> field_states \<Longrightarrow> found \<in> field_states \<Longrightarrow> p_header_state (match_header name found c x) \<in> field_states"
  "p_header_state x \<noteq> h \<Longrightarrow> found \<noteq> h \<Longrightarrow> h \<noteq> h_general \<Longrightarrow> p_header_state (match_header name found c x) \<noteq> h"
  by (auto simp: match_header_def Let_def field_states_def)

lemma marked_state_control:
  "p_state x = s_header_field \<Longrightarrow> p_header_state x \<in> field_states \<Longrightarrow> between_ok x \<and> within_ok x"
  "p_state x = s_header_value \<Longrightarrow> p_header_state x \<noteq> h_connection \<Longrightarrow> p_header_state x \<noteq> h_transfer_encoding \<Longrightarrow>
     between_ok x \<and> within_ok x"
  "p_state x = s_req_method \<Longrightarrow> p_index x \<le> length (method_string (p_method x)) \<Longrightarrow> between_ok x \<and> within_ok x"
  by (simp_all add: between_ok_def within_ok_def control_ok_def chunk_states_def)

lemma request_byte_control:
  assumes W: "within_ok x" and s: "p_state x \<in> {s_start_req, s_req_method, s_res_or_resp_H}"
  shows "control_ends (exec_byte len ch x)"
proof (cases "p_state x")
  case s_start_req
  then show ?thesis using first_method_length
    by (simp add: exec_byte_def do_start_req_def ends_simps between_plain marked_state_control chunk_states_def)
next
  case s_res_or_resp_H
  then show ?thesis
    by (simp add: exec_byte_def do_res_or_resp_H_def ends_simps between_plain marked_state_control chunk_states_def)
next
  case s_req_method
  have i: "p_index x \<le> length (method_string (p_method x))"
    using W s_req_method by (simp add: within_ok_def control_ok_def)
  show ?thesis
  proof (cases "ch = NUL")
    case False
    then have "p_index x < length (method_string (p_method x))" if "ch = (method_string (p_method x) @ [NUL]) ! p_index x"
      using that i by (cases "p_index x = length (method_string (p_method x))") (auto simp: nth_append)
    then show ?thesis using False s_req_method i other_method_length [of "p_method x" "p_index x" ch]
      by (simp add: exec_byte_def do_req_method_def ends_simps between_plain marked_state_control chunk_states_def Suc_le_eq)
  qed (use s_req_method in \<open>simp add: exec_byte_def do_req_method_def ends_simps\<close>)
qed (use s in simp_all)

lemma field_state_members [simp]:
  "h_general \<in> field_states" "h_C \<in> field_states" "h_CO \<in> field_states" "h_CON \<in> field_states"
  "h_matching_connection \<in> field_states" "h_matching_proxy_connection \<in> field_states"
  "h_matching_content_length \<in> field_states" "h_matching_transfer_encoding \<in> field_states"
  "h_matching_upgrade \<in> field_states" "h_connection \<in> field_states" "h_content_length \<in> field_states"
  "h_transfer_encoding \<in> field_states" "h_upgrade \<in> field_states"
  "h_matching_transfer_encoding_chunked \<notin> field_states" "h_matching_connection_keep_alive \<notin> field_states"
  "h_matching_connection_close \<notin> field_states" "h_transfer_encoding_chunked \<notin> field_states"
  "h_connection_keep_alive \<notin> field_states" "h_connection_close \<notin> field_states"
  by (simp_all add: field_states_def)

lemma header_field_char_control:
  assumes "p_state x = s_header_field" "p_header_state x \<in> field_states"
  shows "control_ends (header_field_char ch c x)"
  using assms
  by (cases "p_header_state x") (simp_all add: header_field_char_def marked_state_control)

lemma header_byte_control:
  assumes W: "within_ok x"
    and s: "p_state x \<in> {s_header_field_start, s_header_field, s_header_value_start, s_header_value}"
  shows "control_ends (exec_byte len ch x)"
proof (cases "p_state x")
  case s_header_field_start
  then show ?thesis
    by (simp add: exec_byte_def do_header_field_start_def first_header_state_def ends_simps between_plain
        marked_state_control field_states_def chunk_states_def)
next
  case s_header_field
  then have "control_ends (header_field_char ch (TOKEN ch) x)"
    using W by (intro header_field_char_control) (simp_all add: within_ok_def control_ok_def)
  then show ?thesis using s_header_field
    by (simp add: exec_byte_def do_header_field_def ends_simps between_plain chunk_states_def)
next
  case s_header_value_start
  then show ?thesis
    by (simp add: exec_byte_def do_header_value_start_def header_value_first_def ends_simps between_plain
        marked_state_control chunk_states_def split: header_states.split)
next
  case s_header_value
  then have "p_header_state x \<noteq> h_connection" "p_header_state x \<noteq> h_transfer_encoding"
    using W by (simp_all add: within_ok_def control_ok_def)
  then show ?thesis using s_header_value
    by (cases "p_header_state x")
      (simp_all add: exec_byte_def do_header_value_def header_value_char_def grow_length_def ends_simps between_plain
        marked_state_control chunk_states_def)
qed (use s in simp_all)

lemma unhex_range: "unhex ! code ch \<noteq> -1 \<Longrightarrow> 0 \<le> unhex ! code ch \<and> unhex ! code ch < 16"
  by (auto simp: unhex_code unhex_spec_def split: if_splits)

lemma small_length: "0 \<le> v \<Longrightarrow> v < 16 \<Longrightarrow> (of_int v :: 64 word) \<noteq> ULLONG_MAX"
proof -
  assume "0 \<le> v" "v < 16"
  then have "v \<in> set [0..15]" by simp
  moreover have "list_all (\<lambda>v. (of_int v :: 64 word) \<noteq> ULLONG_MAX) [0..15]" by (simp add: upto_rec1)
  ultimately show ?thesis unfolding list_all_iff by blast
qed

lemma chunk_state_control:
  "p_state x = s_chunk_size_start \<Longrightarrow> F_CHUNKED \<in> p_flags x \<Longrightarrow> p_nread x = 0 \<Longrightarrow> between_ok x"
  "p_state x \<in> {s_chunk_size, s_chunk_parameters, s_chunk_size_almost_done} \<Longrightarrow> F_CHUNKED \<in> p_flags x \<Longrightarrow>
     p_content_length x \<noteq> ULLONG_MAX \<Longrightarrow> between_ok x"
  "p_state x = s_chunk_data \<Longrightarrow> F_CHUNKED \<in> p_flags x \<Longrightarrow>
     p_content_length x \<noteq> ULLONG_MAX \<Longrightarrow> p_content_length x \<noteq> 0 \<Longrightarrow> between_ok x"
  "p_state x = s_chunk_data_almost_done \<Longrightarrow> F_CHUNKED \<in> p_flags x \<Longrightarrow> p_content_length x = 0 \<Longrightarrow> between_ok x"
  "p_state x = s_chunk_data_done \<Longrightarrow> F_CHUNKED \<in> p_flags x \<Longrightarrow> between_ok x"
  "p_state x = s_body_identity \<Longrightarrow> p_content_length x \<noteq> ULLONG_MAX \<Longrightarrow> p_content_length x \<noteq> 0 \<Longrightarrow> between_ok x"
  by (auto simp: between_ok_def control_ok_def chunk_states_def)

lemma take_body_length:
  assumes "p_content_length x \<noteq> ULLONG_MAX"
  shows "p_content_length (take_body len x) \<noteq> ULLONG_MAX"
proof
  assume "p_content_length (take_body len x) = ULLONG_MAX"
  then have "unat (p_content_length x - of_nat (to_read len x)) = unat (ULLONG_MAX)"
    by (simp add: take_body_def Let_def)
  moreover have "unat (p_content_length x - of_nat (to_read len x)) \<le> unat (p_content_length x)"
  proof -
    have "to_read len x \<le> unat (p_content_length x)" by (simp add: to_read_def)
    then have "of_nat (to_read len x) \<le> p_content_length x"
      by (simp add: word_le_nat_alt unat_of_nat take_bit_nat_less_eq_self le_trans [OF mod_less_eq_dividend])
    then show ?thesis by (simp add: word_le_nat_alt unat_sub)
  qed
  moreover have "unat (p_content_length x) < unat (ULLONG_MAX)"
    using assms by (metis word_less_nat_alt word_order.not_eq_extremum)
  ultimately show False by simp
qed

lemma take_body_other [simp]:
  "p_flags (take_body len x) = p_flags x" "p_state (take_body len x) = p_state x"
  by (simp_all add: take_body_def Let_def)

lemma body_byte_control:
  assumes W: "within_ok x" and s: "p_state x \<in> insert s_headers_done (insert s_body_identity chunk_states)"
  shows "control_ends (exec_byte len ch x)"
proof -
  have flag: "F_CHUNKED \<in> p_flags x" if "p_state x \<in> chunk_states"
    using W that by (simp add: within_ok_def control_ok_def)
  have new: "between_ok y" if "p_state y = NEW_MESSAGE z" for y z
    using NEW_MESSAGE_states [of z] that by (auto intro!: conjunct1 [OF between_plain] simp: chunk_states_def)
  have len: "p_content_length x \<noteq> ULLONG_MAX"
    if "p_state x \<in> {s_chunk_size, s_chunk_parameters, s_chunk_size_almost_done, s_chunk_data, s_body_identity}"
    using W that unfolding within_ok_def control_ok_def by blast
  have non_zero: "p_content_length x \<noteq> 0" if "p_state x \<in> {s_chunk_data, s_body_identity}"
    using W that unfolding within_ok_def control_ok_def by blast
  have zero: "p_content_length x = 0" if "p_state x = s_chunk_data_almost_done"
    using W that by (simp add: within_ok_def control_ok_def)
  have first: "p_nread x = 1" if "p_state x = s_chunk_size_start"
    using W that by (simp add: within_ok_def)
  note m = message_complete_def notify_message_complete_def
  show ?thesis
  proof (cases "p_state x")
    case s_headers_done
    then show ?thesis using new
      by (simp add: exec_byte_def do_headers_done_def m ends_simps between_plain chunk_state_control chunk_states_def)
  next
    case s_chunk_size_start
    then show ?thesis using flag first unhex_range [of ch] small_length
      by (simp add: exec_byte_def do_chunk_size_start_def ends_simps chunk_state_control chunk_states_def)
  next
    case s_chunk_size
    then show ?thesis using flag len
      by (simp add: exec_byte_def do_chunk_size_def grow_length_def ends_simps chunk_state_control chunk_states_def)
  next
    case s_chunk_parameters
    then show ?thesis using flag len
      by (simp add: exec_byte_def do_chunk_parameters_def ends_simps chunk_state_control chunk_states_def)
  next
    case s_chunk_size_almost_done
    then show ?thesis using flag len
      by (simp add: exec_byte_def do_chunk_size_almost_done_def ends_simps between_plain chunk_state_control chunk_states_def)
  next
    case s_chunk_data
    then show ?thesis using flag len non_zero take_body_length
      by (simp add: exec_byte_def do_chunk_data_def ends_simps chunk_state_control chunk_states_def)
  next
    case s_chunk_data_almost_done
    then show ?thesis using flag zero
      by (simp add: exec_byte_def do_chunk_data_almost_done_def ends_simps chunk_states_def)
         (simp add: callback_body_def chunk_state_control split: option.split)
  next
    case s_chunk_data_done
    then show ?thesis using flag
      by (simp add: exec_byte_def do_chunk_data_done_def ends_simps chunk_state_control chunk_states_def)
  next
    case s_body_identity
    then show ?thesis using len non_zero take_body_length
      by (simp add: exec_byte_def do_body_identity_def ends_simps between_plain chunk_state_control chunk_states_def)
  qed (use s in \<open>simp_all add: chunk_states_def\<close>)
qed

lemma exec_byte_control:
  assumes "within_ok x"
  shows "control_ends (exec_byte len ch x)"
proof -
  consider "p_state x \<in> insert s_headers_done (insert s_body_identity chunk_states)"
    | "p_state x \<in> {s_start_req, s_req_method, s_res_or_resp_H}"
    | "p_state x \<in> {s_header_field_start, s_header_field, s_header_value_start, s_header_value}"
    | "p_state x \<notin> insert s_headers_done (insert s_body_identity chunk_states)"
      "p_state x \<notin> {s_start_req, s_req_method, s_res_or_resp_H}"
      "p_state x \<notin> {s_header_field_start, s_header_field, s_header_value_start, s_header_value}"
    by blast
  then show ?thesis
    by cases (use assms body_byte_control request_byte_control header_byte_control plain_byte_control in simp_all)
qed

subsection \<open>Numbers\<close>

text \<open>The index of a name and the three numbers of the first line are kept in 8 and 16 bits: they stay far
  below, so that the model can take them for natural numbers.\<close>

definition index_limit :: "header_states \<Rightarrow> nat" where
  "index_limit h = (case h of h_C \<Rightarrow> 1 | h_CO \<Rightarrow> 2 | h_CON \<Rightarrow> 3
     | h_matching_connection \<Rightarrow> 17 | h_matching_proxy_connection \<Rightarrow> 17 | h_matching_content_length \<Rightarrow> 17
     | h_matching_transfer_encoding \<Rightarrow> 17 | h_matching_upgrade \<Rightarrow> 17 | h_matching_transfer_encoding_chunked \<Rightarrow> 17
     | h_matching_connection_keep_alive \<Rightarrow> 17 | h_matching_connection_close \<Rightarrow> 17 | _ \<Rightarrow> 20)"

definition numbers_fit :: "http_exec \<Rightarrow> bool" where
  "numbers_fit x \<longleftrightarrow> p_index x \<le> 20 \<and> p_http_major x \<le> 9999 \<and> p_http_minor x \<le> 9999 \<and> p_status_code x \<le> 9999"

definition numbers_ok :: "http_exec \<Rightarrow> bool" where
  "numbers_ok x \<longleftrightarrow> p_index x \<le> 20 \<and> p_http_major x \<le> 999 \<and> p_http_minor x \<le> 999 \<and> p_status_code x \<le> 999 \<and>
     (p_state x = s_req_method \<longrightarrow> p_index x \<le> length (method_string (p_method x))) \<and>
     (p_state x = s_header_field \<or> p_state x = s_header_value \<longrightarrow> p_index x \<le> index_limit (p_header_state x))"

abbreviation number_ends :: "outcome \<Rightarrow> bool" where
  "number_ends \<equiv> ends True numbers_ok numbers_ok (\<lambda>n y. numbers_fit y \<and> (p_errno y \<noteq> HPE_OK \<or> numbers_ok y))"

lemma digit_less:
  "IS_NUM c \<Longrightarrow> digit c \<le> 999" "IS_NUM c \<Longrightarrow> n \<le> 999 \<Longrightarrow> n * 10 + digit c \<le> 9999"
  "\<not> 57 < code c \<Longrightarrow> digit c \<le> 999"
  unfolding IS_NUM_def digit_def by linarith+

lemma method_string_length: "1 \<le> length (method_string m)" "length (method_string m) \<le> 11"
  by (cases m; simp)+

lemma callbacks_numbers [simp]:
  "p_index (callback_url x) = p_index x" "p_http_major (callback_url x) = p_http_major x"
  "p_http_minor (callback_url x) = p_http_minor x" "p_status_code (callback_url x) = p_status_code x"
  "p_index (callback_header_field x) = p_index x" "p_http_major (callback_header_field x) = p_http_major x"
  "p_http_minor (callback_header_field x) = p_http_minor x" "p_status_code (callback_header_field x) = p_status_code x"
  "p_index (callback_header_value x) = p_index x" "p_http_major (callback_header_value x) = p_http_major x"
  "p_http_minor (callback_header_value x) = p_http_minor x" "p_status_code (callback_header_value x) = p_status_code x"
  "p_index (callback_body n x) = p_index x" "p_http_major (callback_body n x) = p_http_major x"
  "p_http_minor (callback_body n x) = p_http_minor x" "p_status_code (callback_body n x) = p_status_code x"
  by (simp_all add: callback_url_def callback_header_field_def callback_header_value_def callback_body_def
      split: option.split)

lemma match_header_numbers:
  assumes "numbers_ok x" "length name \<le> 17" "p_state x = s_header_field \<or> p_state x = s_header_value"
    "index_limit (p_header_state x) = 17" "index_limit found = 20"
  shows "numbers_ok (match_header name found c x)"
  using assms by (auto simp: numbers_ok_def match_header_def Let_def index_limit_def [of h_general])

lemma new_message_numbers [simp]:
  "NEW_MESSAGE x \<noteq> s_req_method" "NEW_MESSAGE x \<noteq> s_header_field" "NEW_MESSAGE x \<noteq> s_header_value"
  using NEW_MESSAGE_states [of x] by auto

lemma parse_url_char_numbers [simp]:
  "parse_url_char s ch \<noteq> s_req_method" "parse_url_char s ch \<noteq> s_header_field" "parse_url_char s ch \<noteq> s_header_value"
  using parse_url_char_states [of s ch] by (auto simp: url_states_def)

lemma exec_byte_numbers:
  assumes N: "numbers_ok x"
  shows "number_ends (exec_byte len ch x)"
proof (cases "p_state x")
  case s_req_method
  have "p_index x < length (method_string (p_method x))"
    if "ch = (method_string (p_method x) @ [NUL]) ! p_index x" "ch \<noteq> NUL"
    using that N s_req_method
    by (cases "p_index x = length (method_string (p_method x))") (auto simp: numbers_ok_def nth_append)
  moreover have "Suc (p_index x) \<le> 20"
    using N s_req_method method_string_length(2) [of "p_method x"] by (simp add: numbers_ok_def)
  ultimately show ?thesis
    using N s_req_method other_method_length [of "p_method x" "p_index x" ch]
    by (auto simp: exec_byte_def do_req_method_def ends_simps numbers_ok_def numbers_fit_def Suc_le_eq)
next
  case s_header_field
  have "number_ends (header_field_char ch c x)" for c
    using N s_header_field
    by (cases "p_header_state x")
      (use match_header_numbers [OF N] in \<open>simp_all add: header_field_char_def index_limit_def\<close>,
       simp_all add: numbers_ok_def index_limit_def)
  then show ?thesis using N s_header_field
    by (simp add: exec_byte_def do_header_field_def ends_simps) (simp add: numbers_ok_def numbers_fit_def)
next
  case s_header_value
  have "number_ends (header_value_char ch c x)" for c
    using N s_header_value
    by (cases "p_header_state x")
      (use match_header_numbers [OF N] in \<open>simp_all add: header_value_char_def grow_length_def ends_simps index_limit_def\<close>,
       simp_all add: numbers_ok_def numbers_fit_def index_limit_def)
  then show ?thesis using N s_header_value
    by (simp add: exec_byte_def do_header_value_def ends_simps) (simp add: numbers_ok_def numbers_fit_def)
next
  case s_header_value_start
  then show ?thesis using N
    by (simp add: exec_byte_def do_header_value_start_def header_value_first_def ends_simps numbers_ok_def numbers_fit_def
        index_limit_def split: header_states.split)
next
  case s_start_req
  then show ?thesis using N method_string_length(1)
    by (simp add: exec_byte_def do_start_req_def ends_simps numbers_ok_def numbers_fit_def)
qed (use N in \<open>simp_all add: exec_byte_def first_line_defs do_header_field_start_def do_header_almost_done_def
    do_header_value_lws_def do_headers_almost_done_def do_headers_done_def message_complete_def notify_message_complete_def
    notify_headers_complete_def body_defs grow_length_def take_body_def
    digit_less ends_simps numbers_ok_def numbers_fit_def index_limit_def first_header_state_def split: header_states.split\<close>)

section \<open>The run\<close>

definition loop_ok :: "nat \<Rightarrow> http_exec \<Rightarrow> bool" where
  "loop_ok len x \<longleftrightarrow> x_p x \<le> len \<and> marks_ok x \<and> events_ok len x \<and> between_ok x \<and> numbers_ok x"

definition stop_ok :: "nat \<Rightarrow> nat \<Rightarrow> http_exec \<Rightarrow> bool" where
  "stop_ok len n x \<longleftrightarrow> n \<le> len \<and> events_ok len x \<and> numbers_fit x \<and>
     (p_errno x \<noteq> HPE_OK \<or> between_ok x \<and> numbers_ok x)"

abbreviation run_ends :: "nat \<Rightarrow> outcome \<Rightarrow> bool" where
  "run_ends len \<equiv> ends False (\<lambda>y. data_ok len y \<and> between_ok y \<and> numbers_ok y)
     (\<lambda>y. data_ok len y \<and> within_ok y \<and> numbers_ok y) (stop_ok len)"

lemma exec_byte_ok:
  assumes "data_ok len x \<and> within_ok x \<and> numbers_ok x"
  shows "run_ends len (exec_byte len ch x)"
  using exec_byte_data [of len x ch] exec_byte_control [of x len ch] exec_byte_numbers [of x len ch] assms
  by (cases "exec_byte len ch x") (auto simp: stop_ok_def)

lemma numbers_update [simp]:
  "numbers_ok (x\<lparr>p_nread := r\<rparr>) = numbers_ok x" "numbers_ok (x\<lparr>x_p := i\<rparr>) = numbers_ok x"
  "numbers_fit (x\<lparr>p_nread := r\<rparr>) = numbers_fit x" "numbers_fit (x\<lparr>p_errno := e\<rparr>) = numbers_fit x"
  by (simp_all add: numbers_ok_def numbers_fit_def)

lemma numbers_ok_fit: "numbers_ok x \<Longrightarrow> numbers_fit x"
  by (simp add: numbers_ok_def numbers_fit_def)

lemma count_byte_ok:
  assumes "data_ok len x" "between_ok x" "numbers_ok x"
  shows "run_ends len (case count_byte x of Break y \<Rightarrow> Reexec y | r \<Rightarrow> r)"
  using assms(1,2) numbers_ok_fit [OF assms(3)] assms(3)
  by (simp add: count_byte_def outcome_defs data_ok_def marks_ok_def events_ok_def between_ok_def within_ok_def
      control_ok_def stop_ok_def PARSING_HEADER_def split: outcome.split)

lemma exec_step_ok:
  assumes "data_ok len x" "between_ok x" "numbers_ok x"
  shows "run_ends len (exec_step len ch x)"
proof (cases "count_byte x")
  case (Break y)
  then have "data_ok len y \<and> within_ok y \<and> numbers_ok y" using count_byte_ok [OF assms] by simp
  then show ?thesis using Break run_byte_ends [OF exec_byte_ok] by (simp add: exec_step_def)
qed (use count_byte_ok [OF assms] in \<open>simp_all add: exec_step_def\<close>)

lemma run_byte_no_reexec: "run_byte len ch x \<noteq> Reexec y"
proof (induction len ch x rule: run_byte.induct)
  case (1 len ch x)
  then show ?case by (subst run_byte.simps) (simp split: outcome.split)
qed

lemma next_byte_ok:
  assumes "data_ok len y" "between_ok y" "numbers_ok y"
  shows "loop_ok len (y\<lparr>x_p := x_p y + 1\<rparr>)"
proof -
  have "between_ok (y\<lparr>x_p := x_p y + 1\<rparr>) = between_ok y" by (simp add: between_ok_def control_ok_def)
  moreover have "marks_ok y \<Longrightarrow> marks_ok (y\<lparr>x_p := x_p y + 1\<rparr>)" unfolding marks_ok_def by (simp add: le_SucI)
  ultimately show ?thesis using assms by (simp add: loop_ok_def data_ok_def)
qed

lemma count_byte_no_reexec: "count_byte x \<noteq> Reexec y"
  by (simp add: count_byte_def outcome_defs)

lemma exec_step_no_reexec: "exec_step len ch x \<noteq> Reexec y"
  by (simp add: exec_step_def run_byte_no_reexec count_byte_no_reexec split: outcome.split)

lemma exec_loop_ok:
  assumes "loop_ok (length data) x"
  shows "ends False (loop_ok (length data)) (\<lambda>_. False) (stop_ok (length data)) (exec_loop data x)"
  using assms
proof (induction data x rule: exec_loop.induct)
  case (1 data x)
  show ?case
  proof (cases "length data \<le> x_p x")
    case True
    then show ?thesis using "1.prems" by (subst exec_loop.simps) simp
  next
    case False
    then have step: "run_ends (length data) (exec_step (length data) (data ! x_p x) x)"
      using "1.prems" by (intro exec_step_ok) (simp_all add: loop_ok_def data_ok_def)
    show ?thesis
    proof (cases "exec_step (length data) (data ! x_p x) x")
      case (Break y)
      then have "loop_ok (length data) (y\<lparr>x_p := x_p y + 1\<rparr>)"
        using step next_byte_ok [of "length data" y] by simp
      then show ?thesis using "1.IH" [OF False Break] False Break by (subst exec_loop.simps) simp
    qed (use step False exec_step_no_reexec in \<open>subst exec_loop.simps, simp\<close>)+
  qed
qed

lemma flush_marks_ok:
  assumes "loop_ok len x"
  shows "events_ok len (flush_marks x)" "marks_set x \<le> 1" "between_ok (flush_marks x)" "numbers_ok (flush_marks x)"
proof -
  have M: "marks_ok x" "x_p x \<le> len" using assms by (simp_all add: loop_ok_def)
  show "marks_set x \<le> 1"
    using M(1) by (auto simp: marks_set_def marks_ok_def url_states_def body_states_def)
  show "events_ok len (flush_marks x)"
    using assms by (auto simp: flush_marks_def callback_url_def callback_header_field_def callback_header_value_def
        callback_body_def loop_ok_def events_ok_def marks_ok_def split: option.split)
  show "between_ok (flush_marks x)" "numbers_ok (flush_marks x)"
    using assms by (simp_all add: flush_marks_def callback_url_def callback_header_field_def callback_header_value_def
        callback_body_def loop_ok_def between_ok_def numbers_ok_def control_ok_def split: option.split)
qed

definition parser_ok :: "http_parser \<Rightarrow> bool" where
  "parser_ok parser \<longleftrightarrow> numbers_fit (exec_start parser) \<and>
     (p_errno parser \<noteq> HPE_OK \<or> between_ok (exec_start parser) \<and> numbers_ok (exec_start parser))"

lemma exec_start_truncate:
  "between_ok (exec_start (http_parser.truncate x)) = between_ok x"
  "numbers_ok (exec_start (http_parser.truncate x)) = numbers_ok x"
  "numbers_fit (exec_start (http_parser.truncate x)) = numbers_fit x"
  by (simp_all add: exec_start_def between_ok_def control_ok_def numbers_ok_def numbers_fit_def http_parser.defs)

lemma exec_start_ok:
  assumes "p_errno parser = HPE_OK" "parser_ok parser"
  shows "loop_ok len (exec_start parser)"
proof -
  have "marks_ok (exec_start parser)" "events_ok len (exec_start parser)" "x_p (exec_start parser) = 0"
    by (simp_all add: exec_start_def marks_ok_def events_ok_def http_parser.defs)
  then show ?thesis using assms by (simp add: loop_ok_def parser_ok_def)
qed

text \<open>One call: it returns, no more bytes are consumed than there are (an end of the data in the middle of a
  message is reported by the number 1), and every callback is given a part of the data.\<close>

definition call_ok :: "string \<Rightarrow> nat \<times> http_event list \<Rightarrow> bool" where
  "call_ok data r \<longleftrightarrow> (fst r \<le> length data \<or> data = [] \<and> fst r = 1) \<and> list_all (event_in (length data)) (snd r)"

lemma http_parser_execute_ok:
  assumes "parser_ok parser"
  obtains n p evs where "http_parser_execute parser data = Inr (n, p, evs)" "parser_ok p" "call_ok data (n, evs)"
proof (cases "p_errno parser = HPE_OK \<and> data \<noteq> []")
  case False
  have "\<exists>n p evs. http_parser_execute parser data = Inr (n, p, evs) \<and> parser_ok p \<and> call_ok data (n, evs)"
  proof (cases "p_errno parser = HPE_OK")
    case True
    with False have "data = []" by simp
    with True assms show ?thesis by (simp add: http_parser_execute_def call_ok_def parser_ok_def)
        (simp add: exec_start_def numbers_fit_def http_parser.defs)
  qed (use assms in \<open>simp add: http_parser_execute_def call_ok_def parser_ok_def\<close>)
  then show ?thesis using that by blast
next
  case True
  let ?x = "exec_start parser"
  have L: "ends False (loop_ok (length data)) (\<lambda>_. False) (stop_ok (length data)) (exec_loop data ?x)"
    using exec_loop_ok [OF exec_start_ok] True assms by blast
  have "\<exists>n x. exec_all data ?x = Return n x \<and> stop_ok (length data) n x"
  proof (cases "exec_loop data ?x")
    case (Break y)
    then show ?thesis using L flush_marks_ok [of "length data" y] numbers_ok_fit
      by (simp add: exec_all_def exec_end_def assert_that_def stop_ok_def)
  next
    case (Error y)
    then show ?thesis using L by (auto simp: exec_all_def stop_ok_def)
  qed (use L in \<open>simp_all add: exec_all_def\<close>)
  then obtain n x where x: "exec_all data ?x = Return n x" "stop_ok (length data) n x" by blast
  then have "parser_ok (http_parser.truncate x)"
    by (auto simp: parser_ok_def stop_ok_def exec_start_truncate) (simp_all add: http_parser.defs)
  then show ?thesis using that [of n "http_parser.truncate x" "x_events x"] x True
    by (simp add: http_parser_execute_def call_ok_def stop_ok_def events_ok_def list_all_iff)
qed

text \<open>Call after call, each with the next part of what arrives.\<close>

fun feed_parser :: "http_parser \<Rightarrow> string list \<Rightarrow> (http_parser \<times> (nat \<times> http_event list) list) res" where
  "feed_parser parser [] = Inr (parser, [])"
| "feed_parser parser (data # ds) =
     rbind (http_parser_execute parser data) (\<lambda>(n, p, evs).
       rbind (feed_parser p ds) (\<lambda>(q, rs). Inr (q, (n, evs) # rs)))"

lemma init_parser_ok: "parser_ok (http_parser_init t)"
  by (simp add: parser_ok_def http_parser_init_def exec_start_def http_parser.defs between_ok_def control_ok_def
      numbers_ok_def numbers_fit_def chunk_states_def)

lemma feed_parser_ok:
  "parser_ok parser \<Longrightarrow>
    \<exists>p rs. feed_parser parser ds = Inr (p, rs) \<and> parser_ok p \<and> list_all2 call_ok ds rs"
proof (induction ds arbitrary: parser)
  case (Cons d ds)
  obtain n p evs where p: "http_parser_execute parser d = Inr (n, p, evs)" "parser_ok p" "call_ok d (n, evs)"
    using http_parser_execute_ok [OF Cons.prems] .
  from Cons.IH [OF p(2)] show ?case using p by auto
qed simp

lemma parser_ok_numbers:
  "parser_ok p \<Longrightarrow> p_index p < 256 \<and> p_http_major p < 65536 \<and> p_http_minor p < 65536 \<and> p_status_code p < 65536"
  by (simp add: parser_ok_def numbers_fit_def exec_start_def http_parser.defs)

text \<open>C3. Whatever bytes arrive, in whatever parts, and of whatever kind the parser is: every call of it
  returns, no assertion fails, no read leaves a table, a name or the data, no more bytes are said to be
  consumed than were given, every part of the data a callback is given lies within the data, and the
  counters fit the 8 and 16 bits of their members.\<close>

theorem parser_never_faults:
  "\<exists>p rs. feed_parser (http_parser_init t) ds = Inr (p, rs) \<and> list_all2 call_ok ds rs \<and>
     p_index p < 256 \<and> p_http_major p < 65536 \<and> p_http_minor p < 65536 \<and> p_status_code p < 65536"
  using feed_parser_ok [OF init_parser_ok, of t ds] parser_ok_numbers by blast

end
