(* ===== verification/HttpRequest.thy ===== *)
theory HttpRequest
  imports HttpParser
begin

text \<open>
  What the parser makes of a request: the names of headers are recognised by an automaton that is shown
  equal to a comparison of strings, and a complete request with any acceptable address, any headers of no
  meaning to the parser and a body of the announced length is announced piece by piece, whole.
\<close>

section \<open>Names of headers\<close>

definition header_keys :: "string list" where
  "header_keys = [CONNECTION, PROXY_CONNECTION, CONTENT_LENGTH, TRANSFER_ENCODING, UPGRADE]"

definition no_key :: "string \<Rightarrow> bool" where
  "no_key s \<longleftrightarrow> (\<forall>k \<in> set header_keys. \<not> prefix s k)"

text \<open>For a state that compares: the name, the state when it is complete, and the number of characters
  from which on no other name begins like it.\<close>

fun compared :: "header_states \<Rightarrow> (string \<times> header_states \<times> nat) option" where
  "compared h_matching_connection = Some (CONNECTION, h_connection, 4)"
| "compared h_matching_proxy_connection = Some (PROXY_CONNECTION, h_connection, 1)"
| "compared h_matching_content_length = Some (CONTENT_LENGTH, h_content_length, 4)"
| "compared h_matching_transfer_encoding = Some (TRANSFER_ENCODING, h_transfer_encoding, 1)"
| "compared h_matching_upgrade = Some (UPGRADE, h_upgrade, 1)"
| "compared _ = None"

text \<open>The state and the index tell what was read, in lower case.\<close>

definition name_read :: "string \<Rightarrow> header_states \<Rightarrow> nat \<Rightarrow> bool" where
  "name_read s h i \<longleftrightarrow>
     (case h of
        h_general \<Rightarrow> no_key s
      | h_C \<Rightarrow> s = ''c'' \<and> i = 0
      | h_CO \<Rightarrow> s = ''co'' \<and> i = 1
      | h_CON \<Rightarrow> s = ''con'' \<and> i = 2
      | h_connection \<Rightarrow> s = CONNECTION \<or> s = PROXY_CONNECTION
      | h_content_length \<Rightarrow> s = CONTENT_LENGTH
      | h_transfer_encoding \<Rightarrow> s = TRANSFER_ENCODING
      | h_upgrade \<Rightarrow> s = UPGRADE
      | _ \<Rightarrow> (case compared h of None \<Rightarrow> False
              | Some (k, f, m) \<Rightarrow> \<exists>n. m \<le> n \<and> n < length k \<and> s = take n k \<and> i = n - 1))"

definition own_prefix :: "string \<Rightarrow> nat \<Rightarrow> bool" where
  "own_prefix k m \<longleftrightarrow> 0 < m \<and> k \<in> set header_keys \<and> (\<forall>k' \<in> set header_keys. prefix (take m k) k' \<longrightarrow> k' = k)"

lemma own_prefixes:
  "own_prefix CONNECTION 4" "own_prefix PROXY_CONNECTION 1" "own_prefix CONTENT_LENGTH 4"
  "own_prefix TRANSFER_ENCODING 1" "own_prefix UPGRADE 1"
  by (simp_all add: own_prefix_def header_keys_def)

lemma compared_own: "compared h = Some (k, f, m) \<Longrightarrow> own_prefix k m"
  using own_prefixes by (cases h) auto

lemma no_key_leave:
  assumes "own_prefix k m" "m \<le> n" "n < length k" "c \<noteq> k ! n"
  shows "no_key (take n k @ [c])"
  unfolding no_key_def
proof (intro ballI notI)
  fix k' assume k': "k' \<in> set header_keys" "prefix (take n k @ [c]) k'"
  have "take n k = take m k @ drop m (take n k)" using assms(2) by (metis append_take_drop_id min.absorb1 take_take)
  then have "prefix (take m k) k'" using k'(2) by (metis append_prefixD)
  then have "k' = k" using assms(1) k'(1) by (simp add: own_prefix_def)
  then show False using k'(2) assms(3,4) by (simp add: prefix_iff_take take_Suc_conv_app_nth)
qed

lemma match_header_step:
  assumes "own_prefix k m" "m \<le> n" "n < length k" "p_index x = n - 1"
  shows "match_header k f c x =
      x\<lparr>p_index := n, p_header_state := (if c \<noteq> k ! n then h_general else if Suc n = length k then f else p_header_state x)\<rparr>"
proof -
  have "0 < n" using assms(1,2) by (simp add: own_prefix_def)
  then show ?thesis using assms(3,4) by (auto simp: match_header_def Let_def nth_append)
qed

lemma compared_step:
  assumes "compared h = Some (k, f, m)" "m \<le> n" "n < length k" "p_index x = n - 1" "p_header_state x = h"
    and f: "compared f = None" "name_read k f n"
  shows "\<exists>h' i'. match_header k f c x = x\<lparr>p_index := i', p_header_state := h'\<rparr> \<and> name_read (take n k @ [c]) h' i'"
proof -
  note own = compared_own [OF assms(1)]
  note step = match_header_step [OF own assms(2-4), of f c]
  show ?thesis
  proof (cases "c = k ! n")
    case True
    have "take n k @ [c] = take (Suc n) k" using assms(3) True by (simp add: take_Suc_conv_app_nth)
    moreover have "name_read (take (Suc n) k) h n" if "Suc n \<noteq> length k"
      using assms(1-3) that by (cases h) (auto simp: name_read_def intro!: exI [of _ "Suc n"])
    moreover have "name_read (take (Suc n) k) f n" if "Suc n = length k"
      using f(2) that by simp
    ultimately show ?thesis using True step assms(5) by (intro exI [of _ n] exI [of _ "if Suc n = length k then f else h"]) simp
  next
    case False
    then show ?thesis using step no_key_leave [OF own assms(2,3) False]
      by (intro exI [of _ h_general] exI [of _ n]) (simp add: name_read_def)
  qed
qed

lemma name_step:
  assumes "name_read s (p_header_state x) (p_index x)" "ch \<noteq> SP"
  shows "\<exists>h i. header_field_char ch c x = Break (x\<lparr>p_index := i, p_header_state := h\<rparr>) \<and> name_read (s @ [c]) h i"
proof (cases "compared (p_header_state x)")
  case (Some kfm)
  then obtain k f m where kfm: "compared (p_header_state x) = Some (k, f, m)" by (cases kfm) auto
  then obtain n where n: "m \<le> n" "n < length k" "s = take n k" "p_index x = n - 1"
    using assms(1) by (cases "p_header_state x") (auto simp: name_read_def)
  have "compared f = None" "name_read k f n" "header_field_char ch c x = Break (match_header k f c x)"
    using kfm by (cases "p_header_state x"; force simp: name_read_def header_field_char_def)+
  then show ?thesis using compared_step [OF kfm n(1,2,4) refl] n(3) by simp
next
  case None
  have leave: "no_key (k @ [c])" if "k \<in> set header_keys" for k
    using that by (auto simp: no_key_def header_keys_def)
  have keep: "no_key (s @ [c])" if "no_key s"
    using that by (auto simp: no_key_def dest: append_prefixD)
  have found: ?thesis if "header_field_char ch c x = Break (x\<lparr>p_header_state := h_general\<rparr>)" "s \<in> set header_keys"
    using that(1) leave [OF that(2)]
    by (intro exI [of _ h_general] exI [of _ "p_index x"]) (simp add: name_read_def)
  have "\<exists>n\<ge>4. n < length CONNECTION \<and> ''conn'' = take n CONNECTION \<and> 3 = n - 1"
    "\<exists>n\<ge>4. n < length CONTENT_LENGTH \<and> ''cont'' = take n CONTENT_LENGTH \<and> 3 = n - 1"
    by (intro exI [of _ 4]; simp)+
  note four = this
  show ?thesis
  proof (cases "p_header_state x")
    case h_general
    then show ?thesis using assms(1) keep
      by (intro exI [of _ h_general] exI [of _ "p_index x"]) (simp add: header_field_char_def name_read_def)
  next
    case h_C
    then show ?thesis using assms(1)
      by (intro exI [of _ "if c = CHR ''o'' then h_CO else h_general"] exI [of _ 1])
        (simp add: header_field_char_def name_read_def no_key_def header_keys_def)
  next
    case h_CO
    then show ?thesis using assms(1)
      by (intro exI [of _ "if c = CHR ''n'' then h_CON else h_general"] exI [of _ 2])
        (simp add: header_field_char_def name_read_def no_key_def header_keys_def)
  next
    case h_CON
    then show ?thesis using assms(1) four
      by (intro exI [of _ "if c = CHR ''n'' then h_matching_connection
          else if c = CHR ''t'' then h_matching_content_length else h_general"] exI [of _ 3])
        (simp add: header_field_char_def name_read_def no_key_def header_keys_def)
  next
    case h_connection
    then have "s = CONNECTION \<or> s = PROXY_CONNECTION" using assms(1) by (simp add: name_read_def)
    then have "s \<in> set header_keys" unfolding header_keys_def by auto
    then show ?thesis using h_connection assms(2) by (intro found) (simp add: header_field_char_def)
  next
    case h_content_length
    then have "s \<in> set header_keys" using assms(1) by (simp add: name_read_def header_keys_def)
    then show ?thesis using h_content_length assms(2) by (intro found) (simp add: header_field_char_def)
  next
    case h_transfer_encoding
    then have "s \<in> set header_keys" using assms(1) by (simp add: name_read_def header_keys_def)
    then show ?thesis using h_transfer_encoding assms(2) by (intro found) (simp add: header_field_char_def)
  next
    case h_upgrade
    then have "s \<in> set header_keys" using assms(1) by (simp add: name_read_def header_keys_def)
    then show ?thesis using h_upgrade assms(2) by (intro found) (simp add: header_field_char_def)
  qed (use None assms(1) in \<open>simp_all add: name_read_def\<close>)
qed

text \<open>The state after a whole name is the one of a header the parser knows only for that name.\<close>

lemma name_read_known:
  assumes "name_read s h i"
  shows "h = h_content_length \<longleftrightarrow> s = CONTENT_LENGTH" "h = h_transfer_encoding \<longleftrightarrow> s = TRANSFER_ENCODING"
    "h = h_upgrade \<longleftrightarrow> s = UPGRADE" "h = h_connection \<longleftrightarrow> s = CONNECTION \<or> s = PROXY_CONNECTION"
proof -
  have key: "h \<in> {h_connection, h_content_length, h_transfer_encoding, h_upgrade}" if "s \<in> set header_keys"
  proof (cases "compared h")
    case None
    then show ?thesis
    proof (cases h)
      case h_general
      then show ?thesis using assms that by (auto simp: name_read_def no_key_def)
    next
      case h_C
      then show ?thesis using assms that by (simp add: name_read_def header_keys_def)
    next
      case h_CO
      then show ?thesis using assms that by (simp add: name_read_def header_keys_def)
    next
      case h_CON
      then show ?thesis using assms that by (simp add: name_read_def header_keys_def)
    qed (use assms None in \<open>simp_all add: name_read_def\<close>)
  next
    case (Some kfm)
    then obtain k f m n where k: "compared h = Some (k, f, m)" "m \<le> n" "n < length k" "s = take n k"
      using assms by (cases h) (auto simp: name_read_def)
    have "prefix (take m k) s" using k(2,4) by (simp add: prefix_def) (metis append_take_drop_id min.absorb1 take_take)
    then have "s = k" using compared_own [OF k(1)] that by (simp add: own_prefix_def)
    then show ?thesis using k(3,4) by simp
  qed
  have known: "s \<in> set header_keys \<Longrightarrow> h = h_content_length \<and> s = CONTENT_LENGTH \<or>
      h = h_transfer_encoding \<and> s = TRANSFER_ENCODING \<or> h = h_upgrade \<and> s = UPGRADE \<or>
      h = h_connection \<and> (s = CONNECTION \<or> s = PROXY_CONNECTION)"
    using key assms unfolding name_read_def by fastforce
  have read: "h = h_content_length \<Longrightarrow> s = CONTENT_LENGTH" "h = h_transfer_encoding \<Longrightarrow> s = TRANSFER_ENCODING"
    "h = h_upgrade \<Longrightarrow> s = UPGRADE" "h = h_connection \<Longrightarrow> s = CONNECTION \<or> s = PROXY_CONNECTION"
    using assms by (simp_all add: name_read_def)
  have set: "k \<in> set header_keys"
    if "k = CONTENT_LENGTH \<or> k = TRANSFER_ENCODING \<or> k = UPGRADE \<or> k = CONNECTION \<or> k = PROXY_CONNECTION" for k
    using that by (elim disjE) (simp_all add: header_keys_def)
  have "distinct [CONTENT_LENGTH, TRANSFER_ENCODING, UPGRADE, CONNECTION, PROXY_CONNECTION]" by simp
  then show "h = h_content_length \<longleftrightarrow> s = CONTENT_LENGTH" "h = h_transfer_encoding \<longleftrightarrow> s = TRANSFER_ENCODING"
    "h = h_upgrade \<longleftrightarrow> s = UPGRADE" "h = h_connection \<longleftrightarrow> s = CONNECTION \<or> s = PROXY_CONNECTION"
    using read known set unfolding distinct.simps list.set insert_iff by metis+
qed

section \<open>Runs over a part of the data\<close>

text \<open>A run over the characters of a part, each of which ends at the end of the switch.\<close>

fun chars_run :: "nat \<Rightarrow> string \<Rightarrow> http_exec \<Rightarrow> http_exec option" where
  "chars_run len [] x = Some x"
| "chars_run len (c # cs) x =
     (case exec_step len c x of
        Break y \<Rightarrow> (if x_p y = x_p x then chars_run len cs (y\<lparr>x_p := Suc (x_p x)\<rparr>) else None)
      | _ \<Rightarrow> None)"

lemma chars_run_append:
  "chars_run len (s @ t) x = (case chars_run len s x of None \<Rightarrow> None | Some y \<Rightarrow> chars_run len t y)"
  by (induction s arbitrary: x) (auto split: outcome.split)

lemma chars_run_loop:
  assumes "chars_run (length data) s x = Some y" "drop (x_p x) data = s @ rest"
  shows "exec_loop data x = exec_loop data y \<and> drop (x_p y) data = rest"
  using assms
proof (induction s arbitrary: x)
  case (Cons c cs)
  then obtain z where z: "exec_step (length data) c x = Break z" "x_p z = x_p x"
      "chars_run (length data) cs (z\<lparr>x_p := Suc (x_p x)\<rparr>) = Some y"
    by (auto split: outcome.splits if_splits)
  have p: "x_p x < length data" "data ! x_p x = c" "drop (Suc (x_p x)) data = cs @ rest"
    using Cons.prems(2) by (metis drop_eq_Nil list.distinct(1) append_Cons not_le)
      (metis Cons.prems(2) append_Cons nth_via_drop, metis Cons.prems(2) append_Cons drop_Suc list.sel(3) tl_drop)
  have "exec_loop data x = exec_loop data (z\<lparr>x_p := Suc (x_p x)\<rparr>)"
    using p(1,2) z(1,2) by (subst exec_loop.simps) simp
  then show ?case using Cons.IH [OF z(3)] p(3) by simp
qed simp

subsection \<open>One character\<close>

text \<open>Within the head of a message every byte is counted, so the counter is the position.\<close>

definition head_ok :: "http_exec \<Rightarrow> bool" where
  "head_ok x \<longleftrightarrow> p_nread x = of_nat (x_p x) \<and> p_type x = HTTP_REQUEST \<and> p_errno x = HPE_OK \<and>
     p_method x \<noteq> HTTP_CONNECT \<and> p_flags x \<subseteq> {F_CONNECTION_KEEP_ALIVE, F_CONNECTION_CLOSE} \<and> x_body_mark x = None"

lemma run_byte_Break: "exec_byte len c x = Break y \<Longrightarrow> run_byte len c x = Break y"
  by (subst run_byte.simps) simp

lemma run_byte_Reexec: "exec_byte len c x = Reexec y \<Longrightarrow> run_byte len c x = run_byte len c y"
  by (subst run_byte.simps) simp

lemma count_byte_head:
  assumes "head_ok x" "x_p x < 81920" "PARSING_HEADER (p_state x)"
  shows "count_byte x = Break (x\<lparr>p_nread := of_nat (Suc (x_p x))\<rparr>)"
proof -
  have "unat (of_nat (Suc (x_p x)) :: 32 word) = Suc (x_p x)" using assms(2) by (simp add: unat_of_nat_32 del: of_nat_Suc)
  then have "\<not> (of_nat (Suc (x_p x)) :: 32 word) > 81920"
    using assms(2) by (simp add: word_less_nat_alt del: of_nat_Suc)
  then show ?thesis using assms(1,3) by (simp add: count_byte_def head_ok_def add.commute)
qed

lemma char_run:
  assumes "head_ok x" "x_p x < 81920" "PARSING_HEADER (p_state x)"
    and "run_byte len c (x\<lparr>p_nread := of_nat (Suc (x_p x))\<rparr>) = Break y" "x_p y = x_p x"
  shows "chars_run len (c # cs) x = chars_run len cs (y\<lparr>x_p := Suc (x_p x)\<rparr>)"
  using assms(4,5) by (simp add: exec_step_def count_byte_head [OF assms(1-3)])

subsection \<open>The first line\<close>

definition request_start :: http_exec where
  "request_start = exec_start (http_parser_init HTTP_REQUEST)"

text \<open>A state between the parts of the head: at a position, with a content length, after some callbacks.\<close>

definition head_at :: "pstate \<Rightarrow> http_event list \<Rightarrow> 64 word \<Rightarrow> nat \<Rightarrow> http_exec \<Rightarrow> bool" where
  "head_at st evs l i x \<longleftrightarrow> head_ok x \<and> p_state x = st \<and> x_events x = evs \<and> p_content_length x = l \<and> x_p x = i \<and> x_url_mark x = None \<and>
     x_header_field_mark x = None \<and> x_header_value_mark x = None"

text \<open>A parser that waits for a request, before the first byte of the data.\<close>

definition ready :: "http_exec \<Rightarrow> bool" where
  "ready x \<longleftrightarrow> p_state x = s_start_req \<and> p_type x = HTTP_REQUEST \<and> p_errno x = HPE_OK \<and> p_nread x = 0 \<and> x_p x = 0 \<and>
     x_events x = [] \<and> x_url_mark x = None \<and> x_header_field_mark x = None \<and> x_header_value_mark x = None \<and>
     x_body_mark x = None"

text \<open>A parser that waits for a request, anywhere.\<close>

definition idle :: "http_exec \<Rightarrow> bool" where
  "idle x \<longleftrightarrow> p_state x = s_start_req \<and> p_type x = HTTP_REQUEST \<and> p_errno x = HPE_OK \<and> p_nread x = 0"

lemma request_start_ready: "ready request_start"
  by (simp add: ready_def request_start_def exec_start_def http_parser_init_def http_parser.defs url_states_def)

text \<open>The message so far does not end the connection.\<close>

definition alive :: "http_exec \<Rightarrow> bool" where
  "alive x \<longleftrightarrow> p_http_major x = 1 \<and> p_http_minor x = 1 \<and> F_CONNECTION_CLOSE \<notin> p_flags x"

lemma alive_update [simp]:
  "alive (x\<lparr>p_nread := r\<rparr>) = alive x" "alive (x\<lparr>p_state := s\<rparr>) = alive x" "alive (x\<lparr>p_index := i\<rparr>) = alive x"
  "alive (x\<lparr>p_header_state := h\<rparr>) = alive x" "alive (x\<lparr>p_content_length := l\<rparr>) = alive x" "alive (x\<lparr>x_p := i\<rparr>) = alive x"
  "alive (x\<lparr>p_upgrade := b\<rparr>) = alive x" "alive (x\<lparr>x_events := es\<rparr>) = alive x" "alive (x\<lparr>x_url_mark := m\<rparr>) = alive x"
  "alive (x\<lparr>x_header_field_mark := m\<rparr>) = alive x" "alive (x\<lparr>x_header_value_mark := m\<rparr>) = alive x"
  "alive (x\<lparr>x_body_mark := m\<rparr>) = alive x"
  by (simp_all add: alive_def)

lemma alive_keeps: "alive x \<Longrightarrow> p_type x = HTTP_REQUEST \<Longrightarrow> NEW_MESSAGE x = s_start_req"
  by (simp add: alive_def NEW_MESSAGE_def http_should_keep_alive_def http_message_needs_eof_def start_state_def)

lemma count_small [simp]: "\<not> (81920 :: 32 word) < of_nat i" if "i \<le> 81920"
proof -
  have "unat (of_nat i :: 32 word) = i" using that by (simp add: unat_of_nat_32)
  then show ?thesis using that by (simp add: word_less_nat_alt)
qed

lemma method_run:
  assumes "ready x" "m \<noteq> HTTP_MSEARCH" "m \<noteq> HTTP_CONNECT"
  shows "\<exists>y. chars_run len (method_string m @ [SP]) x = Some y \<and>
    head_at s_req_spaces_before_url [] ULLONG_MAX (length (method_string m) + 1) y \<and> p_method y = m \<and> p_flags y = {}"
  using assms
  by (cases m)
    (simp_all add: ready_def exec_step_def count_byte_def
      PARSING_HEADER_def run_byte.simps exec_byte_def do_start_req_def do_req_method_def first_method_def other_method_def
      IS_ALPHA_def LOWER_def code_def url_states_def outcome_defs head_at_def head_ok_def nth_append)

lemma parse_url_char_dead: "parse_url_char s_dead c = s_dead"
  by (simp add: parse_url_char_def)

lemma parse_url_dead: "foldl parse_url_char s_dead cs = s_dead"
  by (induction cs) (simp_all add: parse_url_char_dead)

lemma url_state_byte:
  assumes "parse_url_char (p_state x) c \<noteq> s_dead" "p_state x \<in> url_states"
  shows "run_byte len c x = Break (x\<lparr>p_state := parse_url_char (p_state x) c\<rparr>)"
proof -
  have "c \<noteq> SP" "c \<noteq> CR" "c \<noteq> LF" using assms(1) by (auto simp: parse_url_char_def)
  then show ?thesis using assms
    by (intro run_byte_Break)
      (auto simp: url_states_def exec_byte_def do_req_schema_def do_req_url_def url_char_def outcome_defs)
qed

lemma url_states_parsing: "s \<in> url_states \<Longrightarrow> PARSING_HEADER s"
  by (auto simp: url_states_def PARSING_HEADER_def)

lemma url_next_state: "parse_url_char s c \<noteq> s_dead \<Longrightarrow> parse_url_char s c \<in> url_states"
proof -
  have "parse_server_char c \<in> insert s_dead url_states" "parse_query_char c \<in> insert s_dead url_states"
    by (simp_all add: parse_server_char_def parse_query_char_def url_states_def)
  then have "parse_url_char s c = s_dead \<or> parse_url_char s c \<in> url_states"
    by (cases s) (simp_all add: parse_url_char_def, simp_all add: url_states_def)
  then show "parse_url_char s c \<noteq> s_dead \<Longrightarrow> parse_url_char s c \<in> url_states" by blast
qed

lemma url_run:
  assumes "head_ok x" "p_state x \<in> url_states" "foldl parse_url_char (p_state x) cs \<noteq> s_dead" "x_p x + length cs \<le> 81920"
  shows "chars_run len cs x = Some (x\<lparr>p_state := foldl parse_url_char (p_state x) cs,
    p_nread := of_nat (x_p x + length cs), x_p := x_p x + length cs\<rparr>)"
  using assms
proof (induction cs arbitrary: x)
  case Nil
  then show ?case by (simp add: head_ok_def)
next
  case (Cons c cs)
  have live: "parse_url_char (p_state x) c \<noteq> s_dead"
    using Cons.prems(3) by (auto simp: parse_url_dead)
  let ?y = "x\<lparr>p_nread := of_nat (Suc (x_p x)), p_state := parse_url_char (p_state x) c, x_p := Suc (x_p x)\<rparr>"
  have "chars_run len (c # cs) x = chars_run len cs ?y"
    using char_run [OF Cons.prems(1) _ url_states_parsing [OF Cons.prems(2)]
        url_state_byte [of "x\<lparr>p_nread := of_nat (Suc (x_p x))\<rparr>" c len]] live Cons.prems(2,4) by simp
  moreover have "head_ok ?y" using Cons.prems(1) by (simp add: head_ok_def)
  ultimately show ?case using Cons.IH [of ?y] url_next_state [OF live] Cons.prems(3,4) by simp
qed

definition url_end_states :: "pstate set" where
  "url_end_states = {s_req_server, s_req_server_with_at, s_req_path, s_req_query_string_start, s_req_query_string,
     s_req_fragment_start, s_req_fragment}"

text \<open>An address that the automaton of the parser accepts.\<close>

definition url_ok :: "string \<Rightarrow> bool" where
  "url_ok url \<longleftrightarrow> foldl parse_url_char s_req_spaces_before_url url \<in> url_end_states"

lemma target_run:
  assumes "head_at s_req_spaces_before_url evs l i x" "url_ok url" "i + length url < 81920"
  shows "\<exists>y. chars_run len (url @ [SP]) x = Some y \<and>
    head_at s_req_http_start (evs @ [EvUrl i (length url)]) l (i + length url + 1) y \<and> p_flags y = p_flags x"
proof -
  obtain c cs where url: "url = c # cs"
    using assms(2) by (cases url) (auto simp: url_ok_def url_end_states_def)
  have x: "head_ok x" "p_state x = s_req_spaces_before_url" "x_p x = i" "x_url_mark x = None"
    using assms(1) by (simp_all add: head_at_def)
  let ?s = "foldl parse_url_char s_req_spaces_before_url url"
  have end_state: "?s \<in> url_end_states" using assms(2) by (simp add: url_ok_def)
  then have live: "parse_url_char s_req_spaces_before_url c \<noteq> s_dead" "?s \<noteq> s_dead"
    unfolding url by (auto simp: parse_url_dead url_end_states_def)
  have not: "c \<noteq> SP" using live(1) by (auto simp: parse_url_char_def)
  let ?y = "x\<lparr>p_nread := of_nat (Suc i), x_url_mark := Some i, p_state := parse_url_char s_req_spaces_before_url c,
    x_p := Suc i\<rparr>"
  have first: "chars_run len (url @ [SP]) x = chars_run len (cs @ [SP]) ?y"
    unfolding url append_Cons
    using x live(1) not assms(3) char_run [OF x(1), of len c
        "x\<lparr>p_nread := of_nat (Suc i), x_url_mark := Some i, p_state := parse_url_char s_req_spaces_before_url c\<rparr>"]
    by (simp add: PARSING_HEADER_def run_byte.simps exec_byte_def do_req_spaces_before_url_def url_char_def
        outcome_defs mark_def head_ok_def)
  let ?z = "?y\<lparr>p_state := ?s, p_nread := of_nat (i + length url), x_p := i + length url\<rparr>"
  have "chars_run len cs ?y = Some ?z"
    using url_run [of ?y cs len] live url_next_state [OF live(1)] x assms(3) by (simp add: url head_ok_def)
  then have "chars_run len (url @ [SP]) x = chars_run len [SP] ?z" using first by (simp add: chars_run_append)
  also have "\<dots> = Some (?z\<lparr>p_nread := of_nat (Suc (i + length url)), p_state := s_req_http_start,
      x_events := evs @ [EvUrl i (length url)], x_url_mark := None, x_p := Suc (i + length url)\<rparr>)"
  proof -
    have "run_byte len SP (?z\<lparr>p_nread := of_nat (Suc (i + length url))\<rparr>) =
        Break (?z\<lparr>p_nread := of_nat (Suc (i + length url)), p_state := s_req_http_start,
          x_events := evs @ [EvUrl i (length url)], x_url_mark := None\<rparr>)"
      using end_state assms(1)
      by (intro run_byte_Break)
        (auto simp: url_end_states_def exec_byte_def do_req_url_def callback_url_def head_at_def)
    moreover have "head_ok ?z" using x(1) by (simp add: head_ok_def)
    moreover have "PARSING_HEADER ?s" using end_state by (auto simp: url_end_states_def PARSING_HEADER_def)
    ultimately show ?thesis using assms(3) char_run [of ?z len SP _ "[]"] by simp
  qed
  finally show ?thesis using assms(1) by (simp add: head_at_def head_ok_def)
qed

lemma count_small_plus:
  "i + numeral k \<le> 81920 \<Longrightarrow> \<not> (81920 :: 32 word) < numeral k + of_nat i"
  "i + 1 \<le> 81920 \<Longrightarrow> \<not> (81920 :: 32 word) < of_nat i + 1"
  using count_small [of "i + numeral k"] count_small [of "i + 1"] by (simp_all add: add.commute)

lemma version_run:
  assumes "head_at s_req_http_start evs l i x" "i + 10 \<le> 81920"
  shows "\<exists>y. chars_run len (''HTTP/1.1'' @ CRLF) x = Some y \<and> head_at s_header_field_start evs l (i + 10) y \<and>
    (F_CONNECTION_CLOSE \<notin> p_flags x \<longrightarrow> alive y)"
  using assms
  by (simp add: alive_def head_at_def head_ok_def exec_step_def count_byte_def count_small_plus PARSING_HEADER_def run_byte.simps
      exec_byte_def do_req_http_start_def do_expect_def do_first_major_def do_major_def do_first_minor_def
      do_req_http_minor_def do_req_line_almost_done_def IS_NUM_def digit_def code_def outcome_defs)

subsection \<open>A header\<close>

lemma TOKEN_special [simp]:
  "TOKEN SP = NUL" "TOKEN TAB = NUL" "TOKEN CR = NUL" "TOKEN LF = NUL" "TOKEN (CHR '':'') = NUL"
  by (simp_all add: TOKEN_def tokens_def tokens_graph_def code_def nth_append)

lemma TOKEN_not_special: "TOKEN c \<noteq> NUL \<Longrightarrow> c \<noteq> SP \<and> c \<noteq> TAB \<and> c \<noteq> CR \<and> c \<noteq> LF \<and> c \<noteq> CHR '':''"
  by auto

definition name_ok :: "string \<Rightarrow> bool" where
  "name_ok name \<longleftrightarrow> name \<noteq> [] \<and> list_all (\<lambda>c. TOKEN c \<noteq> NUL) name"

abbreviation lower_name :: "string \<Rightarrow> string" where
  "lower_name name \<equiv> map TOKEN name"

lemma first_name_read: "name_read [c] (first_header_state c) 0"
proof -
  have ex: "\<exists>n\<ge>Suc 0. n < length k \<and> [hd k] = take n k \<and> 0 = n - Suc 0" if "1 < length k" for k :: string
    using that by (intro exI [of _ 1]) (cases k; simp)
  show ?thesis
    using ex [of PROXY_CONNECTION] ex [of TRANSFER_ENCODING] ex [of UPGRADE]
    by (simp add: first_header_state_def name_read_def no_key_def header_keys_def)
qed

lemma name_run:
  assumes "head_ok x" "p_state x = s_header_field" "list_all (\<lambda>c. TOKEN c \<noteq> NUL) cs"
    "name_read s (p_header_state x) (p_index x)" "x_p x + length cs \<le> 81920"
  shows "\<exists>h j. chars_run len cs x = Some (x\<lparr>p_index := j, p_header_state := h,
      p_nread := of_nat (x_p x + length cs), x_p := x_p x + length cs\<rparr>) \<and> name_read (s @ lower_name cs) h j"
  using assms
proof (induction cs arbitrary: x s)
  case Nil
  then show ?case
    by (intro exI [of _ "p_header_state x"] exI [of _ "p_index x"]) (simp add: head_ok_def)
next
  case (Cons c cs)
  let ?x = "x\<lparr>p_nread := of_nat (Suc (x_p x))\<rparr>"
  have c: "TOKEN c \<noteq> NUL" "c \<noteq> SP" using Cons.prems(3) TOKEN_not_special by auto
  obtain h j where h: "header_field_char c (TOKEN c) ?x = Break (?x\<lparr>p_index := j, p_header_state := h\<rparr>)"
      "name_read (s @ [TOKEN c]) h j"
    using name_step [of s ?x c "TOKEN c"] Cons.prems(4) c(2) by auto
  let ?y = "?x\<lparr>p_index := j, p_header_state := h, x_p := Suc (x_p x)\<rparr>"
  have "run_byte len c ?x = Break (?x\<lparr>p_index := j, p_header_state := h\<rparr>)"
    using h(1) c Cons.prems(2) by (intro run_byte_Break) (simp add: exec_byte_def do_header_field_def)
  then have "chars_run len (c # cs) x = chars_run len cs ?y"
    using Cons.prems(1,2,5) char_run [of x len c "?x\<lparr>p_index := j, p_header_state := h\<rparr>" cs]
    by (simp add: PARSING_HEADER_def)
  moreover have "head_ok ?y" using Cons.prems(1) by (simp add: head_ok_def)
  ultimately show ?case using Cons.IH [of ?y "s @ [TOKEN c]"] Cons.prems(2,3,5) h(2) by simp
qed

definition line_start :: "pstate \<Rightarrow> bool" where
  "line_start st \<longleftrightarrow> st = s_header_field_start \<or> st = s_header_value_lws"

lemma field_run:
  assumes "head_at st evs l i x" "line_start st" "name_ok name" "i + length name < 81920"
  shows "\<exists>y. chars_run len (name @ '':'') x = Some y \<and>
    head_at s_header_value_start (evs @ [EvHeaderField i (length name)]) l (i + length name + 1) y \<and>
    (\<exists>j. name_read (lower_name name) (p_header_state y) j) \<and> (alive x \<longrightarrow> alive y)"
proof -
  obtain c cs where name: "name = c # cs" "TOKEN c \<noteq> NUL" "list_all (\<lambda>c. TOKEN c \<noteq> NUL) cs"
    using assms(3) by (cases name) (auto simp: name_ok_def)
  have x: "head_ok x" "p_state x = st" "x_p x = i" "x_header_field_mark x = None"
    using assms(1) by (simp_all add: head_at_def)
  let ?b = "x\<lparr>p_nread := of_nat (Suc i), x_header_field_mark := Some i, p_index := 0, p_state := s_header_field,
    p_header_state := first_header_state (TOKEN c)\<rparr>"
  have "run_byte len c (x\<lparr>p_nread := of_nat (Suc i)\<rparr>) = Break ?b"
    using assms(2) x name(2) TOKEN_not_special [OF name(2)]
    by (auto simp: line_start_def run_byte.simps exec_byte_def do_header_field_start_def do_header_value_lws_def mark_def)
  then have first: "chars_run len (name @ '':'') x = chars_run len (cs @ '':'') (?b\<lparr>x_p := Suc i\<rparr>)"
    unfolding name append_Cons
    using x assms(2,4) char_run [OF x(1), of len c ?b] by (auto simp: PARSING_HEADER_def line_start_def)
  obtain h j where h: "chars_run len cs (?b\<lparr>x_p := Suc i\<rparr>) = Some (?b\<lparr>x_p := Suc i, p_index := j, p_header_state := h,
      p_nread := of_nat (i + length name), x_p := i + length name\<rparr>)" "name_read (lower_name name) h j"
    using name_run [of "?b\<lparr>x_p := Suc i\<rparr>" cs "[TOKEN c]" len] first_name_read [of "TOKEN c"] x(1) name assms(4)
    by (auto simp: head_ok_def)
  let ?z = "?b\<lparr>p_index := j, p_header_state := h, p_nread := of_nat (i + length name), x_p := i + length name\<rparr>"
  let ?w = "?z\<lparr>p_nread := of_nat (Suc (i + length name)), p_state := s_header_value_start,
    x_events := evs @ [EvHeaderField i (length name)], x_header_field_mark := None\<rparr>"
  have "chars_run len (name @ '':'') x = chars_run len '':'' ?z" using first h(1) by (simp add: chars_run_append)
  also have "\<dots> = Some (?w\<lparr>x_p := Suc (i + length name)\<rparr>)"
  proof -
    have "run_byte len (CHR '':'') (?z\<lparr>p_nread := of_nat (Suc (i + length name))\<rparr>) = Break ?w"
      using assms(1)
      by (intro run_byte_Break) (simp add: exec_byte_def do_header_field_def callback_header_field_def head_at_def)
    moreover have "head_ok ?z" using x(1) by (simp add: head_ok_def)
    ultimately show ?thesis using assms(4) char_run [of ?z len "CHR '':''" ?w "[]"] by (simp add: PARSING_HEADER_def)
  qed
  finally show ?thesis using assms(1) h(2) by (auto simp: head_at_def head_ok_def)
qed

definition plain_values :: "header_states set" where
  "plain_values = {h_general, h_matching_connection_keep_alive, h_matching_connection_close,
     h_connection_keep_alive, h_connection_close}"

text \<open>The states of a value that ends the connection.\<close>

definition closing :: "header_states set" where
  "closing = {h_matching_connection_close, h_connection_close}"

text \<open>A value without the two characters that end a line, and with no space at its begin.\<close>

definition value_ok :: "string \<Rightarrow> bool" where
  "value_ok v \<longleftrightarrow> list_all (\<lambda>c. c \<noteq> CR \<and> c \<noteq> LF) v \<and> (v = [] \<or> hd v \<noteq> SP \<and> hd v \<noteq> TAB)"

lemma plain_value_char:
  assumes "p_header_state x \<in> plain_values" "p_state x = s_header_value"
  shows "\<exists>h j. header_value_char ch c x = Break (x\<lparr>p_index := j, p_header_state := h\<rparr>) \<and> h \<in> plain_values \<and>
    (p_header_state x \<notin> closing \<longrightarrow> h \<notin> closing)"
proof -
  define good where "good h \<longleftrightarrow> h \<in> plain_values \<and> (p_header_state x \<notin> closing \<longrightarrow> h \<notin> closing)" for h
  define ok where "ok r \<longleftrightarrow> (\<exists>h j. r = Break (x\<lparr>p_index := j, p_header_state := h\<rparr>) \<and> good h)" for r
  have same: "good (p_header_state x)" using assms(1) by (simp add: good_def)
  have general: "good h_general" by (simp add: good_def plain_values_def closing_def)
  have match: "ok (Break (match_header k f c x))" if "good f" for k f
  proof -
    have "match_header k f c x =
        x\<lparr>p_index := p_index x + 1, p_header_state := p_header_state (match_header k f c x)\<rparr>"
      "p_header_state (match_header k f c x) \<in> {h_general, f, p_header_state x}"
      by (auto simp: match_header_def Let_def)
    moreover from this(2) that same general have "good (p_header_state (match_header k f c x))" by auto
    ultimately show ?thesis unfolding ok_def by blast
  qed
  have keep: "good h \<Longrightarrow> ok (Break (x\<lparr>p_header_state := h\<rparr>))" for h
    unfolding ok_def by (intro exI [of _ h] exI [of _ "p_index x"]) simp
  have stay: "ok (Break x)" using keep [OF same] by simp
  have alive: "good h_connection_keep_alive" by (simp add: good_def plain_values_def closing_def)
  have close: "p_header_state x = h_matching_connection_close \<Longrightarrow> good h_connection_close"
    by (simp add: good_def plain_values_def closing_def)
  have "ok (header_value_char ch c x)"
    using assms(1) match [OF alive] match [OF close] keep [OF general] stay
    by (cases "p_header_state x") (simp_all add: header_value_char_def plain_values_def)
  then show ?thesis by (simp add: ok_def good_def)
qed

lemma plain_value_run:
  assumes "head_ok x" "p_state x = s_header_value" "p_header_state x \<in> plain_values"
    "list_all (\<lambda>c. c \<noteq> CR \<and> c \<noteq> LF) cs" "x_p x + length cs \<le> 81920"
  shows "\<exists>h j. chars_run len cs x = Some (x\<lparr>p_index := j, p_header_state := h,
      p_nread := of_nat (x_p x + length cs), x_p := x_p x + length cs\<rparr>) \<and> h \<in> plain_values \<and>
    (p_header_state x \<notin> closing \<longrightarrow> h \<notin> closing)"
  using assms
proof (induction cs arbitrary: x)
  case Nil
  then show ?case
    by (intro exI [of _ "p_header_state x"] exI [of _ "p_index x"]) (simp add: head_ok_def)
next
  case (Cons c cs)
  let ?x = "x\<lparr>p_nread := of_nat (Suc (x_p x))\<rparr>"
  obtain h j where h: "header_value_char c (LOWER c) ?x = Break (?x\<lparr>p_index := j, p_header_state := h\<rparr>)"
      "h \<in> plain_values" "p_header_state x \<notin> closing \<Longrightarrow> h \<notin> closing"
    using plain_value_char [of ?x c "LOWER c"] Cons.prems(2,3) by auto
  let ?y = "?x\<lparr>p_index := j, p_header_state := h, x_p := Suc (x_p x)\<rparr>"
  have "run_byte len c ?x = Break (?x\<lparr>p_index := j, p_header_state := h\<rparr>)"
    using h(1) Cons.prems(2,4) by (intro run_byte_Break) (simp add: exec_byte_def do_header_value_def)
  then have "chars_run len (c # cs) x = chars_run len cs ?y"
    using Cons.prems(1,2,5) char_run [of x len c "?x\<lparr>p_index := j, p_header_state := h\<rparr>" cs]
    by (simp add: PARSING_HEADER_def)
  moreover have "head_ok ?y" using Cons.prems(1) by (simp add: head_ok_def)
  ultimately show ?case using Cons.IH [of ?y] Cons.prems(2,4,5) h(2,3) by auto
qed

lemma digits_val_mono: "list_all isdigit cs \<Longrightarrow> v \<le> digits_val v cs"
proof (induction cs arbitrary: v)
  case (Cons c cs)
  then have "10 * v + (code c - 48) \<le> digits_val v (c # cs)" by simp
  then show ?case by linarith
qed simp

lemma IS_NUM_isdigit: "IS_NUM c = isdigit c"
  by (simp add: IS_NUM_def isdigit_def)

lemma grow_length_digit:
  assumes "p_content_length x = of_nat v" "10 * v + d < 2 ^ 64 - 1"
  shows "grow_length 10 (of_nat d) x = Break (x\<lparr>p_content_length := of_nat (10 * v + d)\<rparr>)"
proof -
  have u: "unat (of_nat n :: 64 word) = n" if "n < 2 ^ 64" for n using that by (simp add: unat_of_nat take_bit_eq_mod)
  have t: "of_nat v * 10 + of_nat d = (of_nat (10 * v + d) :: 64 word)" by simp
  have "\<not> (of_nat (10 * v + d) :: 64 word) < of_nat v" using assms(2) by (simp add: word_less_nat_alt u del: of_nat_add of_nat_mult)
  moreover have "(of_nat (10 * v + d) :: 64 word) \<noteq> ULLONG_MAX"
  proof
    assume "(of_nat (10 * v + d) :: 64 word) = ULLONG_MAX"
    then have "unat (of_nat (10 * v + d) :: 64 word) = unat ULLONG_MAX" by (simp only:)
    then show False using assms(2) by (simp add: u unsigned_minus_1_eq_mask mask_eq_exp_minus_1 del: of_nat_add of_nat_mult)
  qed
  ultimately show ?thesis by (simp add: grow_length_def assms(1) Let_def t del: of_nat_add of_nat_mult)
qed

lemma length_value_run:
  assumes "head_ok x" "p_state x = s_header_value" "p_header_state x = h_content_length" "p_content_length x = of_nat v"
    "list_all isdigit cs" "digits_val v cs < 2 ^ 64 - 1" "x_p x + length cs \<le> 81920"
  shows "chars_run len cs x = Some (x\<lparr>p_content_length := of_nat (digits_val v cs),
      p_nread := of_nat (x_p x + length cs), x_p := x_p x + length cs\<rparr>)"
  using assms
proof (induction cs arbitrary: x v)
  case Nil
  then show ?case by (simp add: head_ok_def)
next
  case (Cons c cs)
  let ?x = "x\<lparr>p_nread := of_nat (Suc (x_p x))\<rparr>"
  let ?v = "10 * v + (code c - 48)"
  have c: "isdigit c" "list_all isdigit cs" "digits_val v (c # cs) = digits_val ?v cs" using Cons.prems(5) by simp_all
  have small: "?v < 2 ^ 64 - 1" using Cons.prems(6) digits_val_mono [OF c(2), of ?v] c(3) by linarith
  have "c \<noteq> CR" "c \<noteq> LF" "c \<noteq> SP" using c(1) by (auto simp: isdigit_def code_def)
  then have "run_byte len c ?x = Break (?x\<lparr>p_content_length := of_nat ?v\<rparr>)"
    using c(1) Cons.prems(2-4) grow_length_digit [of ?x v "code c - 48"] small
    by (intro run_byte_Break)
      (simp add: exec_byte_def do_header_value_def header_value_char_def IS_NUM_isdigit digit_def del: of_nat_add of_nat_mult)
  then have "chars_run len (c # cs) x = chars_run len cs (?x\<lparr>p_content_length := of_nat ?v, x_p := Suc (x_p x)\<rparr>)"
    using Cons.prems(1,2,7) char_run [of x len c "?x\<lparr>p_content_length := of_nat ?v\<rparr>" cs]
    by (simp add: PARSING_HEADER_def del: of_nat_add of_nat_mult)
  moreover have "head_ok (?x\<lparr>p_content_length := of_nat ?v, x_p := Suc (x_p x)\<rparr>)" using Cons.prems(1) by (simp add: head_ok_def)
  ultimately show ?case
    using Cons.IH [of "?x\<lparr>p_content_length := of_nat ?v, x_p := Suc (x_p x)\<rparr>" ?v] Cons.prems c
    by (simp del: of_nat_add of_nat_mult)
qed

text \<open>The end of a line, after the value or when there is none.\<close>

lemma line_end_run:
  assumes "head_ok x" "p_state x = s_header_almost_done" "x_p x < 81920" "p_header_state x \<in> insert h_content_length plain_values"
    "x_url_mark x = None" "x_header_field_mark x = None" "x_header_value_mark x = None"
  shows "\<exists>y. chars_run len [LF] x = Some y \<and> head_at s_header_value_lws (x_events x) (p_content_length x) (Suc (x_p x)) y \<and>
    (alive x \<and> p_header_state x \<notin> closing \<longrightarrow> alive y)"
proof -
  let ?x = "x\<lparr>p_nread := of_nat (Suc (x_p x)), p_state := s_header_value_lws\<rparr>"
  let ?f = "if p_header_state x = h_connection_keep_alive then {F_CONNECTION_KEEP_ALIVE}
    else if p_header_state x = h_connection_close then {F_CONNECTION_CLOSE} else {}"
  let ?y = "?x\<lparr>p_flags := ?f \<union> p_flags x\<rparr>"
  have "run_byte len LF (x\<lparr>p_nread := of_nat (Suc (x_p x))\<rparr>) = Break ?y"
    using assms(2,4)
    by (intro run_byte_Break) (auto simp: exec_byte_def do_header_almost_done_def outcome_defs plain_values_def)
  then have "chars_run len [LF] x = Some (?y\<lparr>x_p := Suc (x_p x)\<rparr>)"
    using char_run [OF assms(1,3), of len LF ?y "[]"] assms(2) by (simp add: PARSING_HEADER_def)
  moreover have "alive (?y\<lparr>x_p := Suc (x_p x)\<rparr>)" if "alive x" "p_header_state x \<notin> closing"
    using that by (simp add: alive_def closing_def)
  ultimately show ?thesis using assms by (simp add: head_at_def head_ok_def)
qed

lemma value_end_run:
  assumes "head_ok x" "p_state x = s_header_value" "Suc (x_p x) < 81920"
    "p_header_state x \<in> insert h_content_length plain_values"
    "x_url_mark x = None" "x_header_field_mark x = None" "x_header_value_mark x = Some m"
  shows "\<exists>y. chars_run len CRLF x = Some y \<and>
    head_at s_header_value_lws (x_events x @ [EvHeaderValue m (x_p x - m)]) (p_content_length x) (x_p x + 2) y \<and>
    (alive x \<and> p_header_state x \<notin> closing \<longrightarrow> alive y)"
proof -
  let ?y = "x\<lparr>p_nread := of_nat (Suc (x_p x)), p_state := s_header_almost_done,
    x_events := x_events x @ [EvHeaderValue m (x_p x - m)], x_header_value_mark := None\<rparr>"
  have "run_byte len CR (x\<lparr>p_nread := of_nat (Suc (x_p x))\<rparr>) = Break ?y"
    using assms(2,7)
    by (intro run_byte_Break) (simp add: exec_byte_def do_header_value_def callback_header_value_def)
  then have "chars_run len CRLF x = chars_run len [LF] (?y\<lparr>x_p := Suc (x_p x)\<rparr>)"
    using char_run [OF assms(1), of len CR ?y "[LF]"] assms(2,3) by (simp add: PARSING_HEADER_def)
  then show ?thesis
    using line_end_run [of "?y\<lparr>x_p := Suc (x_p x)\<rparr>" len] assms by (simp add: head_ok_def)
qed

lemma value_space_run:
  assumes "head_at s_header_value_start evs l i x" "i < 81920"
  shows "chars_run len (SP # cs) x = chars_run len cs (x\<lparr>p_nread := of_nat (Suc i), x_p := Suc i\<rparr>)"
    and "head_at s_header_value_start evs l (Suc i) (x\<lparr>p_nread := of_nat (Suc i), x_p := Suc i\<rparr>)"
proof -
  have "run_byte len SP (x\<lparr>p_nread := of_nat (Suc i)\<rparr>) = Break (x\<lparr>p_nread := of_nat (Suc i)\<rparr>)"
    using assms(1) by (intro run_byte_Break) (simp add: exec_byte_def do_header_value_start_def head_at_def)
  then show "chars_run len (SP # cs) x = chars_run len cs (x\<lparr>p_nread := of_nat (Suc i), x_p := Suc i\<rparr>)"
    using assms char_run [of x len SP "x\<lparr>p_nread := of_nat (Suc i)\<rparr>" cs] by (simp add: head_at_def PARSING_HEADER_def)
  show "head_at s_header_value_start evs l (Suc i) (x\<lparr>p_nread := of_nat (Suc i), x_p := Suc i\<rparr>)"
    using assms(1) by (simp add: head_at_def head_ok_def)
qed

text \<open>A value of no meaning to the parser, and the one of the length.\<close>

lemma other_value_run:
  assumes "head_at s_header_value_start evs l i x" "value_ok v" "i + length v + 1 < 81920"
    "p_header_state x \<notin> {h_content_length, h_transfer_encoding, h_upgrade}"
  shows "\<exists>y. chars_run len (v @ CRLF) x = Some y \<and>
    head_at s_header_value_lws (evs @ [EvHeaderValue i (length v)]) l (i + length v + 2) y \<and>
    (alive x \<and> p_header_state x \<noteq> h_connection \<longrightarrow> alive y)"
proof (cases v)
  case Nil
  have x: "head_ok x" "p_state x = s_header_value_start" "x_p x = i" using assms(1) by (simp_all add: head_at_def)
  let ?y = "x\<lparr>p_nread := of_nat (Suc i), p_index := 0, p_header_state := h_general, p_state := s_header_almost_done,
    x_events := evs @ [EvHeaderValue i 0], x_header_value_mark := None\<rparr>"
  have "run_byte len CR (x\<lparr>p_nread := of_nat (Suc i)\<rparr>) = Break ?y"
    using assms(1)
    by (intro run_byte_Break)
      (simp add: exec_byte_def do_header_value_start_def callback_header_value_def mark_def head_at_def)
  then have "chars_run len (v @ CRLF) x = chars_run len [LF] (?y\<lparr>x_p := Suc i\<rparr>)"
    using char_run [OF x(1), of len CR ?y "[LF]"] x assms(3) Nil by (simp add: PARSING_HEADER_def)
  then show ?thesis
    using line_end_run [of "?y\<lparr>x_p := Suc i\<rparr>" len] assms(1,3) Nil
    by (auto simp: head_at_def head_ok_def plain_values_def closing_def simp del: chars_run.simps)
next
  case (Cons c cs)
  have x: "head_ok x" "p_state x = s_header_value_start" "x_p x = i" using assms(1) by (simp_all add: head_at_def)
  have c: "c \<noteq> SP" "c \<noteq> TAB" "c \<noteq> CR" "c \<noteq> LF" "list_all (\<lambda>c. c \<noteq> CR \<and> c \<noteq> LF) cs"
    using assms(2) Cons by (auto simp: value_ok_def)
  let ?b = "x\<lparr>p_nread := of_nat (Suc i), x_header_value_mark := Some i, p_state := s_header_value, p_index := 0\<rparr>"
  obtain h where h: "header_value_first c (LOWER c) ?b = Break (?b\<lparr>p_header_state := h\<rparr>)" "h \<in> plain_values"
      "p_header_state x \<noteq> h_connection \<Longrightarrow> h \<notin> closing"
    using assms(4) by (cases "p_header_state x") (auto simp: header_value_first_def plain_values_def closing_def)
  have "run_byte len c (x\<lparr>p_nread := of_nat (Suc i)\<rparr>) = Break (?b\<lparr>p_header_state := h\<rparr>)"
    using assms(1) c h(1)
    by (intro run_byte_Break) (simp add: exec_byte_def do_header_value_start_def mark_def head_at_def Let_def)
  then have first: "chars_run len (v @ CRLF) x = chars_run len (cs @ CRLF) (?b\<lparr>p_header_state := h, x_p := Suc i\<rparr>)"
    using char_run [OF x(1), of len c "?b\<lparr>p_header_state := h\<rparr>" "cs @ CRLF"] x assms(3) Cons
    by (simp add: PARSING_HEADER_def)
  obtain h' j where h': "chars_run len cs (?b\<lparr>p_header_state := h, x_p := Suc i\<rparr>) =
      Some (?b\<lparr>p_index := j, p_header_state := h', p_nread := of_nat (i + length v), x_p := i + length v\<rparr>)"
      "h' \<in> plain_values" "h \<notin> closing \<Longrightarrow> h' \<notin> closing"
    using plain_value_run [of "?b\<lparr>p_header_state := h, x_p := Suc i\<rparr>" cs len] x(1) h(2) c(5) assms(3) Cons
    by (auto simp: head_ok_def)
  let ?z = "?b\<lparr>p_index := j, p_header_state := h', p_nread := of_nat (i + length v), x_p := i + length v\<rparr>"
  have "chars_run len (v @ CRLF) x = chars_run len CRLF ?z" using first h'(1) by (simp add: chars_run_append)
  then show ?thesis
    using value_end_run [of ?z i len] h'(2,3) h(3) x(1) assms(1,3) by (auto simp: head_at_def head_ok_def)
qed

lemma digits_value_run:
  assumes "head_at s_header_value_start evs l i x" "list_all isdigit ds" "ds \<noteq> []" "digits_val 0 ds < 2 ^ 64 - 1"
    "i + length ds + 1 < 81920" "p_header_state x = h_content_length"
  shows "\<exists>y. chars_run len (ds @ CRLF) x = Some y \<and>
    head_at s_header_value_lws (evs @ [EvHeaderValue i (length ds)]) (of_nat (digits_val 0 ds)) (i + length ds + 2) y \<and>
    (alive x \<longrightarrow> alive y)"
proof -
  obtain c cs where ds: "ds = c # cs" "isdigit c" "list_all isdigit cs" using assms(2,3) by (cases ds) auto
  have x: "head_ok x" "p_state x = s_header_value_start" "x_p x = i" using assms(1) by (simp_all add: head_at_def)
  have c: "c \<noteq> SP" "c \<noteq> TAB" "c \<noteq> CR" "c \<noteq> LF" using ds(2) by (auto simp: isdigit_def code_def)
  let ?b = "x\<lparr>p_nread := of_nat (Suc i), x_header_value_mark := Some i, p_state := s_header_value, p_index := 0,
    p_content_length := of_nat (code c - 48)\<rparr>"
  have "run_byte len c (x\<lparr>p_nread := of_nat (Suc i)\<rparr>) = Break ?b"
    using assms(1,6) c ds(2)
    by (intro run_byte_Break)
      (simp add: exec_byte_def do_header_value_start_def header_value_first_def mark_def head_at_def Let_def
        IS_NUM_isdigit digit_def)
  then have first: "chars_run len (ds @ CRLF) x = chars_run len (cs @ CRLF) (?b\<lparr>x_p := Suc i\<rparr>)"
    using char_run [OF x(1), of len c ?b "cs @ CRLF"] x assms(5) ds(1) by (simp add: PARSING_HEADER_def)
  let ?z = "?b\<lparr>p_content_length := of_nat (digits_val 0 ds), p_nread := of_nat (i + length ds), x_p := i + length ds\<rparr>"
  have "chars_run len cs (?b\<lparr>x_p := Suc i\<rparr>) = Some ?z"
    using length_value_run [of "?b\<lparr>x_p := Suc i\<rparr>" "code c - 48" cs len] x(1) ds assms(4-6)
    by (simp add: head_ok_def del: of_nat_add)
  then have "chars_run len (ds @ CRLF) x = chars_run len CRLF ?z" using first by (simp add: chars_run_append)
  then show ?thesis
    using value_end_run [of ?z i len] x(1) assms(1,5,6) by (simp add: head_at_def head_ok_def closing_def)
qed

section \<open>A request\<close>

type_synonym header = "string \<times> string"

definition render_header :: "header \<Rightarrow> string" where
  "render_header h = fst h @ '': '' @ snd h @ CRLF"

definition header_events :: "nat \<Rightarrow> header \<Rightarrow> http_event list" where
  "header_events i h = [EvHeaderField i (length (fst h)), EvHeaderValue (i + length (fst h) + 2) (length (snd h))]"

fun headers_events :: "nat \<Rightarrow> header list \<Rightarrow> http_event list" where
  "headers_events i [] = []"
| "headers_events i (h # hs) = header_events i h @ headers_events (i + length (render_header h)) hs"

text \<open>A header of no meaning to the parser, or one that announces the length of the body.\<close>

definition length_header :: "header \<Rightarrow> bool" where
  "length_header h \<longleftrightarrow> lower_name (fst h) = CONTENT_LENGTH"

definition header_ok :: "nat \<Rightarrow> header \<Rightarrow> bool" where
  "header_ok n h \<longleftrightarrow> name_ok (fst h) \<and>
     (if length_header h then snd h \<noteq> [] \<and> list_all isdigit (snd h) \<and> digits_val 0 (snd h) = n
      else lower_name (fst h) \<noteq> TRANSFER_ENCODING \<and> lower_name (fst h) \<noteq> UPGRADE \<and> value_ok (snd h))"

definition headers_ok :: "nat \<Rightarrow> header list \<Rightarrow> bool" where
  "headers_ok n hs \<longleftrightarrow> list_all (header_ok n) hs \<and> (n = 0 \<or> list_ex length_header hs)"

text \<open>A header that can end the connection.\<close>

definition connection_header :: "header \<Rightarrow> bool" where
  "connection_header h \<longleftrightarrow> lower_name (fst h) = CONNECTION \<or> lower_name (fst h) = PROXY_CONNECTION"

lemma header_run:
  assumes "head_at st evs l i x" "line_start st" "header_ok n h" "i + length (render_header h) \<le> 81920" "n < 2 ^ 64 - 1"
  shows "\<exists>y. chars_run len (render_header h) x = Some y \<and>
    head_at s_header_value_lws (evs @ header_events i h) (if length_header h then of_nat n else l)
      (i + length (render_header h)) y \<and> (alive x \<and> \<not> connection_header h \<longrightarrow> alive y)"
proof -
  let ?k = "i + length (fst h) + 1"
  have bound: "i + length (fst h) + length (snd h) + 4 \<le> 81920" using assms(4) by (simp add: render_header_def)
  then have small: "i + length (fst h) < 81920" by linarith
  obtain y j where y: "chars_run len (fst h @ '':'') x = Some y" "name_read (lower_name (fst h)) (p_header_state y) j"
      "head_at s_header_value_start (evs @ [EvHeaderField i (length (fst h))]) l ?k y"
      "alive x \<Longrightarrow> alive y"
    using field_run [OF assms(1,2) _ small, of len] assms(3) by (auto simp: header_ok_def)
  let ?z = "y\<lparr>p_nread := of_nat (Suc ?k), x_p := Suc ?k\<rparr>"
  have z: "chars_run len (SP # cs) y = chars_run len cs ?z" for cs
    using value_space_run(1) [OF y(3)] bound by simp
  have at: "head_at s_header_value_start (evs @ [EvHeaderField i (length (fst h))]) l (Suc ?k) ?z"
    using value_space_run(2) [OF y(3)] bound by simp
  have run: "chars_run len (render_header h) x = chars_run len (snd h @ CRLF) ?z"
    using chars_run_append [of len "fst h @ '':''" "SP # snd h @ CRLF" x] y(1) z by (simp add: render_header_def)
  have len: "i + length (render_header h) = Suc ?k + length (snd h) + 2" by (simp add: render_header_def)
  note known = name_read_known [OF y(2)]
  have z_alive: "alive ?z = alive y" "p_header_state ?z = p_header_state y" by simp_all
  show ?thesis
  proof (cases "length_header h")
    case True
    then show ?thesis
      using digits_value_run [OF at, of "snd h" len] assms(3,5) bound known(1) y(4) unfolding run len z_alive
      by (auto simp: header_ok_def length_header_def header_events_def)
  next
    case False
    then show ?thesis
      using other_value_run [OF at, of "snd h" len] assms(3) bound known y(4) unfolding run len z_alive
      by (auto simp: header_ok_def length_header_def header_events_def connection_header_def)
  qed
qed

lemma headers_run:
  assumes "head_at st evs l i x" "line_start st" "list_all (header_ok n) hs"
    "i + length (concat (map render_header hs)) \<le> 81920" "n < 2 ^ 64 - 1"
  shows "\<exists>y st'. chars_run len (concat (map render_header hs)) x = Some y \<and> line_start st' \<and>
    head_at st' (evs @ headers_events i hs) (if list_ex length_header hs then of_nat n else l)
      (i + length (concat (map render_header hs))) y \<and> (alive x \<and> \<not> list_ex connection_header hs \<longrightarrow> alive y)"
  using assms
proof (induction hs arbitrary: st evs l i x)
  case Nil
  then show ?case by (intro exI [of _ x] exI [of _ st]) simp
next
  case (Cons h hs)
  have "header_ok n h" "i + length (render_header h) \<le> 81920" using Cons.prems(3,4) by simp_all
  from header_run [OF Cons.prems(1,2) this Cons.prems(5), of len]
  obtain y where y: "chars_run len (render_header h) x = Some y"
    "head_at s_header_value_lws (evs @ header_events i h) (if length_header h then of_nat n else l)
      (i + length (render_header h)) y" "alive x \<and> \<not> connection_header h \<Longrightarrow> alive y" by blast
  have bound: "i + length (render_header h) + length (concat (map render_header hs)) \<le> 81920"
    using Cons.prems(4) by simp
  have "line_start s_header_value_lws" by (simp add: line_start_def)
  from Cons.IH [OF y(2) this _ bound Cons.prems(5)] Cons.prems(3)
  obtain z st' where "chars_run len (concat (map render_header hs)) y = Some z" "line_start st'"
    "head_at st' ((evs @ header_events i h) @ headers_events (i + length (render_header h)) hs)
      (if list_ex length_header hs then of_nat n else if length_header h then of_nat n else l)
      (i + length (render_header h) + length (concat (map render_header hs))) z"
    "alive y \<and> \<not> list_ex connection_header hs \<Longrightarrow> alive z" by auto
  then show ?case using y(1,3)
    by (intro exI [of _ z] exI [of _ st']) (simp add: chars_run_append add.assoc split: if_splits)
qed

lemma marks_set_p [simp]: "marks_set (x\<lparr>x_p := i\<rparr>) = marks_set x"
  by (simp add: marks_set_def)

lemma marks_set_0: "marks_set x = 0 \<longleftrightarrow>
    x_url_mark x = None \<and> x_header_field_mark x = None \<and> x_header_value_mark x = None \<and> x_body_mark x = None"
  by (auto simp: marks_set_def filter_empty_iff)

text \<open>The empty line: with no body the message is complete, otherwise the body is expected.\<close>

lemma head_end_run:
  assumes "head_at st evs l i x" "line_start st" "i + 1 < 81920"
  defines "done \<equiv> evs @ [EvHeadersComplete (of_nat (i + 2)) l]"
  shows "\<exists>y. chars_run len CRLF x = Some y \<and> x_p y = i + 2 \<and> marks_set y = 0 \<and> p_type y = HTTP_REQUEST \<and>
    (if l = 0 \<or> l = ULLONG_MAX then x_events y = done @ [EvMessageComplete]
     else x_events y = done \<and> p_state y = s_body_identity \<and> p_content_length y = l) \<and>
    p_nread y = 0 \<and> p_errno y = HPE_OK \<and> (alive x \<longrightarrow> alive y \<and> (l = 0 \<or> l = ULLONG_MAX \<longrightarrow> p_state y = s_start_req))"
proof -
  have x: "head_ok x" "x_p x = i" "p_state x = st" using assms(1) by (simp_all add: head_at_def)
  let ?y = "x\<lparr>p_nread := of_nat (Suc i), p_state := s_headers_almost_done\<rparr>"
  have "run_byte len CR (x\<lparr>p_nread := of_nat (Suc i)\<rparr>) = Break ?y"
    using assms(2) x
    by (auto simp: line_start_def run_byte.simps exec_byte_def do_header_field_start_def do_header_value_lws_def go_def)
  then have first: "chars_run len CRLF x = chars_run len [LF] (?y\<lparr>x_p := Suc i\<rparr>)"
    using char_run [OF x(1), of len CR ?y "[LF]"] x assms(2,3) by (auto simp: line_start_def PARSING_HEADER_def)
  let ?z = "?y\<lparr>x_p := Suc i, p_nread := of_nat (i + 2)\<rparr>"
  have flags: "F_TRAILING \<notin> p_flags x" "F_SKIPBODY \<notin> p_flags x" "F_CHUNKED \<notin> p_flags x" "F_UPGRADE \<notin> p_flags x"
    "p_method x \<noteq> HTTP_CONNECT" "p_type x = HTTP_REQUEST" using x(1) by (auto simp: head_ok_def)
  have marks: "marks_set x = 0" using assms(1) by (simp add: marks_set_0 head_at_def head_ok_def)
  have "\<exists>w. run_byte len LF ?z = Break w \<and> x_p w = Suc i \<and> marks_set w = 0 \<and> p_type w = HTTP_REQUEST \<and>
      (if l = 0 \<or> l = ULLONG_MAX then x_events w = done @ [EvMessageComplete]
       else x_events w = done \<and> p_state w = s_body_identity \<and> p_content_length w = l) \<and>
      p_nread w = 0 \<and> p_errno w = HPE_OK \<and> (alive x \<longrightarrow> alive w \<and> (l = 0 \<or> l = ULLONG_MAX \<longrightarrow> p_state w = s_start_req))"
    using flags marks assms(1) x(1)
    by (simp add: run_byte.simps exec_byte_def do_headers_almost_done_def do_headers_done_def outcome_defs
        notify_headers_complete_def message_complete_def notify_message_complete_def head_at_def done_def marks_set_0
        alive_keeps head_ok_def)
  then obtain w where w: "run_byte len LF ?z = Break w" "x_p w = Suc i" "marks_set w = 0" "p_type w = HTTP_REQUEST"
      "if l = 0 \<or> l = ULLONG_MAX then x_events w = done @ [EvMessageComplete]
       else x_events w = done \<and> p_state w = s_body_identity \<and> p_content_length w = l"
      "p_nread w = 0" "p_errno w = HPE_OK"
      "alive x \<longrightarrow> alive w \<and> (l = 0 \<or> l = ULLONG_MAX \<longrightarrow> p_state w = s_start_req)" by blast
  have "chars_run len [LF] (?y\<lparr>x_p := Suc i\<rparr>) = Some (w\<lparr>x_p := i + 2\<rparr>)"
    using char_run [of "?y\<lparr>x_p := Suc i\<rparr>" len LF w "[]"] w(1,2) x(1) assms(3)
    by (simp add: head_ok_def PARSING_HEADER_def add.commute)
  then show ?thesis using first w by simp
qed

lemma exec_loop_end: "x_p x = length data \<Longrightarrow> exec_loop data x = Break x"
  by (subst exec_loop.simps) simp

text \<open>The body is taken at once, and the message is complete.\<close>

lemma body_run:
  assumes "p_state x = s_body_identity" "p_content_length x = of_nat (length body)" "body \<noteq> []" "length body < 2 ^ 64 - 1"
    "drop (x_p x) data = body" "marks_set x = 0"
  shows "\<exists>y. exec_loop data x = Break y \<and> marks_set y = 0 \<and> x_p y = length data \<and>
    x_events y = x_events x @ [EvBody (x_p x) (length body), EvMessageComplete] \<and>
    (alive x \<and> p_type x = HTTP_REQUEST \<and> p_nread x = 0 \<and> p_errno x = HPE_OK \<longrightarrow> idle y)"
proof -
  have p: "x_p x < length data" "length data = x_p x + length body" using assms(3,5) by auto
  have u: "unat (of_nat (length body) :: 64 word) = length body"
    using assms(4) by (simp add: unat_of_nat take_bit_eq_mod)
  have "to_read (length data) x = length body" using p u by (simp add: to_read_def assms(2))
  then have take: "take_body (length data) x =
      x\<lparr>x_body_mark := mark (x_p x) (x_body_mark x), p_content_length := 0, x_p := length data - 1\<rparr>"
    using p assms(2) by (simp add: take_body_def Let_def)
  have none: "x_body_mark x = None" "x_url_mark x = None" "x_header_field_mark x = None" "x_header_value_mark x = None"
    using assms(6) by (simp_all add: marks_set_0)
  have zero: "(of_nat (length body) :: 64 word) \<noteq> 0" using u assms(3) by (metis length_0_conv unat_0)
  have max: "(of_nat (length body) :: 64 word) \<noteq> ULLONG_MAX"
  proof
    assume "(of_nat (length body) :: 64 word) = ULLONG_MAX"
    then have "unat (of_nat (length body) :: 64 word) = unat ULLONG_MAX" by (simp only:)
    then show False using u assms(4) by (simp add: unsigned_minus_1_eq_mask mask_eq_exp_minus_1)
  qed
  have last: "length data - 1 + 1 - x_p x = length body" using p assms(3) by simp
  have "\<exists>y. exec_step (length data) (data ! x_p x) x = Break y \<and> marks_set y = 0 \<and> x_p y = length data - 1 \<and>
      x_events y = x_events x @ [EvBody (x_p x) (length body), EvMessageComplete] \<and>
      (alive x \<and> p_type x = HTTP_REQUEST \<and> p_nread x = 0 \<and> p_errno x = HPE_OK \<longrightarrow> idle y)"
    using assms(1,2) zero max take none p last
    by (simp add: idle_def alive_keeps exec_step_def count_byte_def PARSING_HEADER_def run_byte.simps exec_byte_def do_body_identity_def
        assert_that_def mark_def callback_body_def message_complete_def notify_message_complete_def marks_set_0)
  then obtain y where y: "exec_step (length data) (data ! x_p x) x = Break y" "marks_set y = 0" "x_p y = length data - 1"
      "x_events y = x_events x @ [EvBody (x_p x) (length body), EvMessageComplete]"
      "alive x \<and> p_type x = HTTP_REQUEST \<and> p_nread x = 0 \<and> p_errno x = HPE_OK \<longrightarrow> idle y" by blast
  have "exec_loop data x = exec_loop data (y\<lparr>x_p := x_p y + 1\<rparr>)"
    using p(1) y(1) by (subst exec_loop.simps) simp
  also have "\<dots> = Break (y\<lparr>x_p := x_p y + 1\<rparr>)"
    by (rule exec_loop_end) (use y(3) p(1) in simp)
  finally show ?thesis using y(2-5) p(1) by (simp add: idle_def)
qed

lemma exec_end_no_marks: "marks_set x = 0 \<Longrightarrow> exec_end len x = Return len x"
proof -
  assume m: "marks_set x = 0"
  then show ?thesis using m [unfolded marks_set_0]
    by (simp add: exec_end_def assert_that_def flush_marks_def callback_body_def callback_url_def
      callback_header_value_def callback_header_field_def)
qed

definition render_head :: "http_method \<Rightarrow> string \<Rightarrow> header list \<Rightarrow> string" where
  "render_head m url hs = method_string m @ [SP] @ url @ '' HTTP/1.1'' @ CRLF @ concat (map render_header hs) @ CRLF"

definition request_events :: "http_method \<Rightarrow> string \<Rightarrow> header list \<Rightarrow> string \<Rightarrow> http_event list" where
  "request_events m url hs body =
     (let u = length (method_string m) + 1; h = u + length url + 11; n = length (render_head m url hs);
          l = (if list_ex length_header hs then of_nat (length body) else ULLONG_MAX)
      in [EvUrl u (length url)] @ headers_events h hs @ [EvHeadersComplete (of_nat n) l] @
         (if body = [] then [] else [EvBody n (length body)]) @ [EvMessageComplete])"

definition request_ok :: "http_method \<Rightarrow> string \<Rightarrow> header list \<Rightarrow> string \<Rightarrow> bool" where
  "request_ok m url hs body \<longleftrightarrow> m \<noteq> HTTP_MSEARCH \<and> m \<noteq> HTTP_CONNECT \<and> url_ok url \<and> headers_ok (length body) hs \<and>
     length (render_head m url hs) \<le> 81920 \<and> length body < 2 ^ 64 - 1"

text \<open>The length the parser knows at the end of the head tells whether there is a body.\<close>

definition known_length :: "header list \<Rightarrow> string \<Rightarrow> 64 word" where
  "known_length hs body = (if list_ex length_header hs then of_nat (length body) else ULLONG_MAX)"

lemma known_length_body:
  assumes "request_ok m url hs body"
  shows "known_length hs body = 0 \<or> known_length hs body = ULLONG_MAX \<longleftrightarrow> body = []"
proof -
  have small: "length body < 2 ^ 64 - 1" and headers: "length body = 0 \<or> list_ex length_header hs"
    using assms by (simp_all add: request_ok_def headers_ok_def)
  have u: "unat (of_nat (length body) :: 64 word) = length body" using small by (simp add: unat_of_nat take_bit_eq_mod)
  have "(of_nat (length body) :: 64 word) \<noteq> ULLONG_MAX"
  proof
    assume "(of_nat (length body) :: 64 word) = ULLONG_MAX"
    then have "unat (of_nat (length body) :: 64 word) = unat ULLONG_MAX" by (simp only:)
    then show False using small u by (simp add: unsigned_minus_1_eq_mask mask_eq_exp_minus_1)
  qed
  moreover have "(of_nat (length body) :: 64 word) = 0 \<longleftrightarrow> body = []" using u by (metis length_0_conv unat_0 unat_eq_zero)
  ultimately show ?thesis using headers by (auto simp: known_length_def)
qed

lemma head_run:
  assumes "request_ok m url hs body" "ready x"
  defines "n \<equiv> length (render_head m url hs)"
  shows "\<exists>y. chars_run len (render_head m url hs) x = Some y \<and> x_p y = n \<and> marks_set y = 0 \<and>
    (if body = [] then x_events y = request_events m url hs body
     else x_events y @ [EvBody n (length body), EvMessageComplete] = request_events m url hs body \<and>
       p_state y = s_body_identity \<and> p_content_length y = of_nat (length body)) \<and>
    p_type y = HTTP_REQUEST \<and> p_nread y = 0 \<and> p_errno y = HPE_OK \<and>
    (\<not> list_ex connection_header hs \<longrightarrow> alive y \<and> (body = [] \<longrightarrow> idle y))"
proof -
  let ?u = "length (method_string m) + 1"
  let ?h = "?u + length url + 11"
  let ?hs = "concat (map render_header hs)"
  have ok: "m \<noteq> HTTP_MSEARCH" "m \<noteq> HTTP_CONNECT" "url_ok url" "list_all (header_ok (length body)) hs"
    "length body < 2 ^ 64 - 1" "n \<le> 81920" "length body = 0 \<or> list_ex length_header hs"
    using assms(1) by (simp_all add: request_ok_def headers_ok_def n_def)
  have n: "n = ?h + length ?hs + 2" by (simp add: n_def render_head_def)
  obtain a where a: "chars_run len (method_string m @ [SP]) x = Some a"
      "head_at s_req_spaces_before_url [] ULLONG_MAX ?u a" "p_flags a = {}"
    using method_run [OF assms(2) ok(1,2)] by blast
  obtain b where b: "chars_run len (url @ [SP]) a = Some b"
      "head_at s_req_http_start [EvUrl ?u (length url)] ULLONG_MAX (?u + length url + 1) b" "p_flags b = {}"
    using a(3) target_run [OF a(2) ok(3), of len] n ok(6) by auto
  obtain c where c: "chars_run len (''HTTP/1.1'' @ CRLF) b = Some c"
      "head_at s_header_field_start [EvUrl ?u (length url)] ULLONG_MAX ?h c" "alive c"
    using version_run [OF b(2), of len] n ok(6) b(3) by (auto simp: add.assoc)
  have "line_start s_header_field_start" by (simp add: line_start_def)
  from headers_run [OF c(2) this ok(4) _ ok(5), of len] n ok(6)
  obtain d st where d: "chars_run len ?hs c = Some d" "line_start st"
      "head_at st ([EvUrl ?u (length url)] @ headers_events ?h hs) (known_length hs body) (?h + length ?hs) d"
      "\<not> list_ex connection_header hs \<Longrightarrow> alive d"
    using c(3) by (auto simp: known_length_def)
  obtain y where y: "chars_run len CRLF d = Some y" "x_p y = n" "marks_set y = 0"
      "if body = [] then x_events y = ([EvUrl ?u (length url)] @ headers_events ?h hs) @
           [EvHeadersComplete (of_nat n) (known_length hs body)] @ [EvMessageComplete]
       else x_events y = ([EvUrl ?u (length url)] @ headers_events ?h hs) @
           [EvHeadersComplete (of_nat n) (known_length hs body)] \<and>
         p_state y = s_body_identity \<and> p_content_length y = known_length hs body"
      "p_type y = HTTP_REQUEST" "p_nread y = 0" "p_errno y = HPE_OK"
      "alive d \<longrightarrow> alive y \<and> (body = [] \<longrightarrow> p_state y = s_start_req)"
    using head_end_run [OF d(3,2), of len] n ok(6) known_length_body [OF assms(1)] by auto
  have "render_head m url hs = (method_string m @ [SP]) @ (url @ [SP]) @ (''HTTP/1.1'' @ CRLF) @ ?hs @ CRLF"
    by (simp add: render_head_def)
  then have "chars_run len (render_head m url hs) x = Some y"
    using a(1) b(1) c(1) d(1) y(1) by (simp only: chars_run_append option.case)
  moreover have "body \<noteq> [] \<Longrightarrow> known_length hs body = of_nat (length body)" using ok(7) by (simp add: known_length_def)
  ultimately show ?thesis
    using y(2-8) d(4) by (auto simp: idle_def request_events_def Let_def simp flip: n_def known_length_def split: if_splits)
qed

lemma request_loop:
  assumes "request_ok m url hs body" "ready x"
  shows "\<exists>z. exec_loop (render_head m url hs @ body) x = Break z \<and> marks_set z = 0 \<and>
    x_p z = length (render_head m url hs @ body) \<and> x_events z = request_events m url hs body \<and>
    (\<not> list_ex connection_header hs \<longrightarrow> idle z)"
proof -
  let ?data = "render_head m url hs @ body"
  let ?n = "length (render_head m url hs)"
  obtain y where y: "chars_run (length ?data) (render_head m url hs) x = Some y" "x_p y = ?n" "marks_set y = 0"
      "p_type y = HTTP_REQUEST" "p_nread y = 0" "p_errno y = HPE_OK"
      "\<not> list_ex connection_header hs \<Longrightarrow> alive y \<and> (body = [] \<longrightarrow> idle y)"
    and rest: "if body = [] then x_events y = request_events m url hs body
      else x_events y @ [EvBody ?n (length body), EvMessageComplete] = request_events m url hs body \<and>
        p_state y = s_body_identity \<and> p_content_length y = of_nat (length body)"
    using head_run [OF assms, of "length ?data"] by blast
  have "x_p x = 0" using assms(2) by (simp add: ready_def)
  then have loop: "exec_loop ?data x = exec_loop ?data y" "drop (x_p y) ?data = body"
    using chars_run_loop [OF y(1), of body] by simp_all
  show ?thesis
  proof (cases "body = []")
    case True
    then show ?thesis using rest y loop(1) exec_loop_end [of y ?data] by auto
  next
    case False
    have "length body < 2 ^ 64 - 1" using assms by (simp add: request_ok_def)
    from body_run [OF _ _ False this loop(2) y(3)] rest False y(2,4-7) loop(1) show ?thesis by auto
  qed
qed

lemma request_run:
  assumes "request_ok m url hs body"
  shows "\<exists>p. http_parser_execute (http_parser_init HTTP_REQUEST) (render_head m url hs @ body) =
    Inr (length (render_head m url hs @ body), p, request_events m url hs body)"
proof -
  let ?data = "render_head m url hs @ body"
  obtain z where z: "exec_loop ?data request_start = Break z" "marks_set z = 0" "x_events z = request_events m url hs body"
    using request_loop [OF assms request_start_ready] by blast
  have "exec_all ?data request_start = Return (length ?data) z"
    using z by (simp add: exec_all_def exec_end_no_marks)
  moreover have "render_head m url hs \<noteq> []" by (simp add: render_head_def)
  moreover have "p_errno (http_parser_init HTTP_REQUEST) = HPE_OK" by (simp add: http_parser_init_def)
  ultimately show ?thesis
    using z(3) by (simp add: http_parser_execute_def flip: request_start_def)
qed

lemmas TOKEN_table = TOKEN_def tokens_def tokens_graph_def code_def nth_append

text \<open>A complete request of any method but two, with an address the parser accepts, headers that do not
  change how its body is read, and a body of the announced length, is consumed whole; what is announced
  are the address, every header, the end of the head, the body in one piece, and the end.\<close>

theorem request_announced:
  assumes "request_ok m url hs body"
  shows "\<exists>p. http_parser_execute (http_parser_init HTTP_REQUEST) (render_head m url hs @ body) =
    Inr (length (render_head m url hs @ body), p, request_events m url hs body)"
  by (rule request_run [OF assms])

definition headers_example :: "header list" where
  "headers_example = [(''Host'', ''h''), (''Content-Length'', ''2'')]"

lemma request_example: "url_ok url \<Longrightarrow> length url \<le> 1000 \<Longrightarrow> request_ok HTTP_POST url headers_example ''{}''"
proof -
  assume "url_ok url" "length url \<le> 1000"
  moreover have "headers_ok (length ''{}'') headers_example"
    by (simp add: headers_ok_def header_ok_def name_ok_def length_header_def headers_example_def value_ok_def
        TOKEN_table isdigit_def)
  moreover have "length (render_head HTTP_POST url headers_example) = length url + 46"
    by (simp add: render_head_def render_header_def headers_example_def)
  ultimately show ?thesis by (simp add: request_ok_def)
qed

lemmas url_ok_eval = url_ok_def parse_url_char_def parse_query_char_def IS_URL_CHAR_code code_def url_end_states_def

lemma request_example_ok: "request_ok HTTP_POST ''/api/reg'' headers_example ''{}''"
  by (rule request_example) (simp_all add: url_ok_eval)

theorem request_announced_witness:
  "\<exists>p. http_parser_execute (http_parser_init HTTP_REQUEST)
     (''POST /api/reg HTTP/1.1'' @ CRLF @ ''Host: h'' @ CRLF @ ''Content-Length: 2'' @ CRLF @ CRLF @ ''{}'') =
     Inr (56, p, [EvUrl 5 8, EvHeaderField 24 4, EvHeaderValue 30 1, EvHeaderField 33 14, EvHeaderValue 49 1,
       EvHeadersComplete 54 2, EvBody 54 2, EvMessageComplete])"
proof -
  have head: "render_head HTTP_POST ''/api/reg'' headers_example =
      ''POST /api/reg HTTP/1.1'' @ CRLF @ ''Host: h'' @ CRLF @ ''Content-Length: 2'' @ CRLF @ CRLF"
    by (simp add: render_head_def render_header_def headers_example_def)
  have events: "request_events HTTP_POST ''/api/reg'' headers_example ''{}'' =
      [EvUrl 5 8, EvHeaderField 24 4, EvHeaderValue 30 1, EvHeaderField 33 14, EvHeaderValue 49 1,
       EvHeadersComplete 54 2, EvBody 54 2, EvMessageComplete]"
    by (simp add: request_events_def render_head_def render_header_def header_events_def headers_example_def
        length_header_def TOKEN_table)
  have "length (render_head HTTP_POST ''/api/reg'' headers_example @ ''{}'') = 56" by (simp add: head)
  then show ?thesis
    using request_announced [OF request_example_ok] unfolding events head by (simp only: append_assoc)
qed

text \<open>C20. For every name made of the characters of a header name, the parser waits for the value of the
  length, the encoding, the upgrade or the connection exactly when the name is the one of that header,
  whatever its case.\<close>

theorem header_name_known:
  assumes "head_at st evs l i x" "line_start st" "name_ok name" "i + length name < 81920"
  shows "\<exists>y. chars_run len (name @ '':'') x = Some y \<and> p_state y = s_header_value_start \<and>
    (p_header_state y = h_content_length \<longleftrightarrow> lower_name name = ''content-length'') \<and>
    (p_header_state y = h_transfer_encoding \<longleftrightarrow> lower_name name = ''transfer-encoding'') \<and>
    (p_header_state y = h_upgrade \<longleftrightarrow> lower_name name = ''upgrade'') \<and>
    (p_header_state y = h_connection \<longleftrightarrow> lower_name name = ''connection'' \<or> lower_name name = ''proxy-connection'')"
proof -
  obtain y j where y: "chars_run len (name @ '':'') x = Some y"
      "head_at s_header_value_start (evs @ [EvHeaderField i (length name)]) l (i + length name + 1) y"
      "name_read (lower_name name) (p_header_state y) j"
    using field_run [OF assms] by blast
  then show ?thesis using name_read_known [OF y(3)] by (intro exI [of _ y]) (simp add: head_at_def)
qed

theorem header_name_known_witness:
  "\<exists>y. chars_run 20 ''Content-Length:'' (request_start\<lparr>p_state := s_header_field_start\<rparr>) = Some y \<and>
     p_header_state y = h_content_length"
proof -
  have "head_at s_header_field_start [] 0 0 (request_start\<lparr>p_state := s_header_field_start\<rparr>)"
    by (simp add: head_at_def head_ok_def request_start_def exec_start_def http_parser_init_def http_parser.defs
        url_states_def)
  moreover have "line_start s_header_field_start" by (simp add: line_start_def)
  moreover have "name_ok ''Content-Length''" "lower_name ''Content-Length'' = ''content-length''"
    by (simp_all add: name_ok_def TOKEN_table)
  ultimately show ?thesis using header_name_known [of _ _ _ 0 _ "''Content-Length''" 20] by force
qed

text \<open>The digits of a length are taken in without a test of the product: the test that the number did not
  become smaller misses most wrap-arounds, and a length above 2 to the power 64 counts as another one.\<close>

theorem content_length_wraps:
  "map_sum id (\<lambda>(n, p, evs). (n, evs)) (http_parser_execute (http_parser_init HTTP_REQUEST)
     (''POST / HTTP/1.1'' @ CRLF @ ''Content-Length: 29514790517935282580'' @ CRLF @ CRLF)) =
   Inr (57, [EvUrl 5 1, EvHeaderField 17 14, EvHeaderValue 33 20, EvHeadersComplete 57 11068046444225730964])"
  by code_simp

text \<open>The map of methods spells one name with spaces, so the request of that method is refused at its third
  character.\<close>

theorem m_search_refused:
  "\<exists>p. http_parser_execute (http_parser_init HTTP_REQUEST) (''M-SEARCH'' @ rest) = Inr (2, p, []) \<and>
     p_errno p = HPE_INVALID_METHOD"
  by (simp add: http_parser_execute_def exec_all_def)
    (simp add: http_parser_init_def exec_start_def http_parser.defs exec_loop.simps exec_step_def count_byte_def
      PARSING_HEADER_def run_byte.simps exec_byte_def do_start_req_def do_req_method_def first_method_def other_method_def
      IS_ALPHA_def LOWER_def code_def url_states_def outcome_defs)

end
