(* ===== verification/HttpPipeline.thy ===== *)
theory HttpPipeline
  imports HttpSafety HttpRequest
begin

text \<open>
  Several messages in one input: what the parser does with a part of the data does not depend on what
  stands before that part, so parsing in two calls that meet between two pieces is parsing at once, and
  requests that follow each other are announced one after the other.
\<close>

section \<open>Data that stands further back\<close>

fun shift_event :: "nat \<Rightarrow> http_event \<Rightarrow> http_event" where
  "shift_event k (EvUrl p n) = EvUrl (p + k) n"
| "shift_event k (EvHeaderField p n) = EvHeaderField (p + k) n"
| "shift_event k (EvHeaderValue p n) = EvHeaderValue (p + k) n"
| "shift_event k (EvHeadersComplete r l) = EvHeadersComplete r l"
| "shift_event k (EvBody p n) = EvBody (p + k) n"
| "shift_event k EvMessageComplete = EvMessageComplete"

abbreviation shift_mark :: "nat \<Rightarrow> nat option \<Rightarrow> nat option" where
  "shift_mark k \<equiv> map_option (\<lambda>m. m + k)"

text \<open>The state of a run with more bytes before its data, and with the callbacks made for them.\<close>

definition moved :: "nat \<Rightarrow> http_event list \<Rightarrow> http_exec \<Rightarrow> http_exec" where
  "moved k evs x = x\<lparr>x_p := x_p x + k, x_header_field_mark := shift_mark k (x_header_field_mark x),
     x_header_value_mark := shift_mark k (x_header_value_mark x), x_url_mark := shift_mark k (x_url_mark x),
     x_body_mark := shift_mark k (x_body_mark x), x_events := evs @ map (shift_event k) (x_events x)\<rparr>"

primrec moved_outcome :: "nat \<Rightarrow> http_event list \<Rightarrow> outcome \<Rightarrow> outcome" where
  "moved_outcome k evs (Break x) = Break (moved k evs x)"
| "moved_outcome k evs (Reexec x) = Reexec (moved k evs x)"
| "moved_outcome k evs (Error x) = Error (moved k evs x)"
| "moved_outcome k evs (Return n x) = Return (n + k) (moved k evs x)"
| "moved_outcome k evs (Fault e) = Fault e"

lemma moved_fields [simp]:
  "p_state (moved k evs x) = p_state x" "p_type (moved k evs x) = p_type x" "p_flags (moved k evs x) = p_flags x"
  "p_header_state (moved k evs x) = p_header_state x" "p_index (moved k evs x) = p_index x"
  "p_nread (moved k evs x) = p_nread x" "p_content_length (moved k evs x) = p_content_length x"
  "p_http_major (moved k evs x) = p_http_major x" "p_http_minor (moved k evs x) = p_http_minor x"
  "p_status_code (moved k evs x) = p_status_code x" "p_method (moved k evs x) = p_method x"
  "p_errno (moved k evs x) = p_errno x" "p_upgrade (moved k evs x) = p_upgrade x" "x_p (moved k evs x) = x_p x + k"
  "http_parser.truncate (moved k evs x) = http_parser.truncate x"
  "x_events (moved k evs x) = evs @ map (shift_event k) (x_events x)" "marks_set (moved k evs x) = marks_set x"
  by (simp_all add: moved_def http_parser.defs marks_set_def)

lemma moved_update [simp]:
  "(moved k evs x)\<lparr>p_state := s\<rparr> = moved k evs (x\<lparr>p_state := s\<rparr>)"
  "(moved k evs x)\<lparr>p_type := t\<rparr> = moved k evs (x\<lparr>p_type := t\<rparr>)"
  "(moved k evs x)\<lparr>p_flags := fs\<rparr> = moved k evs (x\<lparr>p_flags := fs\<rparr>)"
  "(moved k evs x)\<lparr>p_header_state := h\<rparr> = moved k evs (x\<lparr>p_header_state := h\<rparr>)"
  "(moved k evs x)\<lparr>p_index := i\<rparr> = moved k evs (x\<lparr>p_index := i\<rparr>)"
  "(moved k evs x)\<lparr>p_nread := r\<rparr> = moved k evs (x\<lparr>p_nread := r\<rparr>)"
  "(moved k evs x)\<lparr>p_content_length := l\<rparr> = moved k evs (x\<lparr>p_content_length := l\<rparr>)"
  "(moved k evs x)\<lparr>p_http_major := n\<rparr> = moved k evs (x\<lparr>p_http_major := n\<rparr>)"
  "(moved k evs x)\<lparr>p_http_minor := n\<rparr> = moved k evs (x\<lparr>p_http_minor := n\<rparr>)"
  "(moved k evs x)\<lparr>p_status_code := n\<rparr> = moved k evs (x\<lparr>p_status_code := n\<rparr>)"
  "(moved k evs x)\<lparr>p_method := m\<rparr> = moved k evs (x\<lparr>p_method := m\<rparr>)"
  "(moved k evs x)\<lparr>p_errno := e\<rparr> = moved k evs (x\<lparr>p_errno := e\<rparr>)"
  "(moved k evs x)\<lparr>p_upgrade := b\<rparr> = moved k evs (x\<lparr>p_upgrade := b\<rparr>)"
  "(moved k evs x)\<lparr>x_p := i + k\<rparr> = moved k evs (x\<lparr>x_p := i\<rparr>)"
  "(moved k evs x)\<lparr>x_p := Suc (i + k)\<rparr> = moved k evs (x\<lparr>x_p := Suc i\<rparr>)"
  "(moved k evs x)\<lparr>x_url_mark := mark (x_p x + k) (x_url_mark (moved k evs x))\<rparr> =
     moved k evs (x\<lparr>x_url_mark := mark (x_p x) (x_url_mark x)\<rparr>)"
  "(moved k evs x)\<lparr>x_header_field_mark := mark (x_p x + k) (x_header_field_mark (moved k evs x))\<rparr> =
     moved k evs (x\<lparr>x_header_field_mark := mark (x_p x) (x_header_field_mark x)\<rparr>)"
  "(moved k evs x)\<lparr>x_header_value_mark := mark (x_p x + k) (x_header_value_mark (moved k evs x))\<rparr> =
     moved k evs (x\<lparr>x_header_value_mark := mark (x_p x) (x_header_value_mark x)\<rparr>)"
  "(moved k evs x)\<lparr>x_body_mark := mark (x_p x + k) (x_body_mark (moved k evs x))\<rparr> =
     moved k evs (x\<lparr>x_body_mark := mark (x_p x) (x_body_mark x)\<rparr>)"
  by (simp_all add: moved_def mark_def split: option.split)

lemma moved_callbacks [simp]:
  "notify_message_complete (moved k evs x) = moved k evs (notify_message_complete x)"
  "notify_headers_complete (moved k evs x) = moved k evs (notify_headers_complete x)"
  "callback_url (moved k evs x) = moved k evs (callback_url x)"
  "callback_header_field (moved k evs x) = moved k evs (callback_header_field x)"
  "callback_header_value (moved k evs x) = moved k evs (callback_header_value x)"
  "callback_body (n + k) (moved k evs x) = moved k evs (callback_body n x)"
  "callback_body (Suc (n + k)) (moved k evs x) = moved k evs (callback_body (Suc n) x)"
  by (simp_all add: moved_def notify_message_complete_def notify_headers_complete_def callback_url_def
      callback_header_field_def callback_header_value_def callback_body_def split: option.split)

lemma moved_keep_alive [simp]:
  "http_message_needs_eof (moved k evs x) = http_message_needs_eof x"
  "NEW_MESSAGE (moved k evs x) = NEW_MESSAGE x" "message_complete (moved k evs x) = moved k evs (message_complete x)"
  by (simp_all add: message_complete_def NEW_MESSAGE_def start_state_def http_should_keep_alive_def
      http_message_needs_eof_def)

lemma moved_match [simp]: "match_header name f c (moved k evs x) = moved k evs (match_header name f c x)"
  by (simp add: match_header_def Let_def)

lemma moved_outcomes [simp]:
  "SET_ERRNO e (moved k evs x) = moved_outcome k evs (SET_ERRNO e x)"
  "go s (moved k evs x) = moved_outcome k evs (go s x)"
  by (simp_all add: outcome_defs)

lemma moved_if: "moved_outcome k evs (if c then a else b) = (if c then moved_outcome k evs a else moved_outcome k evs b)"
  by simp

lemma moved_option: "moved_outcome k evs (case v of None \<Rightarrow> a | Some m \<Rightarrow> g m) =
    (case v of None \<Rightarrow> moved_outcome k evs a | Some m \<Rightarrow> moved_outcome k evs (g m))"
  by (cases v) simp_all

lemma moved_checks [simp]:
  "STRICT_CHECK c (moved k evs x) (moved_outcome k evs r) = moved_outcome k evs (STRICT_CHECK c x r)"
  "assert_that c (moved_outcome k evs r) = moved_outcome k evs (assert_that c r)"
  by (simp_all add: STRICT_CHECK_def assert_that_def)

lemma moved_take_body:
  assumes "x_p x < len" "p_content_length x \<noteq> 0"
  shows "take_body (len + k) (moved k evs x) = moved k evs (take_body len x)"
proof -
  have "0 < to_read len x" using assms by (simp add: to_read_def unat_gt_0)
  then have p: "x_p x + k + to_read len x - Suc 0 = (x_p x + to_read len x - Suc 0) + k" by simp
  have "to_read (len + k) (moved k evs x) = to_read len x" by (simp add: to_read_def)
  then show ?thesis by (simp add: take_body_def Let_def p)
qed

lemma moved_header_chars [simp]:
  "header_field_char ch c (moved k evs x) = moved_outcome k evs (header_field_char ch c x)"
  "header_value_first ch c (moved k evs x) = moved_outcome k evs (header_value_first ch c x)"
  "grow_length b d (moved k evs x) = moved_outcome k evs (grow_length b d x)"
  by (simp_all add: header_field_char_def header_value_first_def grow_length_def Let_def split: header_states.split)

lemma moved_header_value_char [simp]:
  "header_value_char ch c (moved k evs x) = moved_outcome k evs (header_value_char ch c x)"
  by (simp add: header_value_char_def split: header_states.split)

lemma exec_byte_moved:
  assumes "x_p x < len"
  shows "exec_byte (len + k) ch (moved k evs x) = moved_outcome k evs (exec_byte len ch x)"
proof (cases "p_state x")
  case s_body_identity
  then show ?thesis using assms
    by (simp add: exec_byte_def do_body_identity_def assert_that_def Let_def moved_take_body)
next
  case s_body_identity_eof
  have "len + k - Suc 0 = (len - 1) + k" using assms by simp
  then show ?thesis using s_body_identity_eof
    by (simp add: exec_byte_def do_body_identity_eof_def moved_def mark_def split: option.split)
next
  case s_chunk_data
  then show ?thesis using assms
    by (simp add: exec_byte_def do_chunk_data_def assert_that_def Let_def moved_take_body outcome_defs)
next
  case s_header_value_start
  then show ?thesis
    by (simp add: exec_byte_def do_header_value_start_def Let_def)
next
  case s_req_method
  then show ?thesis
    by (simp add: exec_byte_def do_req_method_def Let_def moved_option split: option.split)
next
  case s_req_spaces_before_url
  then show ?thesis
    by (simp add: exec_byte_def do_req_spaces_before_url_def url_char_def outcome_defs)
next
  case s_header_almost_done
  then show ?thesis
    by (simp add: exec_byte_def do_header_almost_done_def outcome_defs split: header_states.split)
qed (simp_all add: exec_byte_def first_line_defs do_header_field_start_def do_header_field_def do_header_value_def
    do_header_value_lws_def do_headers_almost_done_def do_headers_done_def do_chunk_size_start_def do_chunk_size_def
    do_chunk_parameters_def do_chunk_size_almost_done_def do_chunk_data_almost_done_def do_chunk_data_done_def
    outcome_defs moved_if moved_option cong: if_cong option.case_cong split del: if_split)

lemma run_byte_moved:
  "x_p x < len \<Longrightarrow> run_byte (len + k) ch (moved k evs x) = moved_outcome k evs (run_byte len ch x)"
proof (induction len ch x rule: run_byte.induct)
  case (1 len ch x)
  note step = exec_byte_moved [OF "1.prems", of k ch evs]
  show ?case
  proof (cases "exec_byte len ch x")
    case (Reexec y)
    then have "x_p y < len" using exec_byte_p [OF "1.prems", of ch] by simp
    then show ?thesis using "1.IH" [OF Reexec] step Reexec by (simp add: run_byte.simps [of _ _ x] run_byte_Reexec)
  qed (use step in \<open>simp_all add: run_byte.simps\<close>)
qed

lemma exec_step_moved:
  "x_p x < len \<Longrightarrow> exec_step (len + k) ch (moved k evs x) = moved_outcome k evs (exec_step len ch x)"
  by (simp add: exec_step_def count_byte_def outcome_defs run_byte_moved)

lemma exec_loop_moved:
  "exec_loop (pre @ data) (moved (length pre) evs x) = moved_outcome (length pre) evs (exec_loop data x)"
proof (induction data x rule: exec_loop.induct)
  case (1 data x)
  show ?case
  proof (cases "length data \<le> x_p x")
    case True
    then show ?thesis by (simp add: exec_loop.simps)
  next
    case False
    then have byte: "(pre @ data) ! (x_p x + length pre) = data ! x_p x" by (simp add: nth_append)
    note step = exec_step_moved [of x "length data" "length pre" "data ! x_p x" evs]
    show ?thesis
    proof (cases "exec_step (length data) (data ! x_p x) x")
      case (Break y)
      have "exec_loop (pre @ data) (moved (length pre) evs x) =
          exec_loop (pre @ data) (moved (length pre) evs (y\<lparr>x_p := x_p y + 1\<rparr>))"
        using step False byte Break by (subst exec_loop.simps) (simp add: add.commute)
      then show ?thesis using "1.IH" [OF False Break] False Break by (simp add: exec_loop.simps [of data x])
    next
      case (Reexec y)
      then show ?thesis using exec_step_no_reexec by blast
    qed (use step False byte in \<open>simp_all add: exec_loop.simps add.commute\<close>)
  qed
qed

section \<open>Data that goes on\<close>

text \<open>The states in which all bytes that are there are taken.\<close>

definition taking :: "pstate set" where
  "taking = {s_body_identity, s_body_identity_eof, s_chunk_data}"

text \<open>All bytes were taken, and there should be more.\<close>

definition starved :: "nat \<Rightarrow> outcome \<Rightarrow> bool" where
  "starved len r \<longleftrightarrow> (case r of Break y \<Rightarrow> p_state y \<in> taking \<and> x_p y = len - 1 | _ \<Rightarrow> False)"

lemma take_body_longer:
  assumes "x_p x < len" "len \<le> len'" "p_content_length x \<noteq> 0"
  shows "take_body len' x = take_body len x \<or> x_p (take_body len x) = len - 1 \<and> p_content_length (take_body len x) \<noteq> 0"
proof (cases "unat (p_content_length x) \<le> len - x_p x")
  case True
  then have "to_read len' x = to_read len x" using assms(2) by (simp add: to_read_def min_def)
  then show ?thesis by (simp add: take_body_def)
next
  case False
  have "unat (p_content_length x) < 2 ^ 64" using unsigned_less [of "p_content_length x"] by simp
  with False have "unat (of_nat (len - x_p x) :: 64 word) = len - x_p x" by (simp add: unat_of_nat take_bit_eq_mod)
  with False have n: "of_nat (len - x_p x) \<noteq> p_content_length x" "to_read len x = len - x_p x"
    by (auto simp: to_read_def)
  then show ?thesis using assms(1) by (simp add: take_body_def Let_def)
qed

lemma exec_byte_longer:
  assumes "x_p x < len" "len \<le> len'" "\<not> starved len (exec_byte len ch x)"
  shows "exec_byte len' ch x = exec_byte len ch x"
proof (cases "p_state x")
  case s_body_identity
  have state: "p_state (take_body len x) = s_body_identity" using s_body_identity by (simp add: take_body_def Let_def)
  show ?thesis
  proof (cases "p_content_length x = 0 \<or> p_content_length x = ULLONG_MAX")
    case False
    then show ?thesis
      using assms(3) take_body_longer [OF assms(1,2)] s_body_identity state
      by (auto simp: exec_byte_def do_body_identity_def assert_that_def Let_def starved_def taking_def)
  qed (use s_body_identity in \<open>auto simp: exec_byte_def do_body_identity_def assert_that_def\<close>)
next
  case s_body_identity_eof
  then show ?thesis using assms(3) by (simp add: exec_byte_def do_body_identity_eof_def starved_def taking_def)
next
  case s_chunk_data
  have state: "p_state (take_body len x) = s_chunk_data" using s_chunk_data by (simp add: take_body_def Let_def)
  show ?thesis
  proof (cases "p_content_length x = 0 \<or> p_content_length x = ULLONG_MAX")
    case False
    then show ?thesis
      using assms(3) take_body_longer [OF assms(1,2)] s_chunk_data state
      by (auto simp: exec_byte_def do_chunk_data_def assert_that_def Let_def starved_def taking_def go_def)
  qed (use s_chunk_data in \<open>auto simp: exec_byte_def do_chunk_data_def assert_that_def\<close>)
qed (simp_all add: exec_byte_def)

lemma run_byte_longer:
  assumes "x_p x < len" "len \<le> len'" "\<not> starved len (run_byte len ch x)"
  shows "run_byte len' ch x = run_byte len ch x"
  using assms
proof (induction len ch x rule: run_byte.induct)
  case (1 len ch x)
  show ?case
  proof (cases "exec_byte len ch x")
    case (Reexec y)
    then have "exec_byte len' ch x = Reexec y" "x_p y < len"
      using exec_byte_longer [OF "1.prems"(1,2), of ch] exec_byte_p [OF "1.prems"(1), of ch]
      by (simp_all add: starved_def)
    then show ?thesis using "1.IH" [OF Reexec] "1.prems"(2,3) Reexec by (simp add: run_byte_Reexec)
  qed (use exec_byte_longer [OF "1.prems"(1,2), of ch] "1.prems"(3) in \<open>simp_all add: run_byte.simps\<close>)
qed

lemma exec_step_longer:
  assumes "x_p x < len" "len \<le> len'" "\<not> starved len (exec_step len ch x)"
  shows "exec_step len' ch x = exec_step len ch x"
proof (cases "count_byte x")
  case (Break y)
  then have "x_p y = x_p x" by (auto simp: count_byte_def outcome_defs split: if_splits)
  then show ?thesis using run_byte_longer [of y len len' ch] assms Break by (simp add: exec_step_def)
qed (simp_all add: exec_step_def)

lemma exec_loop_longer:
  assumes "exec_loop d1 x = Break y" "x_p x \<le> length d1" "p_state y \<notin> taking"
  shows "exec_loop (d1 @ d2) x = exec_loop (d1 @ d2) y \<and> x_p y = length d1"
  using assms
proof (induction d1 x rule: exec_loop.induct)
  case (1 d1 x)
  show ?case
  proof (cases "length d1 \<le> x_p x")
    case True
    then show ?thesis using "1.prems" by (simp add: exec_loop.simps [of d1])
  next
    case False
    then obtain z where z: "exec_step (length d1) (d1 ! x_p x) x = Break z"
      using "1.prems"(1) exec_step_no_reexec by (auto simp: exec_loop.simps [of d1 x] split: outcome.splits)
    have rest: "exec_loop d1 (z\<lparr>x_p := x_p z + 1\<rparr>) = Break y"
      using "1.prems"(1) z False by (simp add: exec_loop.simps [of d1 x])
    have "x_p z < length d1" using exec_step_p [OF z] False by simp
    have "\<not> starved (length d1) (Break z)"
    proof
      assume "starved (length d1) (Break z)"
      then have "p_state z \<in> taking" "x_p z + 1 = length d1"
        using \<open>x_p z < length d1\<close> by (simp_all add: starved_def)
      then show False using rest "1.prems"(3) by (auto simp: exec_loop.simps)
    qed
    then have "exec_step (length (d1 @ d2)) ((d1 @ d2) ! x_p x) x = Break z"
      using exec_step_longer [of x "length d1" "length (d1 @ d2)" "d1 ! x_p x"] False z by (simp add: nth_append)
    then have "exec_loop (d1 @ d2) x = exec_loop (d1 @ d2) (z\<lparr>x_p := x_p z + 1\<rparr>)"
      using False by (subst exec_loop.simps) simp
    then show ?thesis
      using "1.IH" [OF False z rest _ "1.prems"(3)] \<open>x_p z < length d1\<close> by simp
  qed
qed

section \<open>Two calls\<close>

text \<open>The parser stops early only with an error or for another protocol.\<close>

abbreviation stops :: "outcome \<Rightarrow> bool" where
  "stops \<equiv> ends True (\<lambda>_. True) (\<lambda>_. True) (\<lambda>_ y. p_errno y = HPE_OK \<longrightarrow> p_upgrade y)"

lemma header_chars_stop:
  "stops (header_field_char ch c x)"
  "stops (header_value_first ch c x)"
  "stops (grow_length b d x)"
  "stops (header_value_char ch c x)"
  by (simp_all add: header_field_char_def header_value_first_def grow_length_def header_value_char_def ends_simps
      split: header_states.split)

lemma exec_byte_stops:
  "stops (exec_byte len ch x)"
proof (cases "p_state x")
  case s_header_almost_done
  then show ?thesis
    by (simp add: exec_byte_def do_header_almost_done_def ends_simps split: header_states.split)
qed (simp_all add: exec_byte_def first_line_defs do_header_field_start_def do_header_field_def do_header_value_start_def
    do_header_value_def do_header_value_lws_def do_headers_almost_done_def do_headers_done_def body_defs
    message_complete_def notify_message_complete_def ends_simps header_chars_stop)

lemma exec_loop_stops:
  "stops (exec_loop data x)"
proof (induction data x rule: exec_loop.induct)
  case (1 data x)
  have "stops (run_byte len ch z)" for len ch z
    by (rule run_byte_ends [where R = "\<lambda>_. True"]) (simp_all add: exec_byte_stops)
  then have "ends True (\<lambda>_. True) (\<lambda>_. True) (\<lambda>_ y. p_errno y \<noteq> HPE_OK \<or> p_upgrade y)
      (exec_step (length data) (data ! x_p x) x)"
    by (simp add: exec_step_def count_byte_def outcome_defs)
  then show ?case using "1.IH"
    by (subst exec_loop.simps) (auto split: outcome.split)
qed

text \<open>No piece is open in the states that are left.\<close>

definition open_states :: "pstate set" where
  "open_states = url_states \<union> {s_header_field, s_header_value} \<union> body_states"

lemma moved_start:
  assumes "marks_set y = 0" "p_state y \<notin> open_states"
  shows "y = moved (x_p y) (x_events y) (exec_start (http_parser.truncate y))"
  using assms
  by (cases y) (simp add: moved_def exec_start_def http_parser.defs marks_set_0 open_states_def)

text \<open>A call that consumes all of its data without an error leaves the loop at the end of the data.\<close>

lemma execute_whole:
  assumes "http_parser_execute p d = Inr (n, q, evs)" "parser_ok p" "d \<noteq> []" "p_errno q = HPE_OK" "\<not> p_upgrade q"
    "p_state q \<notin> open_states" "p_errno p = HPE_OK"
  obtains y where "exec_loop d (exec_start p) = Break y" "marks_set y = 0" "q = http_parser.truncate y" "evs = x_events y"
    "n = length d" "x_p y = length d"
proof -
  note found = that
  have run: "exec_all d (exec_start p) = Return n x \<Longrightarrow> thesis"
    if x: "q = http_parser.truncate x" "evs = x_events x" for x
  proof -
    assume r: "exec_all d (exec_start p) = Return n x"
    have fields: "p_errno x = HPE_OK" "\<not> p_upgrade x" "p_state x \<notin> open_states"
      using assms(4-6) x by (simp_all add: http_parser.defs)
    have stop: "stops (exec_loop d (exec_start p))" by (rule exec_loop_stops)
    obtain y where y: "exec_loop d (exec_start p) = Break y"
    proof (cases "exec_loop d (exec_start p)")
      case (Error y)
      then show ?thesis using r fields by (auto simp: exec_all_def split: if_splits)
    next
      case (Return k y)
      then show ?thesis using r fields stop by (simp add: exec_all_def)
    qed (use r in \<open>simp_all add: exec_all_def\<close>)
    have "loop_ok (length d) y"
      using exec_loop_ok [OF exec_start_ok [OF assms(7,2)], of d] y by simp
    moreover have flush: "n = length d" "x = flush_marks y"
      using r y by (simp_all add: exec_all_def exec_end_def assert_that_def split: if_splits)
    then have state: "p_state y \<notin> open_states"
      using fields(3) by (simp add: flush_marks_def)
    ultimately have none: "marks_set y = 0"
      by (auto simp: loop_ok_def marks_ok_def marks_set_0 open_states_def)
    then have "flush_marks y = y" using exec_end_no_marks [of y 0]
      by (simp add: exec_end_def assert_that_def split: if_splits)
    moreover have "x_p y = length d"
      using exec_loop_longer [OF y, of "[]"] state
      by (simp add: open_states_def body_states_def taking_def exec_start_def http_parser.defs)
    ultimately show thesis using found [OF y none] x flush by simp
  qed
  show thesis
    using assms(1,3,7) run by (auto simp: http_parser_execute_def split: outcome.splits)
qed

lemma exec_all_moved:
  assumes "exec_loop data' x' = moved_outcome k evs (exec_loop data x)" "length data' = length data + k"
  shows "exec_all data' x' = moved_outcome k evs (exec_all data x)"
proof -
  have "exec_end (length data + k) (moved k evs y) = moved_outcome k evs (exec_end (length data) y)" for y
    by (simp add: exec_end_def assert_that_def flush_marks_def)
  then show ?thesis
    using assms by (cases "exec_loop data x") (simp_all add: exec_all_def)
qed

lemma execute_loop:
  assumes "exec_loop data (exec_start p) = Break z" "marks_set z = 0" "data \<noteq> []" "p_errno p = HPE_OK"
  shows "http_parser_execute p data = Inr (length data, http_parser.truncate z, x_events z)"
  using assms by (simp add: http_parser_execute_def exec_all_def exec_end_no_marks)

text \<open>C19. Two calls that meet where no piece is open do what one call does with all of the data: the parser ends
  in the same state, and the pieces are the same, those of the second call further back.\<close>

theorem execute_in_two_calls:
  assumes "feed_parser (http_parser_init t) ds = Inr (p, rs)"
    and "http_parser_execute p d1 = Inr (n1, q, evs1)" "p_errno q = HPE_OK" "\<not> p_upgrade q" "p_state q \<notin> open_states"
    and "http_parser_execute q d2 = Inr (n2, r, evs2)" "d1 \<noteq> []" "d2 \<noteq> []"
  shows "http_parser_execute p (d1 @ d2) = Inr (length d1 + n2, r, evs1 @ map (shift_event (length d1)) evs2)"
proof -
  have ok: "parser_ok p" using feed_parser_ok [OF init_parser_ok, of t ds] assms(1) by auto
  have p: "p_errno p = HPE_OK" using assms(2,3) by (auto simp: http_parser_execute_def split: if_splits)
  obtain y where y: "exec_loop d1 (exec_start p) = Break y" "marks_set y = 0" "q = http_parser.truncate y"
      "evs1 = x_events y" "x_p y = length d1"
    using execute_whole [OF assms(2) ok assms(7,3,4,5) p] .
  have state: "p_state y \<notin> open_states" "p_state y \<notin> taking"
    using assms(5) y(3) by (auto simp: http_parser.defs open_states_def taking_def body_states_def)
  have "y = moved (length d1) evs1 (exec_start q)" using moved_start [OF y(2) state(1)] y(3-5) by simp
  moreover have "exec_loop (d1 @ d2) (exec_start p) = exec_loop (d1 @ d2) y"
    using exec_loop_longer [OF y(1) _ state(2), of d2] by (simp add: exec_start_def http_parser.defs)
  ultimately have "exec_loop (d1 @ d2) (exec_start p) = moved_outcome (length d1) evs1 (exec_loop d2 (exec_start q))"
    using exec_loop_moved [of d1 d2 evs1 "exec_start q"] by simp
  then have all: "exec_all (d1 @ d2) (exec_start p) = moved_outcome (length d1) evs1 (exec_all d2 (exec_start q))"
    by (rule exec_all_moved) simp
  show ?thesis
    using assms(3,6,7,8) p all
    by (auto simp: http_parser_execute_def moved_def http_parser.defs split: outcome.splits)
qed

lemma two_calls_example:
  "case http_parser_execute (http_parser_init HTTP_REQUEST) (''GET / HTTP/1.1'' @ CRLF) of
     Inl _ \<Rightarrow> False
   | Inr (n, q, evs) \<Rightarrow> evs = [EvUrl 4 1] \<and> p_errno q = HPE_OK \<and> \<not> p_upgrade q \<and> p_state q \<notin> open_states \<and>
       map_sum id (\<lambda>(n, r, evs). (n, evs)) (http_parser_execute q (''A: b'' @ CRLF @ CRLF)) =
         Inr (8, [EvHeaderField 0 1, EvHeaderValue 3 1, EvHeadersComplete 24 ULLONG_MAX, EvMessageComplete])"
  by code_simp

theorem execute_in_two_calls_witness:
  "\<exists>r. http_parser_execute (http_parser_init HTTP_REQUEST) ((''GET / HTTP/1.1'' @ CRLF) @ (''A: b'' @ CRLF @ CRLF)) =
     Inr (24, r, [EvUrl 4 1, EvHeaderField 16 1, EvHeaderValue 19 1, EvHeadersComplete 24 ULLONG_MAX, EvMessageComplete])"
proof -
  obtain n q where q: "http_parser_execute (http_parser_init HTTP_REQUEST) (''GET / HTTP/1.1'' @ CRLF) = Inr (n, q, [EvUrl 4 1])"
      "p_errno q = HPE_OK" "\<not> p_upgrade q" "p_state q \<notin> open_states"
      "map_sum id (\<lambda>(n, r, evs). (n, evs)) (http_parser_execute q (''A: b'' @ CRLF @ CRLF)) =
         Inr (8, [EvHeaderField 0 1, EvHeaderValue 3 1, EvHeadersComplete 24 ULLONG_MAX, EvMessageComplete])"
    using two_calls_example by (auto split: sum.splits)
  then obtain r where r: "http_parser_execute q (''A: b'' @ CRLF @ CRLF) =
      Inr (8, r, [EvHeaderField 0 1, EvHeaderValue 3 1, EvHeadersComplete 24 ULLONG_MAX, EvMessageComplete])"
    by (cases "http_parser_execute q (''A: b'' @ CRLF @ CRLF)") auto
  have "feed_parser (http_parser_init HTTP_REQUEST) [] = Inr (http_parser_init HTTP_REQUEST, [])" by simp
  from execute_in_two_calls [OF this q(1-4) r] show ?thesis by simp
qed

section \<open>Requests that follow each other\<close>

type_synonym request = "http_method \<times> string \<times> header list \<times> string"

fun render_request :: "request \<Rightarrow> string" where
  "render_request (m, url, hs, body) = render_head m url hs @ body"

fun valid_request :: "request \<Rightarrow> bool" where
  "valid_request (m, url, hs, body) \<longleftrightarrow> request_ok m url hs body"

text \<open>No header can end the connection, so that another request may follow.\<close>

fun persistent :: "request \<Rightarrow> bool" where
  "persistent (m, url, hs, body) \<longleftrightarrow> \<not> list_ex connection_header hs"

fun own_events :: "request \<Rightarrow> http_event list" where
  "own_events (m, url, hs, body) = request_events m url hs body"

abbreviation render_requests :: "request list \<Rightarrow> string" where
  "render_requests rs \<equiv> concat (map render_request rs)"

primrec requests_events :: "request list \<Rightarrow> http_event list" where
  "requests_events [] = []"
| "requests_events (r # rs) = own_events r @ map (shift_event (length (render_request r))) (requests_events rs)"

fun pipelined :: "request list \<Rightarrow> bool" where
  "pipelined [] \<longleftrightarrow> True"
| "pipelined [r] \<longleftrightarrow> valid_request r"
| "pipelined (r # rs) \<longleftrightarrow> valid_request r \<and> persistent r \<and> pipelined rs"

lemma pipelined_Cons:
  "pipelined (r # rs) \<longleftrightarrow> valid_request r \<and> (rs \<noteq> [] \<longrightarrow> persistent r) \<and> pipelined rs"
  by (cases rs) auto

lemma idle_ready: "idle y \<Longrightarrow> ready (exec_start (http_parser.truncate y))"
  by (simp add: idle_def ready_def exec_start_def http_parser.defs url_states_def)

lemma requests_loop:
  assumes "pipelined rs" "ready x"
  shows "\<exists>z. exec_loop (render_requests rs) x = Break z \<and> marks_set z = 0 \<and> x_p z = length (render_requests rs) \<and>
    x_events z = requests_events rs"
  using assms
proof (induction rs arbitrary: x)
  case Nil
  then show ?case by (simp add: exec_loop.simps ready_def marks_set_def)
next
  case (Cons r rs)
  let ?d = "render_request r"
  obtain m url hs body where r: "r = (m, url, hs, body)" by (cases r)
  have ok: "request_ok m url hs body" "rs \<noteq> [] \<Longrightarrow> persistent r" "pipelined rs"
    using Cons.prems(1) r by (auto simp: pipelined_Cons)
  obtain y where y: "exec_loop ?d x = Break y" "marks_set y = 0" "x_p y = length ?d" "x_events y = own_events r"
      "persistent r \<Longrightarrow> idle y"
    using request_loop [OF ok(1) Cons.prems(2)] r by auto
  show ?case
  proof (cases "rs = []")
    case True
    then show ?thesis using y by simp
  next
    case False
    then have idle: "idle y" using ok(2) y(5) by simp
    then have state: "p_state y \<notin> open_states" "p_state y \<notin> taking"
      by (simp_all add: idle_def open_states_def url_states_def body_states_def taking_def)
    let ?x = "exec_start (http_parser.truncate y)"
    obtain z where z: "exec_loop (render_requests rs) ?x = Break z" "marks_set z = 0"
        "x_p z = length (render_requests rs)" "x_events z = requests_events rs"
      using Cons.IH [OF ok(3) idle_ready [OF idle]] by blast
    have "x_p x \<le> length ?d" using Cons.prems(2) by (simp add: ready_def)
    then have "exec_loop (render_requests (r # rs)) x = exec_loop (?d @ render_requests rs) y"
      using exec_loop_longer [OF y(1) _ state(2), of "render_requests rs"] by simp
    also have "\<dots> = exec_loop (?d @ render_requests rs) (moved (length ?d) (own_events r) ?x)"
      using moved_start [OF y(2) state(1)] y(3,4) by simp
    also have "\<dots> = Break (moved (length ?d) (own_events r) z)"
      using exec_loop_moved [of ?d "render_requests rs" "own_events r" ?x] z(1) by simp
    finally show ?thesis using z(2-4) by (simp add: add.commute)
  qed
qed

lemma requests_run:
  assumes "pipelined rs" "rs \<noteq> []"
  shows "\<exists>p. http_parser_execute (http_parser_init HTTP_REQUEST) (render_requests rs) =
    Inr (length (render_requests rs), p, requests_events rs)"
proof -
  obtain z where z: "exec_loop (render_requests rs) request_start = Break z" "marks_set z = 0"
      "x_events z = requests_events rs"
    using requests_loop [OF assms(1) request_start_ready] by blast
  obtain m url hs body qs where "rs = (m, url, hs, body) # qs" using assms(2) by (cases rs) auto
  then have "render_requests rs \<noteq> []" by (simp add: render_head_def)
  then show ?thesis
    using execute_loop [OF z(1,2) [unfolded request_start_def]] z(3) by (simp add: http_parser_init_def)
qed

text \<open>C7. Any number of valid requests that follow each other on a connection that none but the last may end
  are consumed whole, and announced one after the other, each as it would be alone, further back.\<close>

theorem requests_announced:
  assumes "pipelined rs" "rs \<noteq> []"
  shows "\<exists>p. http_parser_execute (http_parser_init HTTP_REQUEST) (render_requests rs) =
    Inr (length (render_requests rs), p, requests_events rs)"
  using requests_run [OF assms] .

definition two_requests :: "request list" where
  "two_requests = [(HTTP_POST, ''/api/reg'', headers_example, ''{}''), (HTTP_GET, ''/'', [], [])]"

lemma second_request_ok: "request_ok HTTP_GET ''/'' [] []"
  by (simp add: request_ok_def url_ok_eval headers_ok_def render_head_def)

lemma two_requests_pipelined: "pipelined two_requests"
  using request_example_ok second_request_ok
  by (simp add: two_requests_def headers_example_def connection_header_def TOKEN_table)

theorem requests_announced_witness:
  "\<exists>p. http_parser_execute (http_parser_init HTTP_REQUEST)
     (''POST /api/reg HTTP/1.1'' @ CRLF @ ''Host: h'' @ CRLF @ ''Content-Length: 2'' @ CRLF @ CRLF @ ''{}'' @
      ''GET / HTTP/1.1'' @ CRLF @ CRLF) =
     Inr (74, p, [EvUrl 5 8, EvHeaderField 24 4, EvHeaderValue 30 1, EvHeaderField 33 14, EvHeaderValue 49 1,
       EvHeadersComplete 54 2, EvBody 54 2, EvMessageComplete, EvUrl 60 1, EvHeadersComplete 18 ULLONG_MAX,
       EvMessageComplete])"
proof -
  have data: "render_requests two_requests =
      ''POST /api/reg HTTP/1.1'' @ CRLF @ ''Host: h'' @ CRLF @ ''Content-Length: 2'' @ CRLF @ CRLF @ ''{}'' @
      ''GET / HTTP/1.1'' @ CRLF @ CRLF"
    by (simp add: two_requests_def render_head_def render_header_def headers_example_def)
  have events: "requests_events two_requests =
      [EvUrl 5 8, EvHeaderField 24 4, EvHeaderValue 30 1, EvHeaderField 33 14, EvHeaderValue 49 1,
       EvHeadersComplete 54 2, EvBody 54 2, EvMessageComplete, EvUrl 60 1, EvHeadersComplete 18 ULLONG_MAX,
       EvMessageComplete]"
    by (simp add: two_requests_def request_events_def render_head_def render_header_def header_events_def
        headers_example_def length_header_def TOKEN_table)
  have len: "length (render_requests two_requests) = 74" by (simp add: data)
  have "two_requests \<noteq> []" by (simp add: two_requests_def)
  from requests_announced [OF two_requests_pipelined this, unfolded len] show ?thesis unfolding events data .
qed

end
