(* ===== verification/HttpWrapper.thy ===== *)
theory HttpWrapper
  imports HttpPipeline
begin

text \<open>
  The wrapper around the HTTP parser (\<^verbatim>\<open>src/http_parser_wrapper.cc\<close>, \<^verbatim>\<open>src/include/http_parser_wrapper.h\<close>):
  the callbacks that collect the address, some headers and the body of a request. Every callback returns
  0, so none of them stops the parser, and what they do can be done after it, in the order of the calls.
  The parser is initialised anew for every call.
\<close>

section \<open>Definitions\<close>

record http_wrapper =
  read_all :: bool
  read_referer :: bool
  read_forward_ip :: bool
  read_user_agent :: bool
  read_content_type :: bool
  read_content_len :: bool
  read_host :: bool
  total_length :: "32 word"
  hw_url :: string
  body_content :: string
  referer :: string
  forward_ip :: string
  user_agent :: string
  content_type :: string
  content_len :: "32 word"
  hw_host :: string

text \<open>\<open>append(at, length)\<close> reads \<open>length\<close> bytes of the buffer.\<close>

definition buf_span :: "string \<Rightarrow> nat \<Rightarrow> nat \<Rightarrow> string res" where
  "buf_span buf p n = (if p + n \<le> length buf then Inr (take n (drop p buf)) else Inl OutOfBounds)"

text \<open>\<open>strncasecmp\<close> of the bytes from a position of the buffer on with a name, over the length of the
  name: the bytes of the buffer have no terminator of their own.\<close>

fun strncasecmp_buf :: "string \<Rightarrow> string \<Rightarrow> bool res" where
  "strncasecmp_buf _ [] = Inr True"
| "strncasecmp_buf [] (_ # _) = Inl OutOfBounds"
| "strncasecmp_buf (c # cs) (d # ds) = (if tolower c = tolower d then strncasecmp_buf cs ds else Inr False)"

subsection \<open>Members\<close>

text \<open>The methods that store take the bytes that were read; those that are given a length append.\<close>

definition SetUrl :: "string \<Rightarrow> http_wrapper \<Rightarrow> http_wrapper" where
  "SetUrl t w = w\<lparr>hw_url := hw_url w @ t\<rparr>"

definition SetBodyContent :: "string \<Rightarrow> http_wrapper \<Rightarrow> http_wrapper" where
  "SetBodyContent t w = w\<lparr>body_content := body_content w @ t\<rparr>"

definition SetTotalLength :: "32 word \<Rightarrow> http_wrapper \<Rightarrow> http_wrapper" where
  "SetTotalLength total_len w = w\<lparr>total_length := total_len\<rparr>"

definition SetReadAll :: "http_wrapper \<Rightarrow> http_wrapper" where
  "SetReadAll w = w\<lparr>read_all := True\<rparr>"

definition SetReferer :: "string \<Rightarrow> http_wrapper \<Rightarrow> http_wrapper" where
  "SetReferer t w = w\<lparr>referer := referer w @ t\<rparr>"

definition SetForwardIP :: "string \<Rightarrow> http_wrapper \<Rightarrow> http_wrapper" where
  "SetForwardIP t w = w\<lparr>forward_ip := forward_ip w @ t\<rparr>"

definition SetUserAgent :: "string \<Rightarrow> http_wrapper \<Rightarrow> http_wrapper" where
  "SetUserAgent t w = w\<lparr>user_agent := user_agent w @ t\<rparr>"

definition SetContentType :: "string \<Rightarrow> http_wrapper \<Rightarrow> http_wrapper" where
  "SetContentType t w = w\<lparr>content_type := content_type w @ t\<rparr>"

definition SetContentLen :: "32 word \<Rightarrow> http_wrapper \<Rightarrow> http_wrapper" where
  "SetContentLen n w = w\<lparr>content_len := n\<rparr>"

definition SetHost :: "string \<Rightarrow> http_wrapper \<Rightarrow> http_wrapper" where
  "SetHost t w = w\<lparr>hw_host := hw_host w @ t\<rparr>"

definition SetReadReferer :: "bool \<Rightarrow> http_wrapper \<Rightarrow> http_wrapper" where
  "SetReadReferer b w = w\<lparr>read_referer := b\<rparr>"

definition SetReadForwardIP :: "bool \<Rightarrow> http_wrapper \<Rightarrow> http_wrapper" where
  "SetReadForwardIP b w = w\<lparr>read_forward_ip := b\<rparr>"

definition SetReadUserAgent :: "bool \<Rightarrow> http_wrapper \<Rightarrow> http_wrapper" where
  "SetReadUserAgent b w = w\<lparr>read_user_agent := b\<rparr>"

definition SetReadContentType :: "bool \<Rightarrow> http_wrapper \<Rightarrow> http_wrapper" where
  "SetReadContentType b w = w\<lparr>read_content_type := b\<rparr>"

definition SetReadContentLen :: "bool \<Rightarrow> http_wrapper \<Rightarrow> http_wrapper" where
  "SetReadContentLen b w = w\<lparr>read_content_len := b\<rparr>"

definition SetReadHost :: "bool \<Rightarrow> http_wrapper \<Rightarrow> http_wrapper" where
  "SetReadHost b w = w\<lparr>read_host := b\<rparr>"

text \<open>A header counts as read when its value is not empty, or not zero.\<close>

definition HasReadReferer :: "http_wrapper \<Rightarrow> bool" where
  "HasReadReferer w \<longleftrightarrow> referer w \<noteq> []"

definition HasReadForwardIP :: "http_wrapper \<Rightarrow> bool" where
  "HasReadForwardIP w \<longleftrightarrow> forward_ip w \<noteq> []"

definition HasReadUserAgent :: "http_wrapper \<Rightarrow> bool" where
  "HasReadUserAgent w \<longleftrightarrow> user_agent w \<noteq> []"

definition HasReadContentType :: "http_wrapper \<Rightarrow> bool" where
  "HasReadContentType w \<longleftrightarrow> content_type w \<noteq> []"

definition HasReadContentLen :: "http_wrapper \<Rightarrow> bool" where
  "HasReadContentLen w \<longleftrightarrow> content_len w \<noteq> 0"

definition HasReadHost :: "http_wrapper \<Rightarrow> bool" where
  "HasReadHost w \<longleftrightarrow> hw_host w \<noteq> []"

definition GetBodyContentLen :: "http_wrapper \<Rightarrow> 32 word" where
  "GetBodyContentLen w = of_nat (length (body_content w))"

lemmas wrapper_defs = SetUrl_def SetBodyContent_def SetTotalLength_def SetReadAll_def
  SetReferer_def SetForwardIP_def SetUserAgent_def SetContentType_def SetContentLen_def SetHost_def
  SetReadReferer_def SetReadForwardIP_def SetReadUserAgent_def
  SetReadContentType_def SetReadContentLen_def SetReadHost_def
  HasReadReferer_def HasReadForwardIP_def HasReadUserAgent_def
  HasReadContentType_def HasReadContentLen_def HasReadHost_def

subsection \<open>Callbacks\<close>

definition OnUrl :: "string \<Rightarrow> nat \<Rightarrow> nat \<Rightarrow> http_wrapper \<Rightarrow> http_wrapper res" where
  "OnUrl buf at_pos n w = rbind (buf_span buf at_pos n) (\<lambda>t. Inr (SetUrl t w))"

text \<open>A header whose value is not known yet: is it the one that begins here?\<close>

definition header_seen :: "string \<Rightarrow> nat \<Rightarrow> string \<Rightarrow> (http_wrapper \<Rightarrow> bool) \<Rightarrow> (bool \<Rightarrow> http_wrapper \<Rightarrow> http_wrapper) \<Rightarrow> http_wrapper \<Rightarrow> http_wrapper res" where
  "header_seen buf at_pos name has_read set_read w =
     (if has_read w then Inr w
      else rbind (strncasecmp_buf (drop at_pos buf) name) (\<lambda>eq. Inr (if eq then set_read True w else w)))"

definition OnHeaderField :: "string \<Rightarrow> nat \<Rightarrow> nat \<Rightarrow> http_wrapper \<Rightarrow> http_wrapper res" where
  "OnHeaderField buf at_pos n w =
     rbind (header_seen buf at_pos ''Referer'' HasReadReferer SetReadReferer w) (\<lambda>w.
     rbind (header_seen buf at_pos ''X-Forwarded-For'' HasReadForwardIP SetReadForwardIP w) (\<lambda>w.
     rbind (header_seen buf at_pos ''User-Agent'' HasReadUserAgent SetReadUserAgent w) (\<lambda>w.
     rbind (header_seen buf at_pos ''Content-Type'' HasReadContentType SetReadContentType w) (\<lambda>w.
     rbind (header_seen buf at_pos ''Content-Length'' HasReadContentLen SetReadContentLen w) (\<lambda>w.
     header_seen buf at_pos ''Host'' HasReadHost SetReadHost w)))))"

definition MAX_REFERER_LEN :: nat where
  "MAX_REFERER_LEN = 32"

text \<open>A value that is being waited for is stored and the wait ends.\<close>

definition header_value :: "bool \<Rightarrow> string res \<Rightarrow> (string \<Rightarrow> http_wrapper \<Rightarrow> http_wrapper) \<Rightarrow> http_wrapper \<Rightarrow> http_wrapper res" where
  "header_value reading t store w = (if reading then rbind t (\<lambda>t. Inr (store t w)) else Inr w)"

definition OnHeaderValue :: "string \<Rightarrow> nat \<Rightarrow> nat \<Rightarrow> http_wrapper \<Rightarrow> http_wrapper res" where
  "OnHeaderValue buf at_pos n w =
     rbind (header_value (read_referer w)
       (buf_span buf at_pos (if n > MAX_REFERER_LEN then MAX_REFERER_LEN else n))
       (\<lambda>t w. SetReadReferer False (SetReferer t w)) w) (\<lambda>w.
     rbind (header_value (read_forward_ip w) (buf_span buf at_pos n)
       (\<lambda>t w. SetReadForwardIP False (SetForwardIP t w)) w) (\<lambda>w.
     rbind (header_value (read_user_agent w) (buf_span buf at_pos n)
       (\<lambda>t w. SetReadUserAgent False (SetUserAgent t w)) w) (\<lambda>w.
     rbind (header_value (read_content_type w) (buf_span buf at_pos n)
       (\<lambda>t w. SetReadContentType False (SetContentType t w)) w) (\<lambda>w.
     rbind (header_value (read_content_len w) (buf_span buf at_pos n)
       (\<lambda>t w. SetReadContentLen False (SetContentLen (of_int (atoi (c_str t))) w)) w) (\<lambda>w.
     header_value (read_host w) (buf_span buf at_pos n)
       (\<lambda>t w. SetReadHost False (SetHost t w)) w)))))"

definition OnHeadersComplete :: "32 word \<Rightarrow> 64 word \<Rightarrow> http_wrapper \<Rightarrow> http_wrapper" where
  "OnHeadersComplete nread content_length w = SetTotalLength (nread + ucast content_length) w"

definition OnBody :: "string \<Rightarrow> nat \<Rightarrow> nat \<Rightarrow> http_wrapper \<Rightarrow> http_wrapper res" where
  "OnBody buf at_pos n w = rbind (buf_span buf at_pos n) (\<lambda>t. Inr (SetBodyContent t w))"

definition OnMessageComplete :: "http_wrapper \<Rightarrow> http_wrapper" where
  "OnMessageComplete w = SetReadAll w"

fun http_callback :: "string \<Rightarrow> http_event \<Rightarrow> http_wrapper \<Rightarrow> http_wrapper res" where
  "http_callback buf (EvUrl p n) w = OnUrl buf p n w"
| "http_callback buf (EvHeaderField p n) w = OnHeaderField buf p n w"
| "http_callback buf (EvHeaderValue p n) w = OnHeaderValue buf p n w"
| "http_callback buf (EvHeadersComplete nread l) w = Inr (OnHeadersComplete nread l w)"
| "http_callback buf (EvBody p n) w = OnBody buf p n w"
| "http_callback buf EvMessageComplete w = Inr (OnMessageComplete w)"

fun http_callbacks :: "string \<Rightarrow> http_event list \<Rightarrow> http_wrapper \<Rightarrow> http_wrapper res" where
  "http_callbacks buf [] w = Inr w"
| "http_callbacks buf (e # es) w = rbind (http_callback buf e w) (http_callbacks buf es)"

definition wrapper_reset :: http_wrapper where
  "wrapper_reset =
     \<lparr>read_all = False, read_referer = False, read_forward_ip = False, read_user_agent = False,
      read_content_type = False, read_content_len = False, read_host = False, total_length = 0,
      hw_url = [], body_content = [], referer = [], forward_ip = [], user_agent = [], content_type = [],
      content_len = 0, hw_host = []\<rparr>"

text \<open>Every member is reset before the parser runs.\<close>

definition ParseHttpContent :: "string \<Rightarrow> http_wrapper res" where
  "ParseHttpContent buf =
     rbind (http_parser_execute (http_parser_init HTTP_REQUEST) buf) (\<lambda>(n, p, evs). http_callbacks buf evs wrapper_reset)"

section \<open>Lemmas\<close>

text \<open>The pieces of the address and of the body.\<close>

fun url_piece :: "string \<Rightarrow> http_event \<Rightarrow> string" where
  "url_piece buf (EvUrl p n) = take n (drop p buf)"
| "url_piece buf _ = []"

fun body_piece :: "string \<Rightarrow> http_event \<Rightarrow> string" where
  "body_piece buf (EvBody p n) = take n (drop p buf)"
| "body_piece buf _ = []"

lemma buf_span_Inr: "buf_span buf p n = Inr t \<Longrightarrow> t = take n (drop p buf)"
  by (auto simp: buf_span_def split: if_splits)

lemma header_value_keeps:
  assumes "header_value r t store w = Inr w'"
    and "\<And>t w. hw_url (store t w) = hw_url w \<and> body_content (store t w) = body_content w \<and> read_all (store t w) = read_all w"
  shows "hw_url w' = hw_url w \<and> body_content w' = body_content w \<and> read_all w' = read_all w"
  using assms by (auto simp: header_value_def elim!: rbind_InrE split: if_splits)

lemma OnHeaderValue_keeps:
  assumes "OnHeaderValue buf p n w = Inr w'"
  shows "hw_url w' = hw_url w \<and> body_content w' = body_content w \<and> read_all w' = read_all w"
  using assms unfolding OnHeaderValue_def
  by (elim rbind_InrE) (drule header_value_keeps; simp add: wrapper_defs)+

lemma header_seen_keeps:
  assumes "header_seen buf p name has set_read w = Inr w'"
    and "\<And>b w. hw_url (set_read b w) = hw_url w \<and> body_content (set_read b w) = body_content w \<and> read_all (set_read b w) = read_all w"
  shows "hw_url w' = hw_url w \<and> body_content w' = body_content w \<and> read_all w' = read_all w"
  using assms by (auto simp: header_seen_def elim!: rbind_InrE split: if_splits)

lemma OnHeaderField_keeps:
  assumes "OnHeaderField buf p n w = Inr w'"
  shows "hw_url w' = hw_url w \<and> body_content w' = body_content w \<and> read_all w' = read_all w"
  using assms unfolding OnHeaderField_def
  by (elim rbind_InrE) (drule header_seen_keeps; simp add: wrapper_defs)+

lemma http_callback_collects:
  assumes "http_callback buf e w = Inr w'"
  shows "hw_url w' = hw_url w @ url_piece buf e \<and> body_content w' = body_content w @ body_piece buf e \<and>
    (read_all w' \<longleftrightarrow> read_all w \<or> e = EvMessageComplete)"
  using assms
  by (cases e) (auto simp: OnUrl_def OnBody_def OnHeadersComplete_def OnMessageComplete_def wrapper_defs
      dest: buf_span_Inr OnHeaderField_keeps OnHeaderValue_keeps elim!: rbind_InrE)

lemma http_callbacks_collect:
  assumes "http_callbacks buf es w = Inr w'"
  shows "hw_url w' = hw_url w @ concat (map (url_piece buf) es) \<and>
    body_content w' = body_content w @ concat (map (body_piece buf) es) \<and>
    (read_all w' \<longleftrightarrow> read_all w \<or> EvMessageComplete \<in> set es)"
  using assms
proof (induction es arbitrary: w)
  case Nil
  then show ?case by simp
next
  case (Cons e es)
  then obtain w1 where step: "http_callback buf e w = Inr w1" "http_callbacks buf es w1 = Inr w'"
    by (auto elim: rbind_InrE)
  show ?case using http_callback_collects [OF step(1)] Cons.IH [OF step(2)] by auto
qed

lemma ParseHttpContent_collects:
  assumes "ParseHttpContent buf = Inr w"
  shows "\<exists>n p evs. http_parser_execute (http_parser_init HTTP_REQUEST) buf = Inr (n, p, evs) \<and>
    hw_url w = concat (map (url_piece buf) evs) \<and> body_content w = concat (map (body_piece buf) evs) \<and>
    (read_all w \<longleftrightarrow> EvMessageComplete \<in> set evs)"
proof -
  obtain n p evs where run: "http_parser_execute (http_parser_init HTTP_REQUEST) buf = Inr (n, p, evs)"
      "http_callbacks buf evs wrapper_reset = Inr w"
    using assms by (auto simp: ParseHttpContent_def elim!: rbind_InrE)
  then show ?thesis using http_callbacks_collect [OF run(2)] by (auto simp: wrapper_reset_def)
qed

subsection \<open>A whole request\<close>

text \<open>The comparison with a name ends at the colon behind the name of a header.\<close>

lemma tolower_colon: "tolower d = CHR '':'' \<longleftrightarrow> d = CHR '':''"
proof -
  have "code (CHR '':'') = 58" by (simp add: code_def)
  moreover have "65 \<le> code d \<Longrightarrow> code d \<le> 90 \<Longrightarrow> code (char_of (code d + 32)) \<noteq> 58" by simp
  then have "65 \<le> code d \<Longrightarrow> code d \<le> 90 \<Longrightarrow> char_of (code d + 32) \<noteq> CHR '':''" using calculation by metis
  ultimately show ?thesis by (auto simp: tolower_def)
qed

lemma strncasecmp_buf_stops:
  assumes "CHR '':'' \<in> set s" "list_all (\<lambda>d. tolower d \<noteq> CHR '':'') name"
  shows "\<exists>b. strncasecmp_buf s name = Inr b"
  using assms
proof (induction s name rule: strncasecmp_buf.induct)
  case (3 c cs d ds)
  have "tolower (CHR '':'') = CHR '':''" by (simp add: tolower_colon)
  with 3 show ?case by auto
qed auto

lemma header_seen_stops:
  assumes "CHR '':'' \<in> set (drop p buf)" "list_all (\<lambda>d. tolower d \<noteq> CHR '':'') name"
  shows "\<exists>w'. header_seen buf p name has set_read w = Inr w'"
  using strncasecmp_buf_stops [OF assms] by (cases "has w") (auto simp: header_seen_def)

lemma rbind_stops: "\<exists>a. m = Inr a \<Longrightarrow> (\<And>a. \<exists>b. k a = Inr b) \<Longrightarrow> \<exists>b. rbind m k = Inr b"
  by auto

lemma header_value_stops:
  "p + m \<le> length buf \<Longrightarrow> \<exists>w'. header_value reading (buf_span buf p m) store w = Inr w'"
  by (simp add: header_value_def buf_span_def)

fun event_served :: "string \<Rightarrow> http_event \<Rightarrow> bool" where
  "event_served buf (EvUrl p n) = (p + n \<le> length buf)"
| "event_served buf (EvHeaderField p n) = (CHR '':'' \<in> set (drop p buf))"
| "event_served buf (EvHeaderValue p n) = (p + n \<le> length buf)"
| "event_served buf (EvBody p n) = (p + n \<le> length buf)"
| "event_served buf _ = True"

lemma http_callback_served:
  assumes "event_served buf e"
  shows "\<exists>w'. http_callback buf e w = Inr w'"
proof (cases e)
  case (EvHeaderField p n)
  have colon: "CHR '':'' \<in> set (drop p buf)" using assms EvHeaderField by simp
  note seen = header_seen_stops [OF colon]
  have names: "list_all (\<lambda>d. tolower d \<noteq> CHR '':'') ''Referer''" "list_all (\<lambda>d. tolower d \<noteq> CHR '':'') ''X-Forwarded-For''"
     "list_all (\<lambda>d. tolower d \<noteq> CHR '':'') ''User-Agent''" "list_all (\<lambda>d. tolower d \<noteq> CHR '':'') ''Content-Type''"
     "list_all (\<lambda>d. tolower d \<noteq> CHR '':'') ''Content-Length''" "list_all (\<lambda>d. tolower d \<noteq> CHR '':'') ''Host''"
    by (simp_all add: tolower_colon)
  have "\<exists>w'. OnHeaderField buf p n w = Inr w'"
    unfolding OnHeaderField_def by ((rule rbind_stops, rule seen, rule names)+, rule seen, rule names)
  then show ?thesis using EvHeaderField by simp
next
  case (EvHeaderValue p n)
  then have span: "p + m \<le> length buf" if "m \<le> n" for m using assms that by simp
  have "\<exists>w'. OnHeaderValue buf p n w = Inr w'"
    unfolding OnHeaderValue_def by (intro rbind_stops header_value_stops span) simp_all
  then show ?thesis using EvHeaderValue by simp
qed (use assms in \<open>auto simp: OnUrl_def OnBody_def buf_span_def\<close>)

lemma http_callbacks_served:
  "list_all (event_served buf) es \<Longrightarrow> \<exists>w'. http_callbacks buf es w = Inr w'"
proof (induction es arbitrary: w)
  case (Cons e es)
  obtain w1 where "http_callback buf e w = Inr w1" using http_callback_served Cons.prems by fastforce
  then show ?case using Cons by simp
qed simp

lemma headers_events_pieces [simp]:
  "concat (map (url_piece buf) (headers_events i hs)) = []" "concat (map (body_piece buf) (headers_events i hs)) = []"
  by (induction hs arbitrary: i) (simp_all add: header_events_def)

lemma headers_served:
  assumes "buf = pre @ concat (map render_header hs) @ post"
  shows "list_all (event_served buf) (headers_events (length pre) hs)"
  using assms
proof (induction hs arbitrary: pre)
  case (Cons h hs)
  have "buf = (pre @ render_header h) @ concat (map render_header hs) @ post" using Cons.prems by simp
  note IH = Cons.IH [OF this]
  have "list_all (event_served buf) (header_events (length pre) h)"
    using Cons.prems by (simp add: header_events_def render_header_def)
  then show ?case using IH by simp
qed simp

text \<open>The callbacks for a request, over its own bytes: all are served, and its address and its body are
  what the pieces are cut from.\<close>

abbreviation url_text :: "string \<Rightarrow> http_event list \<Rightarrow> string" where
  "url_text buf evs \<equiv> concat (map (url_piece buf) evs)"

abbreviation body_text :: "string \<Rightarrow> http_event list \<Rightarrow> string" where
  "body_text buf evs \<equiv> concat (map (body_piece buf) evs)"

fun request_url :: "request \<Rightarrow> string" where
  "request_url (m, url, hs, body) = url"

fun request_body :: "request \<Rightarrow> string" where
  "request_body (m, url, hs, body) = body"

lemma own_events_pieces:
  "list_all (event_served (render_request r)) (own_events r)" "url_text (render_request r) (own_events r) = request_url r"
  "body_text (render_request r) (own_events r) = request_body r" "EvMessageComplete \<in> set (own_events r)"
proof -
  obtain m url hs body where r: "r = (m, url, hs, body)" by (cases r)
  let ?buf = "render_head m url hs @ body"
  let ?pre = "method_string m @ [SP] @ url @ '' HTTP/1.1'' @ CRLF"
  have buf: "?buf = ?pre @ concat (map render_header hs) @ CRLF @ body" by (simp add: render_head_def)
  note headers = headers_served [OF buf]
  have pre: "length ?pre = length (method_string m) + 1 + length url + 11" by simp
  have "event_served ?buf (EvUrl (length (method_string m) + 1) (length url))"
    "event_served ?buf (EvBody (length (render_head m url hs)) (length body))"
    by (simp_all add: render_head_def)
  then show "list_all (event_served (render_request r)) (own_events r)"
    using headers unfolding request_events_def Let_def pre r own_events.simps render_request.simps by simp
  have "url_piece ?buf (EvUrl (length (method_string m) + 1) (length url)) = url" by (simp add: render_head_def)
  moreover have "body_piece ?buf (EvBody (length (render_head m url hs)) (length body)) = body" by simp
  ultimately show "url_text (render_request r) (own_events r) = request_url r"
    "body_text (render_request r) (own_events r) = request_body r" "EvMessageComplete \<in> set (own_events r)"
    by (simp_all add: r request_events_def Let_def del: url_piece.simps(1) body_piece.simps(1))
qed

text \<open>Bytes before and behind change nothing.\<close>

lemma shifted_pieces [simp]:
  "url_piece (pre @ d) (shift_event (length pre) e) = url_piece d e"
  "body_piece (pre @ d) (shift_event (length pre) e) = body_piece d e"
  "event_served (pre @ d) (shift_event (length pre) e) = event_served d e"
  "shift_event k e = EvMessageComplete \<longleftrightarrow> e = EvMessageComplete"
  by (cases e; simp)+

lemma longer_pieces:
  assumes "list_all (event_served d) evs"
  shows "list_all (event_served (d @ post)) evs" "url_text (d @ post) evs = url_text d evs"
    "body_text (d @ post) evs = body_text d evs"
proof -
  have "event_served d e \<Longrightarrow> event_served (d @ post) e \<and> url_piece (d @ post) e = url_piece d e \<and>
      body_piece (d @ post) e = body_piece d e" for e
    by (cases e) auto
  then show "list_all (event_served (d @ post)) evs" "url_text (d @ post) evs = url_text d evs"
    "body_text (d @ post) evs = body_text d evs"
    using assms by (simp_all add: list_all_iff cong: map_cong)
qed

lemma requests_pieces:
  "list_all (event_served (render_requests rs)) (requests_events rs)"
  "url_text (render_requests rs) (requests_events rs) = concat (map request_url rs)"
  "body_text (render_requests rs) (requests_events rs) = concat (map request_body rs)"
proof (induction rs)
  case (Cons r rs)
  note own = longer_pieces [OF own_events_pieces(1) [of r], of "render_requests rs"]
  {
    case 1
    then show ?case using Cons own(1) by (simp add: list.pred_map o_def)
  next
    case 2
    then show ?case using Cons own(2) own_events_pieces(2) [of r] by (simp add: o_def)
  next
    case 3
    then show ?case using Cons own(3) own_events_pieces(3) [of r] by (simp add: o_def)
  }
qed simp_all

text \<open>Requests that came one after the other are taken apart, but not apart from each other: the wrapper
  ends with all their addresses in one string, and all their bodies in another.\<close>

lemma ParseHttpContent_requests:
  assumes "pipelined rs" "rs \<noteq> []"
  shows "\<exists>w. ParseHttpContent (render_requests rs) = Inr w \<and> hw_url w = concat (map request_url rs) \<and>
    body_content w = concat (map request_body rs) \<and> read_all w"
proof -
  let ?buf = "render_requests rs"
  obtain p where run: "http_parser_execute (http_parser_init HTTP_REQUEST) ?buf = Inr (length ?buf, p, requests_events rs)"
    using requests_run [OF assms] by blast
  obtain w where w: "http_callbacks ?buf (requests_events rs) wrapper_reset = Inr w"
    using http_callbacks_served [OF requests_pieces(1)] by blast
  have "EvMessageComplete \<in> set (requests_events rs)"
    using assms(2) own_events_pieces(4) by (cases rs) simp_all
  then show ?thesis
    using http_callbacks_collect [OF w] w run requests_pieces(2,3) [of rs]
    by (intro exI [of _ w]) (simp add: ParseHttpContent_def wrapper_reset_def)
qed

text \<open>A complete request, as its client writes it, is taken apart again: the wrapper ends with its address
  and its body, whatever the other headers, and counts it as read.\<close>

lemma ParseHttpContent_request:
  assumes "request_ok m url hs body"
  shows "\<exists>w. ParseHttpContent (render_head m url hs @ body) = Inr w \<and> hw_url w = url \<and> body_content w = body \<and> read_all w"
  using ParseHttpContent_requests [of "[(m, url, hs, body)]"] assms by simp

end
