(* ===== verification/Url.thy ===== *)
theory Url
  imports CString
begin

text \<open>
  The addresses the server answers (\<^verbatim>\<open>src/url.cc\<close>, \<^verbatim>\<open>src/include/url.h\<close>): the enumeration of their
  identifiers, in the order of its values, and the search that a request goes through.
\<close>

section \<open>Definitions\<close>

datatype urlid =
    URLID_REG | URLID_LOGIN | URLID_UPLOAD | URLID_MD5 | URLID_MYFILES | URLID_SHAREPICTURE | URLID_END

abbreviation URLID_START :: urlid where "URLID_START \<equiv> URLID_REG"

text \<open>The value of an identifier, and the identifier a number is cast to.\<close>

primrec urlid_value :: "urlid \<Rightarrow> nat" where
  "urlid_value URLID_REG = 0"
| "urlid_value URLID_LOGIN = 1"
| "urlid_value URLID_UPLOAD = 2"
| "urlid_value URLID_MD5 = 3"
| "urlid_value URLID_MYFILES = 4"
| "urlid_value URLID_SHAREPICTURE = 5"
| "urlid_value URLID_END = 6"

definition urlid_of :: "nat \<Rightarrow> urlid" where
  "urlid_of n =
     (if n < 7 then [URLID_REG, URLID_LOGIN, URLID_UPLOAD, URLID_MD5, URLID_MYFILES, URLID_SHAREPICTURE,
        URLID_END] ! n else URLID_END)"

lemma urlid_of_value [simp]: "urlid_of (urlid_value i) = i"
  by (cases i) (simp_all add: urlid_of_def)

lemma urlid_value_of: "n < 7 \<Longrightarrow> urlid_value (urlid_of n) = n"
  by (auto simp: urlid_of_def less_Suc_eq numeral_eq_Suc)

instantiation urlid :: linorder
begin

definition less_eq_urlid :: "urlid \<Rightarrow> urlid \<Rightarrow> bool" where
  "less_eq_urlid a b \<longleftrightarrow> urlid_value a \<le> urlid_value b"

definition less_urlid :: "urlid \<Rightarrow> urlid \<Rightarrow> bool" where
  "less_urlid a b \<longleftrightarrow> urlid_value a < urlid_value b"

instance
proof
  fix a b :: urlid
  show "a \<le> b \<Longrightarrow> b \<le> a \<Longrightarrow> a = b"
    by (cases a; cases b) (simp_all add: less_eq_urlid_def)
qed (auto simp: less_eq_urlid_def less_urlid_def)

end

definition url_str :: "string list" where
  "url_str = [''/api/reg'', ''/api/login'', ''/api/upload'', ''/api/md5'', ''/api/myfiles'', ''/api/sharepic'']"

text \<open>The loop of \<open>get_urlid\<close> from an identifier on.\<close>

function get_urlid_from :: "urlid \<Rightarrow> string \<Rightarrow> urlid" where
  "get_urlid_from i url_s =
     (if i < URLID_END then
        if url_s = url_str ! urlid_value i then i
        else get_urlid_from (urlid_of (urlid_value i + 1)) url_s
      else i)"
  by auto
termination
  by (relation "measure (\<lambda>(i, _). 6 - urlid_value i)")
    (simp_all add: less_urlid_def urlid_value_of)

declare get_urlid_from.simps [simp del]

definition get_urlid :: "string \<Rightarrow> urlid" where
  "get_urlid url_s = get_urlid_from URLID_START url_s"

section \<open>Lemmas\<close>

lemma urlid_less_END_iff: "i < URLID_END \<longleftrightarrow> i \<noteq> URLID_END"
  by (cases i) (simp_all add: less_urlid_def)

lemma get_urlid_unfold:
  "get_urlid url_s =
     (if url_s = ''/api/reg'' then URLID_REG
      else if url_s = ''/api/login'' then URLID_LOGIN
      else if url_s = ''/api/upload'' then URLID_UPLOAD
      else if url_s = ''/api/md5'' then URLID_MD5
      else if url_s = ''/api/myfiles'' then URLID_MYFILES
      else if url_s = ''/api/sharepic'' then URLID_SHAREPICTURE
      else URLID_END)"
  by (simp add: get_urlid_def get_urlid_from.simps urlid_less_END_iff urlid_of_def url_str_def)

lemma get_urlid_query: "CHR ''?'' \<in> set url_s \<Longrightarrow> get_urlid url_s = URLID_END"
proof -
  have none: "get_urlid url_s = URLID_END \<longleftrightarrow> url_s \<notin> set url_str"
    by (simp add: get_urlid_unfold url_str_def)
  assume "CHR ''?'' \<in> set url_s"
  then have "url_s \<notin> set url_str" by (auto simp: url_str_def)
  then show "get_urlid url_s = URLID_END" using none by simp
qed

text \<open>The identifier found is the one whose address is the whole request address, so an address with
  a query is found under none.\<close>

theorem get_urlid_exact:
  "(\<forall>i. i < URLID_END \<longrightarrow> (get_urlid url_s = i \<longleftrightarrow> url_s = url_str ! urlid_value i)) \<and>
   (get_urlid url_s = URLID_END \<longleftrightarrow> url_s \<notin> set url_str) \<and>
   (CHR ''?'' \<in> set url_s \<longrightarrow> get_urlid url_s = URLID_END)"
proof (intro conjI allI impI)
  fix i assume "i < URLID_END"
  then show "get_urlid url_s = i \<longleftrightarrow> url_s = url_str ! urlid_value i"
    by (cases i) (simp_all add: get_urlid_unfold url_str_def less_urlid_def)
next
  show "get_urlid url_s = URLID_END \<longleftrightarrow> url_s \<notin> set url_str"
    by (simp add: get_urlid_unfold url_str_def)
qed (rule get_urlid_query)

theorem get_urlid_exact_witness: "get_urlid ''/api/myfiles?cmd=count'' = URLID_END"
  using get_urlid_exact [of "''/api/myfiles?cmd=count''"] by simp

end
