(* ===== verification/HttpConn.thy ===== *)
theory HttpConn
  imports Login Register SharePicture Upload HttpWrapper Url
begin

text \<open>
  One connection (\<^verbatim>\<open>src/HttpConnection.cc\<close>): every arrival of bytes hands the whole input buffer to the
  parser; a request that is complete goes to the handler of its address, whose JSON text is wrapped into
  a response of at most 4095 bytes. The handler \<open>apiMd5\<close>, which the repository does not define, is a member
  of the record of the server's surroundings; so are the arrays that the handlers do not initialise, and
  the libraries.
\<close>

section \<open>Definitions\<close>

record ('v, 'w) http_env =
  he_libs :: "('v, 'w) libs"
  he_apiMd5 :: "string \<Rightarrow> ('w world, int \<times> string) stm"
  he_upload :: upload_bufs
  he_cmd :: string

text \<open>A connection, with what it has sent so far. The constructor reads the context of the TCP connection,
  and \<open>any_cast\<close> throws when there is none.\<close>

record tcp_conn =
  tc_connected :: bool
  tc_context :: "32 word option"

record http_conn =
  hc_uuid :: "32 word"
  hc_parser :: http_wrapper
  hc_sent :: "string list"

definition any_cast_uuid :: "32 word option \<Rightarrow> 32 word res" where
  "any_cast_uuid ctx = (case ctx of None \<Rightarrow> Inl Thrown | Some u \<Rightarrow> Inr u)"

definition HttpConnection :: "tcp_conn \<Rightarrow> http_conn res" where
  "HttpConnection conn =
     rbind (any_cast_uuid (tc_context conn)) (\<lambda>u.
       Inr \<lparr>hc_uuid = u, hc_parser = wrapper_reset, hc_sent = []\<rparr>)"

definition tcp_send :: "string \<Rightarrow> http_conn \<Rightarrow> http_conn" where
  "tcp_send msg c = c\<lparr>hc_sent := hc_sent c @ [msg]\<rparr>"

subsection \<open>Responses\<close>

definition HTTP_RESPONSE_JSON_MAX :: nat where
  "HTTP_RESPONSE_JSON_MAX = 4096"

text \<open>The head of a response; the length is an unsigned number printed with \<open>%d\<close>.\<close>

definition response_head :: "string \<Rightarrow> 32 word \<Rightarrow> string" where
  "response_head status ulen =
     ''HTTP/1.1 '' @ status @ CRLF @ ''Connection:close'' @ CRLF @
     ''Content-Length:'' @ dec_int (sint ulen) @ CRLF @
     ''Content-Type:application/json;charset=utf-8'' @ CRLF @ CRLF"

definition HTTP_RESPONSE_JSON :: "32 word \<Rightarrow> string \<Rightarrow> string" where
  "HTTP_RESPONSE_JSON ulen json = response_head ''200 OK'' ulen @ c_str json"

definition HTTP_RESPONSE_REQ :: "32 word \<Rightarrow> string \<Rightarrow> string" where
  "HTTP_RESPONSE_REQ ulen json = response_head ''404 OK'' ulen @ c_str json"

definition http_body :: "string \<Rightarrow> string" where
  "http_body resp_json =
     snprintf_str HTTP_RESPONSE_JSON_MAX (HTTP_RESPONSE_JSON (of_nat (length resp_json)) resp_json)"

definition not_found_json :: string where
  "not_found_json = ''{'' @ CHR 0x22 # ''code'' @ CHR 0x22 # '': 1}''"

definition not_found_body :: string where
  "not_found_body = snprintf_str 256 (HTTP_RESPONSE_REQ (of_nat (length not_found_json)) not_found_json)"

subsection \<open>Handlers\<close>

text \<open>The result of a handler is not used.\<close>

definition respond :: "('w world, int \<times> string) stm \<Rightarrow> http_conn \<Rightarrow> ('w world, http_conn) stm" where
  "respond api c = sbind api (\<lambda>(ret, resp_json). sret (tcp_send (http_body resp_json) c))"

definition handleRegistRequest :: "('v, 'w) http_env \<Rightarrow> string \<Rightarrow> string \<Rightarrow> http_conn \<Rightarrow> ('w world, http_conn) stm" where
  "handleRegistRequest E url post_data = respond (apiRegistUser (he_libs E) post_data)"

definition handleLoginRequest :: "('v, 'w) http_env \<Rightarrow> string \<Rightarrow> string \<Rightarrow> http_conn \<Rightarrow> ('w world, http_conn) stm" where
  "handleLoginRequest E url post_data = respond (apiUserLogin (he_libs E) post_data)"

definition handleUpLoadRequest :: "('v, 'w) http_env \<Rightarrow> string \<Rightarrow> string \<Rightarrow> http_conn \<Rightarrow> ('w world, http_conn) stm" where
  "handleUpLoadRequest E url post_data = respond (apiUpload (he_libs E) (he_upload E) post_data)"

definition handleMd5Request :: "('v, 'w) http_env \<Rightarrow> string \<Rightarrow> string \<Rightarrow> http_conn \<Rightarrow> ('w world, http_conn) stm" where
  "handleMd5Request E url post_data = respond (he_apiMd5 E post_data)"

definition handleMyFilesRequest :: "('v, 'w) http_env \<Rightarrow> string \<Rightarrow> string \<Rightarrow> http_conn \<Rightarrow> ('w world, http_conn) stm" where
  "handleMyFilesRequest E url post_data = respond (apiMyfiles (he_libs E) (he_cmd E) url post_data)"

definition handleSharePictureRequest :: "('v, 'w) http_env \<Rightarrow> string \<Rightarrow> string \<Rightarrow> http_conn \<Rightarrow> ('w world, http_conn) stm" where
  "handleSharePictureRequest E url post_data = respond (apiSharePicture (he_libs E) (he_cmd E) url post_data)"

definition handle_request :: "('v, 'w) http_env \<Rightarrow> string \<Rightarrow> string \<Rightarrow> http_conn \<Rightarrow> ('w world, http_conn) stm" where
  "handle_request E url content c =
     (case get_urlid url of
        URLID_REG \<Rightarrow> handleRegistRequest E url content c
      | URLID_LOGIN \<Rightarrow> handleLoginRequest E url content c
      | URLID_UPLOAD \<Rightarrow> handleUpLoadRequest E url content c
      | URLID_MD5 \<Rightarrow> handleMd5Request E url content c
      | URLID_MYFILES \<Rightarrow> handleMyFilesRequest E url content c
      | URLID_SHAREPICTURE \<Rightarrow> handleSharePictureRequest E url content c
      | URLID_END \<Rightarrow> sret (tcp_send not_found_body c))"

text \<open>The buffer is only looked at: nothing is retrieved from it. Its length is cut to 32 bits.\<close>

definition onRead :: "('v, 'w) http_env \<Rightarrow> string \<Rightarrow> http_conn \<Rightarrow> ('w world, http_conn) stm" where
  "onRead E buf c =
     (let len = (of_nat (length buf) :: 32 word)
      in sbind (slift (ParseHttpContent (take (unat len) buf))) (\<lambda>p.
         if read_all p then handle_request E (hw_url p) (body_content p) (c\<lparr>hc_parser := p\<rparr>)
         else sret (c\<lparr>hc_parser := p\<rparr>)))"

section \<open>Lemmas\<close>

lemma dec_int_nat: "dec_int (int n) = dec_nat n"
  by (simp add: dec_int_def)

lemma response_head_no_NUL: "NUL \<notin> set status \<Longrightarrow> NUL \<notin> set (response_head status ulen)"
proof -
  assume "NUL \<notin> set status"
  moreover have "NUL \<notin> set (dec_int i)" for i
    by (auto simp: dec_int_def NUL_notin_dec_nat)
  ultimately show ?thesis by (simp add: response_head_def)
qed

lemma sint_length_32:
  assumes "n < 2 ^ 31"
  shows "sint (of_nat n :: 32 word) = int n"
  using assms by (simp add: signed_of_nat signed_take_bit_int_eq_self)

lemma get_urlid_address: "get_urlid u = i \<Longrightarrow> i \<noteq> URLID_END \<Longrightarrow> u = url_str ! urlid_value i"
  by (auto simp: get_urlid_unfold url_str_def split: if_splits)

lemma length_dec_nat: "n < 10 ^ Suc k \<Longrightarrow> length (dec_nat n) \<le> Suc k"
proof (induction k arbitrary: n)
  case 0
  then show ?case by (simp add: dec_nat.simps)
next
  case (Suc k)
  then have "n div 10 < 10 ^ Suc k" by (simp add: less_mult_imp_div_less)
  with Suc.IH show ?case by (subst dec_nat.simps) simp
qed

lemma length_response_head: "length (response_head ''200 OK'' ulen) \<le> 120"
proof -
  have "sint ulen < 2 ^ 31" "- (2 ^ 31) \<le> sint ulen"
    using sint_range_size [of ulen] by (simp_all add: word_size)
  then have "nat (sint ulen) < 10 ^ Suc 9" "nat (- sint ulen) < 10 ^ Suc 9" by simp_all
  from this [THEN length_dec_nat]
  have "length (dec_nat (nat (sint ulen))) \<le> 10" "length (dec_nat (nat (- sint ulen))) \<le> 10"
    by simp_all
  then have "length (dec_int (sint ulen)) \<le> 11" by (simp add: dec_int_def)
  then show ?thesis by (simp add: response_head_def)
qed

text \<open>C40. A response is the head with the length of the JSON text, then that text; when both together
  are longer than 4095 bytes the text is cut there, while the announced length stays that of the whole.\<close>

theorem http_body_cut:
  assumes "NUL \<notin> set json" "length json < 2 ^ 31"
  shows "\<exists>h. http_body json = h @ take (4095 - length h) json \<and> length h \<le> 120 \<and>
    h = ''HTTP/1.1 200 OK'' @ CRLF @ ''Connection:close'' @ CRLF @ ''Content-Length:'' @
        dec_nat (length json) @ CRLF @ ''Content-Type:application/json;charset=utf-8'' @ CRLF @ CRLF"
proof (intro exI conjI)
  let ?h = "response_head ''200 OK'' (of_nat (length json))"
  have "c_str json = json" using assms(1) by (rule c_str_id)
  then show "http_body json = ?h @ take (4095 - length ?h) json"
    using length_response_head [of "of_nat (length json)"]
    by (simp add: http_body_def snprintf_str_def HTTP_RESPONSE_JSON_def HTTP_RESPONSE_JSON_MAX_def)
  show "length ?h \<le> 120" by (rule length_response_head)
  show "?h = ''HTTP/1.1 200 OK'' @ CRLF @ ''Connection:close'' @ CRLF @ ''Content-Length:'' @
        dec_nat (length json) @ CRLF @ ''Content-Type:application/json;charset=utf-8'' @ CRLF @ CRLF"
    by (simp add: response_head_def sint_length_32 [OF assms(2)] dec_int_nat)
qed

theorem http_body_cut_witness:
  "\<exists>h. http_body (replicate 5000 (CHR ''x'')) = h @ take (4095 - length h) (replicate 5000 (CHR ''x'')) \<and>
    length h \<le> 120 \<and>
    h = ''HTTP/1.1 200 OK'' @ CRLF @ ''Connection:close'' @ CRLF @ ''Content-Length:'' @
        dec_nat (length (replicate 5000 (CHR ''x''))) @ CRLF @
        ''Content-Type:application/json;charset=utf-8'' @ CRLF @ CRLF"
  by (rule http_body_cut) simp_all

lemma not_found_complete: "not_found_body = response_head ''404 OK'' 11 @ not_found_json"
proof -
  have "c_str not_found_json = not_found_json" by (rule c_str_id) (simp add: not_found_json_def)
  moreover have "length (dec_int (sint (11 :: 32 word))) = 2"
    by (simp add: dec_int_def dec_nat.simps)
  ultimately show ?thesis
    by (simp add: not_found_body_def snprintf_str_def HTTP_RESPONSE_REQ_def response_head_def not_found_json_def)
qed

lemma onRead_not_found:
  assumes "length buf < 2 ^ 32" "ParseHttpContent buf = Inr p" "read_all p" "get_urlid (hw_url p) = URLID_END"
  shows "onRead E buf c s =
    Inr (c\<lparr>hc_parser := p, hc_sent := hc_sent c @ [response_head ''404 OK'' 11 @ not_found_json]\<rparr>, s)"
  using assms by (simp add: onRead_def unat_of_nat_32 sbind_def handle_request_def tcp_send_def not_found_complete)

text \<open>A complete request with a query in its address is answered with 404, whole, and touches nothing.\<close>

theorem onRead_query_not_found:
  assumes "length buf < 2 ^ 32" "ParseHttpContent buf = Inr p" "read_all p"
    and "CHR ''?'' \<in> set (hw_url p)"
  shows "onRead E buf c s =
    Inr (c\<lparr>hc_parser := p, hc_sent := hc_sent c @ [response_head ''404 OK'' 11 @ not_found_json]\<rparr>, s)"
proof -
  have "get_urlid (hw_url p) = URLID_END"
    using assms(4) by (auto simp: get_urlid_unfold)
  then show ?thesis by (rule onRead_not_found [OF assms(1-3)])
qed

definition http_conn_example :: http_conn where
  "http_conn_example = \<lparr>hc_uuid = 0, hc_parser = wrapper_reset, hc_sent = []\<rparr>"

definition http_env_example :: "(jval, mem) http_env" where
  "http_env_example =
     \<lparr>he_libs = lib_example, he_apiMd5 = (\<lambda>_. sret (0, ''{}'')),
      he_upload = upload_bufs_zero, he_cmd = replicate 20 (CHR ''x'')\<rparr>"

lemma http_request_example:
  assumes "url_ok url" "length url \<le> 1000"
  obtains p where "ParseHttpContent (render_head HTTP_POST url headers_example @ ''{}'') = Inr p" "hw_url p = url"
    "body_content p = ''{}''" "read_all p" "length (render_head HTTP_POST url headers_example @ ''{}'') < 2 ^ 32"
proof -
  have "length (render_head HTTP_POST url headers_example @ ''{}'') < 2 ^ 32"
    using assms(2) by (simp add: render_head_def render_header_def headers_example_def)
  then show ?thesis using that ParseHttpContent_request [OF request_example [OF assms]] by blast
qed

theorem onRead_query_not_found_witness:
  "\<exists>p. onRead http_env_example (render_head HTTP_POST ''/api/myfiles?cmd=count'' headers_example @ ''{}'')
     http_conn_example world_example =
    Inr (http_conn_example\<lparr>hc_parser := p,
      hc_sent := hc_sent http_conn_example @ [response_head ''404 OK'' 11 @ not_found_json]\<rparr>, world_example)"
proof -
  have "url_ok ''/api/myfiles?cmd=count''" by (simp add: url_ok_eval)
  from http_request_example [OF this] obtain p where
    "ParseHttpContent (render_head HTTP_POST ''/api/myfiles?cmd=count'' headers_example @ ''{}'') = Inr p"
    "hw_url p = ''/api/myfiles?cmd=count''" "read_all p"
    "length (render_head HTTP_POST ''/api/myfiles?cmd=count'' headers_example @ ''{}'') < 2 ^ 32" by auto
  moreover from this have "CHR ''?'' \<in> set (hw_url p)" by simp
  ultimately show ?thesis using onRead_query_not_found by blast
qed

text \<open>The two handlers with commands look for a command in the address, which has none, and go on with what
  the array holds.\<close>

definition holds_command :: "string \<Rightarrow> string list \<Rightarrow> bool" where
  "holds_command b cmds \<longleftrightarrow> (\<exists>cmd \<in> set cmds. prefix (cmd @ [NUL]) b)"

lemma strcmp_no_command:
  assumes "length b = 20" "\<not> holds_command b cmds" "cmd \<in> set cmds" "length cmd < 20"
  shows "strcmp_eq b cmd = Inr False"
  using assms by (intro strcmp_eq_False) (auto simp: holds_command_def)

lemma no_command_in_address:
  "QueryParseKeyValue (c_str ''/api/myfiles'') ''cmd'' b = Inr (-1, b, 0)"
  "QueryParseKeyValue (c_str ''/api/sharepic'') ''cmd'' b = Inr (-1, b, 0)"
  by (simp_all add: QueryParseKeyValue_def c_str_def)

definition all_commands :: "string list" where
  "all_commands = [''count'', ''normal'', ''share'', ''browse'']"

lemma apiMyfiles_no_command:
  assumes "length b = 20" "\<not> holds_command b all_commands"
  shows "apiMyfiles L b ''/api/myfiles'' d s = Inr ((-1, encodeGetFileListFailedJson L), s)"
proof -
  have "strcmp_eq b ''count'' = Inr False" "strcmp_eq b ''normal'' = Inr False"
    by (rule strcmp_no_command [OF assms], simp_all add: all_commands_def)+
  then show ?thesis by (simp add: apiMyfiles_def sbind_def no_command_in_address [simplified])
qed

lemma apiSharePicture_no_command:
  assumes "length b = 20" "\<not> holds_command b all_commands"
  shows "apiSharePicture L b ''/api/sharepic'' d s = Inr ((0, []), s)"
proof -
  have "strcmp_eq b ''share'' = Inr False" "strcmp_eq b ''browse'' = Inr False" "strcmp_eq b ''normal'' = Inr False"
    by (rule strcmp_no_command [OF assms], simp_all add: all_commands_def)+
  then show ?thesis by (simp add: apiSharePicture_def sbind_def no_command_in_address [simplified])
qed

text \<open>C29. No client can give a command to the two handlers that have commands: an address with a query is not
  theirs, and the address without one leaves the array for the command as it was. Unless its 20
  uninitialised bytes happen to begin with one of the commands and a NUL, the file list answers that it
  failed, the shared pictures answer with an empty text, an address with a query gets 404, and none of
  them touches the state.\<close>

theorem onRead_command_uninit:
  assumes "length buf < 2 ^ 32" "ParseHttpContent buf = Inr p" "read_all p"
    and "length (he_cmd E) = 20" "\<not> holds_command (he_cmd E) all_commands"
    and "hw_url p = ''/api/myfiles'' \<or> hw_url p = ''/api/sharepic'' \<or> CHR ''?'' \<in> set (hw_url p)"
  shows "onRead E buf c s = Inr (c\<lparr>hc_parser := p, hc_sent := hc_sent c @
    [if hw_url p = ''/api/myfiles'' then http_body (encodeGetFileListFailedJson (he_libs E))
     else if hw_url p = ''/api/sharepic'' then http_body []
     else response_head ''404 OK'' 11 @ not_found_json]\<rparr>, s)"
proof (cases "get_urlid (hw_url p) = URLID_END")
  case True
  then have "hw_url p \<noteq> ''/api/myfiles''" "hw_url p \<noteq> ''/api/sharepic''" by (auto simp: get_urlid_unfold)
  then show ?thesis using onRead_not_found [OF assms(1-3) True] by simp
next
  case False
  then have "CHR ''?'' \<notin> set (hw_url p)" using get_urlid_query by blast
  then consider (files) "hw_url p = ''/api/myfiles''" | (pictures) "hw_url p = ''/api/sharepic''" using assms(6) by blast
  then show ?thesis
  proof cases
    case files
    then have "get_urlid (hw_url p) = URLID_MYFILES" by (simp add: get_urlid_unfold)
    then have "handle_request E (hw_url p) d b s = Inr (tcp_send (http_body (encodeGetFileListFailedJson (he_libs E))) b, s)" for d b
      by (simp add: handle_request_def handleMyFilesRequest_def respond_def sbind_def files
          apiMyfiles_no_command [OF assms(4,5), simplified])
    then show ?thesis using assms(1-3) files by (simp add: onRead_def unat_of_nat_32 sbind_def tcp_send_def)
  next
    case pictures
    then have "get_urlid (hw_url p) = URLID_SHAREPICTURE" by (simp add: get_urlid_unfold)
    then have "handle_request E (hw_url p) d b s = Inr (tcp_send (http_body []) b, s)" for d b
      by (simp add: handle_request_def handleSharePictureRequest_def respond_def sbind_def pictures
          apiSharePicture_no_command [OF assms(4,5), simplified])
    then show ?thesis using assms(1-3) pictures by (simp add: onRead_def unat_of_nat_32 sbind_def tcp_send_def)
  qed
qed

theorem onRead_command_uninit_witness:
  "\<exists>p. onRead http_env_example (render_head HTTP_POST ''/api/myfiles'' headers_example @ ''{}'')
     http_conn_example world_example =
    Inr (http_conn_example\<lparr>hc_parser := p, hc_sent := hc_sent http_conn_example @
      [http_body (encodeGetFileListFailedJson lib_example)]\<rparr>, world_example)"
proof -
  have "url_ok ''/api/myfiles''" by (simp add: url_ok_eval)
  from http_request_example [OF this] obtain p where p:
    "ParseHttpContent (render_head HTTP_POST ''/api/myfiles'' headers_example @ ''{}'') = Inr p"
    "hw_url p = ''/api/myfiles''" "read_all p"
    "length (render_head HTTP_POST ''/api/myfiles'' headers_example @ ''{}'') < 2 ^ 32" by auto
  have "length (he_cmd http_env_example) = 20" "\<not> holds_command (he_cmd http_env_example) all_commands"
    by (simp_all add: http_env_example_def holds_command_def all_commands_def numeral_eq_Suc)
  from onRead_command_uninit [OF p(4,1,3) this, of http_conn_example world_example] p(2) show ?thesis
    by (auto simp: http_env_example_def)
qed

lemma onRead_request:
  assumes "request_ok m url hs body" "length (render_head m url hs @ body) < 2 ^ 32"
  shows "\<exists>p. hw_url p = url \<and> body_content p = body \<and>
    onRead E (render_head m url hs @ body) c s = handle_request E url body (c\<lparr>hc_parser := p\<rparr>) s"
proof -
  obtain p where p: "ParseHttpContent (render_head m url hs @ body) = Inr p" "hw_url p = url" "body_content p = body"
      "read_all p"
    using ParseHttpContent_request [OF assms(1)] by blast
  then have "onRead E (render_head m url hs @ body) c s = handle_request E url body (c\<lparr>hc_parser := p\<rparr>) s"
    using assms(2) by (simp only: onRead_def Let_def unat_of_nat_32 take_all order_refl sbind_def slift_Inr rbind_Inr
        prod.case if_True)
  then show ?thesis using p by blast
qed

text \<open>C4. A complete request of a client reaches the handler of its address with its body, and the answer on
  the connection is the response with the text of that handler; any other address is answered with 404.
  The requests are those of every method but M-SEARCH and CONNECT, with headers other than
  Transfer-Encoding and Upgrade, and a Content-Length when there is a body.\<close>

theorem onRead_serves_request:
  assumes "request_ok m url hs body" "length (render_head m url hs @ body) < 2 ^ 32"
  shows "\<exists>p. hw_url p = url \<and> body_content p = body \<and>
    onRead E (render_head m url hs @ body) c s =
      (if url = ''/api/reg'' then respond (apiRegistUser (he_libs E) body) (c\<lparr>hc_parser := p\<rparr>) s
       else if url = ''/api/login'' then respond (apiUserLogin (he_libs E) body) (c\<lparr>hc_parser := p\<rparr>) s
       else if url = ''/api/upload'' then respond (apiUpload (he_libs E) (he_upload E) body) (c\<lparr>hc_parser := p\<rparr>) s
       else if url = ''/api/md5'' then respond (he_apiMd5 E body) (c\<lparr>hc_parser := p\<rparr>) s
       else if url = ''/api/myfiles'' then respond (apiMyfiles (he_libs E) (he_cmd E) url body) (c\<lparr>hc_parser := p\<rparr>) s
       else if url = ''/api/sharepic'' then respond (apiSharePicture (he_libs E) (he_cmd E) url body) (c\<lparr>hc_parser := p\<rparr>) s
       else Inr (c\<lparr>hc_parser := p, hc_sent := hc_sent c @ [response_head ''404 OK'' 11 @ not_found_json]\<rparr>, s))"
proof -
  obtain p where p: "hw_url p = url" "body_content p = body"
    "onRead E (render_head m url hs @ body) c s = handle_request E url body (c\<lparr>hc_parser := p\<rparr>) s"
    using onRead_request [OF assms] by blast
  have "handle_request E url body b s =
      (if url = ''/api/reg'' then respond (apiRegistUser (he_libs E) body) b s
       else if url = ''/api/login'' then respond (apiUserLogin (he_libs E) body) b s
       else if url = ''/api/upload'' then respond (apiUpload (he_libs E) (he_upload E) body) b s
       else if url = ''/api/md5'' then respond (he_apiMd5 E body) b s
       else if url = ''/api/myfiles'' then respond (apiMyfiles (he_libs E) (he_cmd E) url body) b s
       else if url = ''/api/sharepic'' then respond (apiSharePicture (he_libs E) (he_cmd E) url body) b s
       else Inr (b\<lparr>hc_sent := hc_sent b @ [response_head ''404 OK'' 11 @ not_found_json]\<rparr>, s))" for b
    by (simp add: handle_request_def get_urlid_unfold handleRegistRequest_def handleLoginRequest_def
        handleUpLoadRequest_def handleMd5Request_def handleMyFilesRequest_def handleSharePictureRequest_def
        tcp_send_def not_found_complete)
  then show ?thesis using p by (intro exI [of _ p]) simp
qed

theorem onRead_serves_request_witness:
  "\<exists>p. hw_url p = ''/api/reg'' \<and> body_content p = ''{}'' \<and>
    onRead http_env_example (render_head HTTP_POST ''/api/reg'' headers_example @ ''{}'') http_conn_example world_example =
      respond (apiRegistUser lib_example ''{}'') (http_conn_example\<lparr>hc_parser := p\<rparr>) world_example"
proof -
  have "length (render_head HTTP_POST ''/api/reg'' headers_example @ ''{}'') < 2 ^ 32"
    by (simp add: render_head_def render_header_def headers_example_def)
  from onRead_serves_request [OF request_example_ok this, of http_env_example http_conn_example world_example]
  show ?thesis by (simp add: http_env_example_def)
qed

text \<open>The addresses of the table: none is the begin of another.\<close>

lemma url_str_longer: "u \<in> set url_str \<Longrightarrow> v \<noteq> [] \<Longrightarrow> get_urlid (u @ v) = URLID_END"
  by (auto simp: url_str_def get_urlid_unfold)

text \<open>Nothing is taken out of the buffer of a connection, so the next request of a client on the same
  connection is read together with the one before, their addresses become one, and the answer is 404
  whatever the second request asks for.\<close>

theorem onRead_next_request_not_found:
  assumes "pipelined [r1, r2]" "request_url r1 \<in> set url_str" "length (render_requests [r1, r2]) < 2 ^ 32"
  shows "\<exists>p. onRead E (render_request r1 @ render_request r2) c s =
    Inr (c\<lparr>hc_parser := p, hc_sent := hc_sent c @ [response_head ''404 OK'' 11 @ not_found_json]\<rparr>, s)"
proof -
  obtain p where p: "ParseHttpContent (render_requests [r1, r2]) = Inr p" "hw_url p = request_url r1 @ request_url r2"
      "read_all p"
    using ParseHttpContent_requests [OF assms(1)] by auto
  have "request_url r2 \<noteq> []"
    using assms(1) by (cases r2) (auto simp: request_ok_def url_ok_def url_end_states_def)
  then have "get_urlid (hw_url p) = URLID_END" using url_str_longer assms(2) p(2) by simp
  from onRead_not_found [OF assms(3) p(1,3) this] show ?thesis by auto
qed

theorem onRead_next_request_not_found_witness:
  "\<exists>p. onRead http_env_example
      (''POST /api/reg HTTP/1.1'' @ CRLF @ ''Host: h'' @ CRLF @ ''Content-Length: 2'' @ CRLF @ CRLF @ ''{}'' @
       ''GET / HTTP/1.1'' @ CRLF @ CRLF) http_conn_example world_example =
    Inr (http_conn_example\<lparr>hc_parser := p,
      hc_sent := hc_sent http_conn_example @ [response_head ''404 OK'' 11 @ not_found_json]\<rparr>, world_example)"
proof -
  let ?r = "(HTTP_POST, ''/api/reg'', headers_example, ''{}'')" and ?r' = "(HTTP_GET, ''/'', [] :: header list, [] :: string)"
  have data: "render_request ?r @ render_request ?r' =
      ''POST /api/reg HTTP/1.1'' @ CRLF @ ''Host: h'' @ CRLF @ ''Content-Length: 2'' @ CRLF @ CRLF @ ''{}'' @
      ''GET / HTTP/1.1'' @ CRLF @ CRLF"
    by (simp add: render_head_def render_header_def headers_example_def)
  have "length (render_requests [?r, ?r']) < 2 ^ 32" using arg_cong [OF data, of length] by simp
  moreover have "pipelined [?r, ?r']" using two_requests_pipelined by (simp add: two_requests_def)
  moreover have "request_url ?r \<in> set url_str" by (simp add: url_str_def)
  ultimately show ?thesis
    using onRead_next_request_not_found [of ?r ?r' http_env_example http_conn_example world_example] unfolding data by blast
qed

subsection \<open>Taking and giving back\<close>

lemma respond_steady [steady_intros]: "steady good cap api \<Longrightarrow> steady good cap (respond api c)"
  unfolding respond_def by (intro steady_intros)

lemma handle_request_db_steady:
  assumes "get_urlid url \<noteq> URLID_MD5" "get_urlid url \<noteq> URLID_MYFILES"
  shows "db_steady (handle_request E url content c)"
  using assms
  by (cases "get_urlid url")
    (auto simp: handle_request_def handleRegistRequest_def handleLoginRequest_def handleUpLoadRequest_def
      handleSharePictureRequest_def
      intro!: steady_intros apiRegistUser_steady apiUserLogin_steady apiSharePicture_steady)

lemma handle_request_cache_steady:
  assumes "get_urlid url \<noteq> URLID_MD5"
  shows "cache_steady (handle_request E url content c)"
  using assms
  by (cases "get_urlid url")
    (auto simp: handle_request_def handleRegistRequest_def handleLoginRequest_def handleUpLoadRequest_def
      handleMyFilesRequest_def handleSharePictureRequest_def
      intro!: steady_intros apiRegistUser_steady apiUserLogin_steady apiSharePicture_steady apiMyfiles_cache_steady)

lemma respond_loses: "framed db_loses api \<Longrightarrow> framed db_loses (respond api c)"
  unfolding respond_def by (intro frame_intros)

lemma handle_request_loses:
  assumes "get_urlid url \<noteq> URLID_MD5"
  shows "framed db_loses (handle_request E url content c)"
proof (cases "get_urlid url = URLID_MYFILES")
  case True
  then show ?thesis by (simp add: handle_request_def handleMyFilesRequest_def respond_loses apiMyfiles_loses)
qed (rule db_loses_steady [OF handle_request_db_steady [where c = c, OF assms]])

text \<open>The bytes are a complete request for the handler that is not in the repository.\<close>

definition md5_message :: "string \<Rightarrow> bool" where
  "md5_message buf =
     (case ParseHttpContent (take (unat (of_nat (length buf) :: 32 word)) buf) of
        Inl _ \<Rightarrow> False
      | Inr p \<Rightarrow> read_all p \<and> hw_url p = ''/api/md5'')"

lemma onRead_keeps:
  assumes "onRead E buf c s = Inr (c', s')" "\<not> md5_message buf"
  shows "db_loses s s'" "cache_good s \<Longrightarrow> cache_good s' \<and> cache_capacity s' = cache_capacity s"
proof -
  obtain p where p: "ParseHttpContent (take (unat (of_nat (length buf) :: 32 word)) buf) = Inr p"
    and run: "(if read_all p then handle_request E (hw_url p) (body_content p) (c\<lparr>hc_parser := p\<rparr>)
       else sret (c\<lparr>hc_parser := p\<rparr>)) s = Inr (c', s')"
    using assms(1) by (auto simp: onRead_def Let_def sbind_eq_Inr_iff slift_def elim!: rbind_InrE)
  have "db_loses s s' \<and> (cache_good s \<longrightarrow> cache_good s' \<and> cache_capacity s' = cache_capacity s)"
  proof (cases "read_all p")
    case True
    then have md5: "get_urlid (hw_url p) \<noteq> URLID_MD5"
      using assms(2) p by (auto simp: md5_message_def get_urlid_unfold split: if_splits)
    from run True have h: "handle_request E (hw_url p) (body_content p) (c\<lparr>hc_parser := p\<rparr>) s = Inr (c', s')" by simp
    from framedD [OF handle_request_loses [OF md5] h] steadyD [OF handle_request_cache_steady [OF md5] h]
    show ?thesis by blast
  qed (use run reflpD [OF db_loses_order(1)] in \<open>auto simp: sret_def\<close>)
  then show "db_loses s s'" "cache_good s \<Longrightarrow> cache_good s' \<and> cache_capacity s' = cache_capacity s" by blast+
qed

lemma onRead_uuid:
  assumes "onRead E buf c s = Inr (c', s')"
  shows "hc_uuid c' = hc_uuid c"
  using assms
  by (auto simp: onRead_def Let_def sbind_eq_Inr_iff handle_request_def handleRegistRequest_def handleLoginRequest_def
      handleUpLoadRequest_def handleMd5Request_def handleMyFilesRequest_def handleSharePictureRequest_def respond_def
      tcp_send_def sret_def split: if_splits urlid.splits)

text \<open>C6. A request for any address but that of the md5 handler, which is not in the repository, leaves both
  managers consistent, and every pool able to hand out what it could before; except that a request for
  the list of files may leave the pool of the read-only database able to hand out less.\<close>

theorem requests_give_back_connections:
  assumes "handle_request E url content c s = Inr (c', s')" "db_good s" "cache_good s" "url \<noteq> ''/api/md5''"
  shows "db_good s' \<and> cache_good s' \<and> cache_capacity s' = cache_capacity s \<and>
    (\<forall>n k. db_capacity s n = Some k \<longrightarrow> (\<exists>k'. db_capacity s' n = Some k' \<and>
       (if n = ''image_host_slave'' \<and> url = ''/api/myfiles'' then k' \<le> k else k' = k)))"
proof -
  have md5: "get_urlid url \<noteq> URLID_MD5" using assms(4) by (simp add: get_urlid_unfold)
  have keep: "db_good s' \<and> cache_good s' \<and> cache_capacity s' = cache_capacity s"
    using steadyD [OF handle_request_cache_steady [OF md5] assms(1,3)]
      framedD [OF handle_request_loses [OF md5] assms(1)] assms(2) by (simp add: db_loses_def)
  show ?thesis
  proof (cases "url = ''/api/myfiles''")
    case True
    then show ?thesis
      using keep db_losesD [OF framedD [OF handle_request_loses [OF md5] assms(1)] assms(2)] by auto
  next
    case False
    then have "get_urlid url \<noteq> URLID_MYFILES" by (simp add: get_urlid_unfold)
    from steadyD [OF handle_request_db_steady [OF md5 this] assms(1,2)] keep False show ?thesis by simp
  qed
qed

text \<open>The example is a login that takes a connection from either manager.\<close>

theorem requests_give_back_connections_witness:
  "\<exists>c' s'. handle_request (http_env_example\<lparr>he_libs := login_lib ''guess''\<rparr>) ''/api/login'' ''{}'' http_conn_example
       world_example = Inr (c', s') \<and>
     db_good s' \<and> cache_good s' \<and> db_capacity s' ''image_host_slave'' = Some 2 \<and> cache_capacity s' ''token'' = Some 2"
proof -
  let ?E = "http_env_example\<lparr>he_libs := login_lib ''guess''\<rparr>"
  obtain t s1 where "apiUserLogin (login_lib ''guess'') ''{}'' world_example =
      Inr ((-1, encodeLoginJson (login_lib ''guess'') 0 t), s1)"
    using login_answers_example by blast
  then have "\<exists>c'. handle_request ?E ''/api/login'' ''{}'' http_conn_example world_example = Inr (c', s1)"
    by (simp add: handle_request_def get_urlid_unfold handleLoginRequest_def respond_def sbind_run)
  then obtain c' where run: "handle_request ?E ''/api/login'' ''{}'' http_conn_example world_example = Inr (c', s1)" ..
  have cap: "cache_capacity world_example ''token'' = Some 2" "db_capacity world_example ''image_host_slave'' = Some 2"
    by (simp_all add: cache_capacity_def db_capacity_def world_example_def cp_capacity_def cache_pool_example_def CachePool_def
        MIN_CACHE_CONN_CNT_def capacity_def db_pool_example_def DBPool_def MIN_DB_CONN_CNT_def)
  from requests_give_back_connections [OF run world_example_good] run cap show ?thesis by auto
qed

end
