(* ===== verification/HttpServer.thy ===== *)
theory HttpServer
  imports HttpConn
begin

text \<open>
  The server (\<^verbatim>\<open>src/HttpServer.cc\<close>) and the start of the program (\<^verbatim>\<open>src/main.cc\<close>). The callbacks are
  modelled one after the other, although the library runs them in four threads; the events of a server
  are a step relation on the server, the TCP connections it was told about, and the shared state.
\<close>

section \<open>Definitions\<close>

text \<open>The map from identifiers to connections; an entry can hold a null pointer.\<close>

record http_server =
  sm_httpMap :: "(32 word, http_conn option) omap"
  conn_uuid_generator :: "32 word"

definition HttpServer :: http_server where
  "HttpServer = \<lparr>sm_httpMap = om_empty, conn_uuid_generator = 0\<rparr>"

definition onConnection :: "http_server \<Rightarrow> tcp_conn \<Rightarrow> (http_server \<times> tcp_conn) res" where
  "onConnection srv conn =
     (if tc_connected conn then
        (let uuid = conn_uuid_generator srv; conn = conn\<lparr>tc_context := Some uuid\<rparr>
         in rbind (HttpConnection conn) (\<lambda>h.
              Inr (srv\<lparr>conn_uuid_generator := uuid + 1, sm_httpMap := om_assign uuid (Some h) (sm_httpMap srv)\<rparr>,
                   conn)))
      else Inr (srv, conn))"

text \<open>\<open>operator[]\<close> finds an entry or makes one with a null pointer.\<close>

definition http_conn_at :: "32 word \<Rightarrow> http_server \<Rightarrow> http_conn res" where
  "http_conn_at uuid srv =
     (case om_find (sm_httpMap srv) uuid of Some (Some h) \<Rightarrow> Inr h | _ \<Rightarrow> Inl NullDeref)"

definition onMessage ::
  "('v, 'w) http_env \<Rightarrow> tcp_conn \<Rightarrow> string \<Rightarrow> http_server \<Rightarrow> ('w world, http_server) stm" where
  "onMessage E conn buf srv =
     sbind (slift (any_cast_uuid (tc_context conn))) (\<lambda>uuid.
     sbind (slift (http_conn_at uuid srv)) (\<lambda>h.
     sbind (onRead E buf h) (\<lambda>h.
       sret (srv\<lparr>sm_httpMap := om_assign uuid (Some h) (sm_httpMap srv)\<rparr>))))"

text \<open>What the TCP server does with the callbacks: it announces a new connection, the bytes that came on
  one, and its end. The input buffer of a connection keeps what nobody retrieves.\<close>

type_synonym 'w server_state = "http_server \<times> (tcp_conn \<times> string) list \<times> 'w world"

inductive server_step :: "('v, 'w) http_env \<Rightarrow> 'w server_state \<Rightarrow> 'w server_state \<Rightarrow> bool"
  for E :: "('v, 'w) http_env" where
  server_connect:
    "onConnection srv \<lparr>tc_connected = True, tc_context = None\<rparr> = Inr (srv', conn) \<Longrightarrow>
     server_step E (srv, conns, s) (srv', conns @ [(conn, [])], s)"
| server_message:
    "i < length conns \<Longrightarrow> conns ! i = (conn, buf) \<Longrightarrow> tc_connected conn \<Longrightarrow>
     onMessage E conn (buf @ bytes) srv s = Inr (srv', s') \<Longrightarrow>
     server_step E (srv, conns, s) (srv', conns[i := (conn, buf @ bytes)], s')"
| server_disconnect:
    "i < length conns \<Longrightarrow> conns ! i = (conn, buf) \<Longrightarrow> tc_connected conn \<Longrightarrow>
     onConnection srv (conn\<lparr>tc_connected := False\<rparr>) = Inr (srv', conn') \<Longrightarrow>
     server_step E (srv, conns, s) (srv', conns[i := (conn', buf)], s)"

inductive server_runs :: "('v, 'w) http_env \<Rightarrow> 'w world \<Rightarrow> 'w server_state \<Rightarrow> bool"
  for E :: "('v, 'w) http_env" and s0 :: "'w world" where
  runs_start: "server_runs E s0 (HttpServer, [], s0)"
| runs_step: "server_runs E s0 st \<Longrightarrow> server_step E st st' \<Longrightarrow> server_runs E s0 st'"

inductive_cases server_stepE: "server_step E (srv, conns, s) st'"

subsection \<open>The start\<close>

text \<open>A string made from a null pointer throws.\<close>

definition std_string :: "string option \<Rightarrow> string res" where
  "std_string p = (case p of None \<Rightarrow> Inl Thrown | Some s \<Rightarrow> Inr (c_str s))"

definition setConfPath :: "string \<Rightarrow> ('w world, unit) stm" where
  "setConfPath path = smod (\<lambda>s. s\<lparr>w_db_conf := path\<rparr>)"

definition SetConfPath :: "string \<Rightarrow> ('w world, unit) stm" where
  "SetConfPath path = smod (\<lambda>s. s\<lparr>w_cache_conf := path\<rparr>)"

text \<open>The managers, from the configuration file at the path: -1 when one cannot be made, else 0.\<close>

definition start_managers :: "('v, 'w) libs \<Rightarrow> string \<Rightarrow> ('w world, int) stm" where
  "start_managers L config_path =
     sbind (setConfPath config_path) (\<lambda>_.
     sbind (db_getInstance L) (\<lambda>_.
     sbind (sget w_db) (\<lambda>db_manager.
     if db_manager = None then sret (-1)
     else
       sbind (SetConfPath config_path) (\<lambda>_.
       sbind (cache_getInstance L) (\<lambda>_.
       sbind (sget w_cache) (\<lambda>cache_manager.
       sret (if cache_manager = None then -1 else 0)))))))"

text \<open>\<open>main\<close> up to the start of the server: the result -1, or 0 when the server runs.\<close>

definition main_start :: "('v, 'w) libs \<Rightarrow> string option \<Rightarrow> ('w world, int) stm" where
  "main_start L arg =
     (let config_path = (case arg of Some a \<Rightarrow> a | None \<Rightarrow> ''image_host.config'') in
      sbind (sget w_fs) (\<lambda>fs.
      sbind (slift (CConfigFileReader fs config_path)) (\<lambda>config_file.
      sbind (slift (GetConfigName config_file ''dfs_path_client'')) (\<lambda>dfs_path_client.
      sbind (slift (GetConfigName config_file ''storage_web_server_ip'')) (\<lambda>storage_web_server_ip.
      sbind (slift (GetConfigName config_file ''storage_web_server_port'')) (\<lambda>storage_web_server_port.
      sbind (slift (std_string dfs_path_client)) (\<lambda>dfs.
      sbind (slift (std_string storage_web_server_ip)) (\<lambda>ip.
      sbind (slift (std_string storage_web_server_port)) (\<lambda>port.
      sbind (apiUploadInit dfs ip) (\<lambda>_.
      start_managers L config_path))))))))))"

section \<open>Lemmas\<close>

subsection \<open>Every connection has its entry\<close>

definition server_ok :: "'w server_state \<Rightarrow> bool" where
  "server_ok st = (case st of (srv, conns, s) \<Rightarrow>
     om_ok (sm_httpMap srv) \<and> conn_uuid_generator srv = of_nat (length conns) \<and>
     (\<forall>i < length conns. tc_context (fst (conns ! i)) = Some (of_nat i)) \<and>
     (\<forall>u. (\<exists>h. om_find (sm_httpMap srv) u = Some (Some h)) \<longleftrightarrow> (\<exists>i < length conns. u = of_nat i)) \<and>
     (\<forall>u h. om_find (sm_httpMap srv) u = Some (Some h) \<longrightarrow> hc_uuid h = u) \<and>
     (\<forall>u. om_find (sm_httpMap srv) u \<noteq> Some None))"

lemma server_okD:
  assumes "server_ok (srv, conns, s)"
  shows "om_ok (sm_httpMap srv)" "conn_uuid_generator srv = of_nat (length conns)"
    "i < length conns \<Longrightarrow> tc_context (fst (conns ! i)) = Some (of_nat i)"
    "(\<exists>h. om_find (sm_httpMap srv) u = Some (Some h)) \<longleftrightarrow> (\<exists>i < length conns. u = of_nat i)"
    "om_find (sm_httpMap srv) u = Some (Some h) \<Longrightarrow> hc_uuid h = u"
    "om_find (sm_httpMap srv) u \<noteq> Some None"
  using assms by (simp_all add: server_ok_def)

lemma server_ok_map:
  assumes "server_ok (srv, conns, s)" "hc_uuid h0 = v"
  shows "om_ok (om_assign v (Some h0) (sm_httpMap srv))"
    and "(\<exists>h. om_find (om_assign v (Some h0) (sm_httpMap srv)) u = Some (Some h)) \<longleftrightarrow>
      (\<exists>i < length conns. u = of_nat i) \<or> u = v"
    and "om_find (om_assign v (Some h0) (sm_httpMap srv)) u = Some (Some h) \<Longrightarrow> hc_uuid h = u"
    and "om_find (om_assign v (Some h0) (sm_httpMap srv)) u \<noteq> Some None"
  using server_okD [OF assms(1)] assms(2) omap.wf_assign
  by (auto simp: omap.lookup_assign simp del: not_None_eq split: if_splits)

text \<open>A message is read by the object of its connection, and changes no other.\<close>

lemma onMessage_entry:
  assumes "onMessage E conn buf srv s = Inr (srv', s')" "tc_context conn = Some u"
  obtains h h' where "om_find (sm_httpMap srv) u = Some (Some h)" "onRead E buf h s = Inr (h', s')"
    "srv' = srv\<lparr>sm_httpMap := om_assign u (Some h') (sm_httpMap srv)\<rparr>" "hc_uuid h' = hc_uuid h"
proof -
  obtain h h' where run: "om_find (sm_httpMap srv) u = Some (Some h)" "onRead E buf h s = Inr (h', s')"
      "srv' = srv\<lparr>sm_httpMap := om_assign u (Some h') (sm_httpMap srv)\<rparr>"
    using assms
    by (auto simp: onMessage_def any_cast_uuid_def http_conn_at_def sbind_eq_Inr_iff slift_def sret_def elim!: rbind_InrE
        split: option.split_asm)
  then show thesis using that onRead_uuid [OF run(2)] by blast
qed

lemma onConnection_new:
  assumes "onConnection srv \<lparr>tc_connected = True, tc_context = None\<rparr> = Inr (srv', conn)"
  obtains h where "hc_uuid h = conn_uuid_generator srv" "tc_context conn = Some (conn_uuid_generator srv)"
    "srv' = srv\<lparr>conn_uuid_generator := conn_uuid_generator srv + 1,
        sm_httpMap := om_assign (conn_uuid_generator srv) (Some h) (sm_httpMap srv)\<rparr>"
proof (rule that)
  let ?h = "\<lparr>hc_uuid = conn_uuid_generator srv, hc_parser = wrapper_reset, hc_sent = []\<rparr>"
  show "hc_uuid ?h = conn_uuid_generator srv" by simp
  show "tc_context conn = Some (conn_uuid_generator srv)"
    "srv' = srv\<lparr>conn_uuid_generator := conn_uuid_generator srv + 1,
        sm_httpMap := om_assign (conn_uuid_generator srv) (Some ?h) (sm_httpMap srv)\<rparr>"
    using assms by (auto simp: onConnection_def HttpConnection_def any_cast_uuid_def Let_def)
qed

lemma server_step_ok:
  assumes "server_step E st st'" "server_ok st"
  shows "server_ok st'"
  using assms
proof cases
  case (server_connect srv srv' conn conns s)
  note old = assms(2) [unfolded server_connect(1)]
  obtain h where new: "hc_uuid h = of_nat (length conns)" "tc_context conn = Some (of_nat (length conns))"
      "srv' = srv\<lparr>conn_uuid_generator := of_nat (length conns) + 1,
        sm_httpMap := om_assign (of_nat (length conns)) (Some h) (sm_httpMap srv)\<rparr>"
    using onConnection_new [OF server_connect(3)] server_okD(2) [OF old] by metis
  have "(\<exists>i < Suc (length conns). u = of_nat i) \<longleftrightarrow> (\<exists>i < length conns. u = of_nat i) \<or> u = of_nat (length conns)"
    for u :: "32 word" by (auto simp: less_Suc_eq)
  then show ?thesis
    using server_ok_map [OF old new(1)] server_okD(3) [OF old]
    by (simp add: server_ok_def server_connect(2) new nth_append less_Suc_eq add.commute)
next
  case (server_message i conns conn buf bytes srv s srv' s')
  note old = assms(2) [unfolded server_message(1)]
  have ctx: "tc_context conn = Some (of_nat i)"
    using server_okD(3) [OF old server_message(3)] server_message(4) by simp
  obtain h h' where h: "om_find (sm_httpMap srv) (of_nat i) = Some (Some h)"
      "srv' = srv\<lparr>sm_httpMap := om_assign (of_nat i) (Some h') (sm_httpMap srv)\<rparr>" "hc_uuid h' = hc_uuid h"
    using onMessage_entry [OF server_message(6) ctx] by metis
  then have uuid: "hc_uuid h' = of_nat i" using server_okD(5) [OF old] by simp
  have "(\<exists>i < length conns. u = of_nat i) \<or> u = of_nat i \<longleftrightarrow> (\<exists>i < length conns. u = of_nat i)" for u :: "32 word"
    using server_message(3) by blast
  moreover have "tc_context (fst (conns[i := (conn, buf @ bytes)] ! j)) = Some (of_nat j)"
    if "j < length conns" for j
    using server_okD(3) [OF old that] ctx that by (cases "j = i") simp_all
  ultimately show ?thesis
    using server_ok_map [OF old uuid] server_okD(2) [OF old]
    by (simp add: server_ok_def server_message(2) h(2))
next
  case (server_disconnect i conns conn buf srv srv' conn' s)
  then have "srv' = srv" "tc_context conn' = tc_context conn"
    by (auto simp: onConnection_def)
  then show ?thesis
    using assms(2) server_disconnect(3,4)
    by (auto simp: server_ok_def server_disconnect(1,2) nth_list_update)
qed

lemma server_runs_ok: "server_runs E s0 st \<Longrightarrow> server_ok st"
proof (induction rule: server_runs.induct)
  case runs_start
  then show ?case by (simp add: server_ok_def HttpServer_def om_ok_empty om_find_empty)
next
  case (runs_step st st')
  then show ?case using server_step_ok by blast
qed

text \<open>The object of a connection.\<close>

lemma server_entry:
  assumes "server_runs E s0 (srv, conns, s)" "i < length conns"
  obtains h where "tc_context (fst (conns ! i)) = Some (of_nat i)"
    "om_find (sm_httpMap srv) (of_nat i) = Some (Some h)" "hc_uuid h = of_nat i" "http_conn_at (of_nat i) srv = Inr h"
proof -
  note ok = server_okD [OF server_runs_ok [OF assms(1)]]
  have "\<exists>h. om_find (sm_httpMap srv) (of_nat i) = Some (Some h)"
    by (rule iffD2 [OF ok(4)]) (intro exI conjI, rule assms(2), rule refl)
  then obtain h where "om_find (sm_httpMap srv) (of_nat i) = Some (Some h)" by (rule exE)
  then show thesis using that ok(3) [OF assms(2)] ok(5) by (simp add: http_conn_at_def)
qed

text \<open>The identifiers of the first connections are different numbers.\<close>

lemma card_identifiers: "n \<le> 2 ^ 32 \<Longrightarrow> card ((of_nat :: nat \<Rightarrow> 32 word) ` {..<n}) = n"
proof (subst card_image)
  assume small: "n \<le> 2 ^ 32"
  show "inj_on (of_nat :: nat \<Rightarrow> 32 word) {..<n}"
  proof (rule inj_onI)
    fix x y assume xy: "x \<in> {..<n}" "y \<in> {..<n}" "(of_nat x :: 32 word) = of_nat y"
    then have "x < 2 ^ 32" "y < 2 ^ 32" using small by auto
    then show "x = y" using xy(3) by (metis unat_of_nat_32)
  qed
qed simp

lemma server_map_size:
  assumes "server_runs E s0 (srv, conns, s)" "length conns \<le> 2 ^ 32"
  shows "length (sm_httpMap srv) = length conns"
proof -
  note ok = server_okD(1,4,6) [OF server_runs_ok [OF assms(1)]]
  have "distinct (map fst (sm_httpMap srv))"
    using ok(1) by (simp add: om_ok_def strict_sorted_iff)
  then have "length (sm_httpMap srv) = card (dom (map_of (sm_httpMap srv)))"
    using distinct_card [of "map fst (sm_httpMap srv)"] by (simp add: dom_map_of_conv_image_fst)
  also have "dom (map_of (sm_httpMap srv)) = of_nat ` {..<length conns}"
  proof (rule set_eqI)
    fix u
    have "u \<in> dom (map_of (sm_httpMap srv)) \<longleftrightarrow> (\<exists>h. om_find (sm_httpMap srv) u = Some (Some h))"
      using ok(3) [of u] by (cases "om_find (sm_httpMap srv) u") (auto simp: om_find_def dom_def)
    also have "\<dots> \<longleftrightarrow> u \<in> of_nat ` {..<length conns}" unfolding ok(2) by blast
    finally show "u \<in> dom (map_of (sm_httpMap srv)) \<longleftrightarrow> u \<in> of_nat ` {..<length conns}" .
  qed
  also note card_identifiers [OF assms(2)]
  finally show ?thesis .
qed

text \<open>C12. In every run of the server each of its connections is known by its number, modulo 2 to the power
  32, and the map holds the object made with that number; a message on a connection is read by that object
  and changes no other entry; and no object ever goes away: while there were at most 2 to the power 32
  connections, there is one for each of them, the closed ones included.\<close>

theorem server_entries:
  assumes "server_runs E s0 (srv, conns, s)"
  shows "(\<forall>i < length conns. tc_context (fst (conns ! i)) = Some (of_nat i) \<and>
      (\<exists>h. om_find (sm_httpMap srv) (of_nat i) = Some (Some h) \<and> hc_uuid h = of_nat i)) \<and>
    (\<forall>i buf srv' s'. i < length conns \<and> onMessage E (fst (conns ! i)) buf srv s = Inr (srv', s') \<longrightarrow>
      (\<exists>h h'. om_find (sm_httpMap srv) (of_nat i) = Some (Some h) \<and> onRead E buf h s = Inr (h', s') \<and>
        om_find (sm_httpMap srv') (of_nat i) = Some (Some h')) \<and>
      (\<forall>u. u \<noteq> of_nat i \<longrightarrow> om_find (sm_httpMap srv') u = om_find (sm_httpMap srv) u)) \<and>
    (length conns \<le> 2 ^ 32 \<longrightarrow> length (sm_httpMap srv) = length conns)"
proof (intro conjI allI impI)
  fix i assume "i < length conns"
  then show "tc_context (fst (conns ! i)) = Some (of_nat i)"
    "\<exists>h. om_find (sm_httpMap srv) (of_nat i) = Some (Some h) \<and> hc_uuid h = of_nat i"
    using server_entry [OF assms] by metis+
next
  fix i buf srv' s'
  assume msg: "i < length conns \<and> onMessage E (fst (conns ! i)) buf srv s = Inr (srv', s')"
  then have ctx: "tc_context (fst (conns ! i)) = Some (of_nat i)"
    using server_okD(3) [OF server_runs_ok [OF assms]] by blast
  note ok = server_okD(1) [OF server_runs_ok [OF assms]]
  obtain h h' where "om_find (sm_httpMap srv) (of_nat i) = Some (Some h)" "onRead E buf h s = Inr (h', s')"
      "srv' = srv\<lparr>sm_httpMap := om_assign (of_nat i) (Some h') (sm_httpMap srv)\<rparr>"
    using onMessage_entry [OF conjunct2 [OF msg] ctx] by metis
  note run = this
  then show "\<exists>h h'. om_find (sm_httpMap srv) (of_nat i) = Some (Some h) \<and> onRead E buf h s = Inr (h', s') \<and>
      om_find (sm_httpMap srv') (of_nat i) = Some (Some h')"
    by (simp add: omap.lookup_assign [OF ok])
  show "om_find (sm_httpMap srv') u = om_find (sm_httpMap srv) u" if "u \<noteq> of_nat i" for u
    using that run(3) by (simp add: omap.lookup_assign [OF ok])
qed (rule server_map_size [OF assms])

theorem server_entries_witness:
  "\<exists>h. om_find (sm_httpMap
     \<lparr>sm_httpMap = [(0, Some \<lparr>hc_uuid = 0, hc_parser = wrapper_reset, hc_sent = []\<rparr>)], conn_uuid_generator = 1\<rparr>) 0 =
       Some (Some h) \<and> hc_uuid h = 0"
proof -
  have "onConnection HttpServer \<lparr>tc_connected = True, tc_context = None\<rparr> =
      Inr (\<lparr>sm_httpMap = [(0, Some \<lparr>hc_uuid = 0, hc_parser = wrapper_reset, hc_sent = []\<rparr>)], conn_uuid_generator = 1\<rparr>,
        \<lparr>tc_connected = True, tc_context = Some 0\<rparr>)"
    by (simp add: onConnection_def HttpServer_def HttpConnection_def any_cast_uuid_def om_empty_def)
  from server_connect [OF this, of http_env_example "[]" world_example]
  have "server_runs http_env_example world_example
      (\<lparr>sm_httpMap = [(0, Some \<lparr>hc_uuid = 0, hc_parser = wrapper_reset, hc_sent = []\<rparr>)], conn_uuid_generator = 1\<rparr>,
       [(\<lparr>tc_connected = True, tc_context = Some 0\<rparr>, [])], world_example)"
    by (auto intro: runs_step [OF runs_start])
  from conjunct1 [OF server_entries [OF this], THEN spec, of 0] show ?thesis by simp
qed

text \<open>C28. Nothing is taken out of the buffer of a connection. So when a connection whose first request was for
  an address of the table sends its next one, both are read together, their addresses become one, and the
  answer is 404 whatever the second request asks for; no handler runs.\<close>

theorem next_request_not_found:
  assumes "server_runs E s0 (srv, conns, s)" "i < length conns" "conns ! i = (conn, render_request r1)" "tc_connected conn"
    and "pipelined [r1, r2]" "request_url r1 \<in> set url_str" "length (render_requests [r1, r2]) < 2 ^ 32"
  shows "\<exists>h p. http_conn_at (of_nat i) srv = Inr h \<and>
    server_step E (srv, conns, s)
      (srv\<lparr>sm_httpMap := om_assign (of_nat i) (Some (h\<lparr>hc_parser := p,
         hc_sent := hc_sent h @ [response_head ''404 OK'' 11 @ not_found_json]\<rparr>)) (sm_httpMap srv)\<rparr>,
       conns[i := (conn, render_request r1 @ render_request r2)], s)"
proof -
  obtain h where h: "tc_context conn = Some (of_nat i)" "http_conn_at (of_nat i) srv = Inr h"
    using server_entry [OF assms(1,2)] assms(3) by auto
  obtain p where "onRead E (render_request r1 @ render_request r2) h s =
      Inr (h\<lparr>hc_parser := p, hc_sent := hc_sent h @ [response_head ''404 OK'' 11 @ not_found_json]\<rparr>, s)"
    using onRead_next_request_not_found [OF assms(5-7)] by blast
  then have "onMessage E conn (render_request r1 @ render_request r2) srv s =
      Inr (srv\<lparr>sm_httpMap := om_assign (of_nat i) (Some (h\<lparr>hc_parser := p,
        hc_sent := hc_sent h @ [response_head ''404 OK'' 11 @ not_found_json]\<rparr>)) (sm_httpMap srv)\<rparr>, s)"
    using h by (simp add: onMessage_def any_cast_uuid_def sbind_run)
  from server_message [OF assms(2,3,4) this] show ?thesis using h(2) by blast
qed

definition md5_request :: request where
  "md5_request = (HTTP_POST, ''/api/md5'', headers_example, ''{}'')"

definition root_request :: request where
  "root_request = (HTTP_GET, ''/'', [], [])"

lemma md5_root_pipelined: "pipelined [md5_request, root_request]"
proof -
  have "request_ok HTTP_POST ''/api/md5'' headers_example ''{}''"
    by (rule request_example) (simp_all add: url_ok_eval)
  then show ?thesis using second_request_ok
    by (simp add: md5_request_def root_request_def headers_example_def connection_header_def TOKEN_table)
qed

text \<open>A run in which the first request has been answered.\<close>

lemma md5_answered:
  "\<exists>srv s. server_runs http_env_example world_example
     (srv, [(\<lparr>tc_connected = True, tc_context = Some 0\<rparr>, render_request md5_request)], s)"
proof -
  let ?c = "\<lparr>tc_connected = True, tc_context = Some 0\<rparr> :: tcp_conn"
  let ?h = "\<lparr>hc_uuid = 0, hc_parser = wrapper_reset, hc_sent = []\<rparr> :: http_conn"
  let ?srv = "\<lparr>sm_httpMap = [(0, Some ?h)], conn_uuid_generator = 1\<rparr>"
  have "onConnection HttpServer \<lparr>tc_connected = True, tc_context = None\<rparr> = Inr (?srv, ?c)"
    by (simp add: onConnection_def HttpServer_def HttpConnection_def any_cast_uuid_def om_empty_def)
  from server_connect [OF this, of http_env_example "[]" world_example]
  have run: "server_runs http_env_example world_example (?srv, [(?c, [])], world_example)"
    by (auto intro: runs_step [OF runs_start])
  have ok: "request_ok HTTP_POST ''/api/md5'' headers_example ''{}''"
    "length (render_head HTTP_POST ''/api/md5'' headers_example @ ''{}'') < 2 ^ 32"
    using md5_root_pipelined by (simp_all add: md5_request_def render_head_def render_header_def headers_example_def)
  obtain p where "onRead http_env_example (render_request md5_request) ?h world_example =
      handle_request http_env_example ''/api/md5'' ''{}'' (?h\<lparr>hc_parser := p\<rparr>) world_example"
    using onRead_request [OF ok, of http_env_example ?h world_example]
    unfolding md5_request_def render_request.simps by blast
  then obtain h' where "onRead http_env_example (render_request md5_request) ?h world_example = Inr (h', world_example)"
    by (auto simp: handle_request_def get_urlid_unfold handleMd5Request_def http_env_example_def respond_def sbind_run)
  then have "onMessage http_env_example ?c ([] @ render_request md5_request) ?srv world_example =
      Inr (?srv\<lparr>sm_httpMap := om_assign 0 (Some h') (sm_httpMap ?srv)\<rparr>, world_example)"
    by (simp add: onMessage_def any_cast_uuid_def http_conn_at_def om_find_def sbind_run)
  from runs_step [OF run server_message [OF _ _ _ this, of 0 "[(?c, [])]"]] show ?thesis by auto
qed

theorem next_request_not_found_witness:
  "\<exists>srv s h p. http_conn_at 0 srv = Inr h \<and>
    server_step http_env_example
      (srv, [(\<lparr>tc_connected = True, tc_context = Some 0\<rparr>, render_request md5_request)], s)
      (srv\<lparr>sm_httpMap := om_assign 0 (Some (h\<lparr>hc_parser := p,
         hc_sent := hc_sent h @ [response_head ''404 OK'' 11 @ not_found_json]\<rparr>)) (sm_httpMap srv)\<rparr>,
       [(\<lparr>tc_connected = True, tc_context = Some 0\<rparr>, render_request md5_request @ render_request root_request)], s)"
proof -
  obtain srv s where run: "server_runs http_env_example world_example
      (srv, [(\<lparr>tc_connected = True, tc_context = Some 0\<rparr>, render_request md5_request)], s)"
    using md5_answered by blast
  have "request_url md5_request \<in> set url_str" "length (render_requests [md5_request, root_request]) < 2 ^ 32"
    by (simp_all add: md5_request_def root_request_def url_str_def render_head_def render_header_def headers_example_def)
  from next_request_not_found [OF run _ _ _ md5_root_pipelined this, of 0]
  obtain h p where "http_conn_at 0 srv = Inr h" "server_step http_env_example
      (srv, [(\<lparr>tc_connected = True, tc_context = Some 0\<rparr>, render_request md5_request)], s)
      (srv\<lparr>sm_httpMap := om_assign 0 (Some (h\<lparr>hc_parser := p,
         hc_sent := hc_sent h @ [response_head ''404 OK'' 11 @ not_found_json]\<rparr>)) (sm_httpMap srv)\<rparr>,
       [(\<lparr>tc_connected = True, tc_context = Some 0\<rparr>, render_request md5_request @ render_request root_request)], s)"
    by auto
  then show ?thesis by (intro exI) (rule conjI)
qed

subsection \<open>The start\<close>

text \<open>Every instance that the configuration names under the key has an entry that fulfils the condition.\<close>

definition instances_built :: "config \<Rightarrow> string \<Rightarrow> (string, 'p) omap \<Rightarrow> (string \<Rightarrow> 'p \<Rightarrow> bool) \<Rightarrow> bool" where
  "instances_built cfg key pools good \<longleftrightarrow>
     (\<exists>inst. GetConfigName cfg key = Inr (Some inst) \<and>
        (\<forall>n \<in> set (split_fields (CHR '','') [] (c_str inst)). \<exists>p. om_find pools n = Some p \<and> good n p))"

lemma start_managers_success:
  assumes "start_managers L path s = Inr (0, s')" "w_db s = None" "w_cache s = None"
    and "CConfigFileReader (w_fs s) (c_str path) = Inr cfg"
  obtains pools caches where "w_db s' = Some pools" "pools_ok pools"
    "instances_built cfg ''DBInstances'' pools (configured_pool cfg)"
    "w_cache s' = Some caches" "cache_ok caches (w_objs s')"
    "instances_built cfg ''CacheInstances'' caches (configured_cache cfg (w_objs s'))"
    "w_dfs_path_client s' = w_dfs_path_client s" "w_web_server_ip s' = w_web_server_ip s"
proof -
  obtain pools e where db: "dbm_init (lib_mysql L) (w_fs s) (c_str path) (w_env s) = Inr (0, pools, e)"
    and rest: "sbind (SetConfPath path) (\<lambda>_. sbind (cache_getInstance L) (\<lambda>_. sbind (sget w_cache) (\<lambda>cache_manager.
          sret (if cache_manager = None then -1 else 0)))) (s\<lparr>w_db_conf := path, w_db := Some pools, w_env := e\<rparr>) =
        Inr (0 :: int, s')"
    using assms(1,2) unfolding start_managers_def
    by (auto simp: sbind_def setConfPath_def db_getInstance_def dbm_getInstance_def elim!: rbind_InrE split: if_splits)
  obtain caches objs e' where cache: "cm_Init (lib_redis L) (w_fs s) path (w_objs s, e) = Inr (0, caches, objs, e')"
    and s': "s' = s\<lparr>w_db_conf := path, w_db := Some pools, w_cache_conf := path, w_cache := Some caches,
      w_objs := objs, w_env := e'\<rparr>"
    using rest assms(3)
    by (auto simp: sbind_def cache_getInstance_def cm_getInstance_def SetConfPath_def elim!: rbind_InrE split: if_splits)
  have "pools_ok pools \<and> instances_built cfg ''DBInstances'' pools (configured_pool cfg)"
    using dbm_init_success [OF db] assms(4) by (auto simp: instances_built_def)
  moreover have "cache_ok caches objs \<and> instances_built cfg ''CacheInstances'' caches (configured_cache cfg objs)"
    using cm_Init_success [OF cache] assms(4) by (auto simp: instances_built_def)
  ultimately show thesis by (intro that) (auto simp: s')
qed

lemma main_start_managers:
  assumes "main_start L arg s = Inr (0, s')" "w_db s = None" "w_cache s = None"
    and "path = (case arg of Some a \<Rightarrow> a | None \<Rightarrow> ''image_host.config'')" "c_str path = path"
  obtains cfg dfs ip pools caches where "CConfigFileReader (w_fs s) path = Inr cfg"
    "GetConfigName cfg ''dfs_path_client'' = Inr (Some dfs)" "w_dfs_path_client s' = c_str dfs"
    "GetConfigName cfg ''storage_web_server_ip'' = Inr (Some ip)" "w_web_server_ip s' = c_str ip"
    "w_db s' = Some pools" "pools_ok pools" "instances_built cfg ''DBInstances'' pools (configured_pool cfg)"
    "w_cache s' = Some caches" "cache_ok caches (w_objs s')"
    "instances_built cfg ''CacheInstances'' caches (configured_cache cfg (w_objs s'))"
proof -
  obtain cfg dfs ip where cfg: "CConfigFileReader (w_fs s) path = Inr cfg"
      "GetConfigName cfg ''dfs_path_client'' = Inr (Some dfs)"
      "GetConfigName cfg ''storage_web_server_ip'' = Inr (Some ip)"
    and rest: "start_managers L path (s\<lparr>w_dfs_path_client := c_str dfs, w_web_server_ip := c_str ip\<rparr>) = Inr (0, s')"
    using assms(1) unfolding main_start_def assms(4) [symmetric] Let_def
    by (auto simp: sbind_def slift_def std_string_def apiUploadInit_def elim!: rbind_InrE split: option.splits)
  from start_managers_success [OF rest] assms(2,3,5) cfg(1) obtain pools caches where
    "w_db s' = Some pools" "pools_ok pools" "instances_built cfg ''DBInstances'' pools (configured_pool cfg)"
    "w_cache s' = Some caches" "cache_ok caches (w_objs s')"
    "instances_built cfg ''CacheInstances'' caches (configured_cache cfg (w_objs s'))"
    "w_dfs_path_client s' = c_str dfs" "w_web_server_ip s' = c_str ip" by auto
  then show thesis using that cfg by blast
qed


definition main_fs_example :: fsys where
  "main_fs_example = \<lparr>fs_files = [''c'' \<mapsto> concat (map (\<lambda>l. l @ [LF])
      [''dfs_path_client=/e'', ''storage_web_server_ip=1'', ''storage_web_server_port=80'',
       ''DBInstances=image_host_slave'', ''image_host_slave_host=h'', ''image_host_slave_port=1'',
       ''image_host_slave_dbname=d'', ''image_host_slave_username=u'', ''image_host_slave_password=p'',
       ''image_host_slave_maxconncnt=2'', ''CacheInstances=token'', ''token_host=h'', ''token_port=1'',
       ''token_db=0'', ''token_maxconncnt=2''])],
     fs_can_write = (\<lambda>_. True), fs_fwrite_ok = (\<lambda>_. True)\<rparr>"

text \<open>The example database answers every query with the password \<open>secret\<close>, and every request carries the
  password \<open>guess\<close>.\<close>

definition main_lib_example :: "(jval, unit) libs" where
  "main_lib_example = \<lparr>
     lib_mysql = quiet_mysql\<lparr>my_store_result := \<lambda>c w. (Some \<lparr>res_fields = [''password''], res_rows = [[Some ''secret'']]\<rparr>, w)\<rparr>,
     lib_redis = up_redis,
     js_parse = (\<lambda>_. Some (JObj [(''pwd'', JStr ''guess''), (''user'', JStr ''u'')])),
     js_member = (\<lambda>v k. Inr (jget k v)), js_isNull = (\<lambda>v. v = JNull),
     js_asString = (\<lambda>v. case v of JStr s \<Rightarrow> Inr s | _ \<Rightarrow> Inl Thrown),
     js_asInt = (\<lambda>_. Inl Thrown), js_fast = (\<lambda>v. []), js_styled = (\<lambda>v. []),
     sys_uuid = (\<lambda>w. (''uuid'', w)), sys_rand = (\<lambda>w. (0, w)), sys_time = (\<lambda>w. (0, w)),
     sys_format_time = (\<lambda>t. []), sys_rename = (\<lambda>a b w. (True, w)), sys_unlink = (\<lambda>f w. (True, w)),
     sys_pipe = (\<lambda>w. (True, w)), sys_fork = (\<lambda>f as w. (True, w)), sys_read = (\<lambda>n w. ([], w))\<rparr>"

definition main_world_example :: "unit world" where
  "main_world_example = \<lparr>w_db = None, w_db_conf = [], w_cache = None, w_cache_conf = [],
     w_objs = objs_example, w_fs = main_fs_example, w_dfs_path_client = [], w_web_server_ip = [], w_env = ()\<rparr>"

definition main_started :: "unit world" where
  "main_started = \<lparr>w_db = Some [(''image_host_slave'', db_pool_example ''image_host_slave'')], w_db_conf = ''c'',
     w_cache = Some [(''token'', cache_pool_example)], w_cache_conf = ''c'',
     w_objs = objs_example, w_fs = main_fs_example, w_dfs_path_client = ''/e'', w_web_server_ip = ''1'', w_env = ()\<rparr>"

lemma main_start_example: "main_start main_lib_example (Some ''c'') main_world_example = Inr (0, main_started)"
proof -
  have "rbind (CConfigFileReader main_fs_example (c_str ''c'')) (\<lambda>cfg. Inr
      (GetConfigName cfg ''dfs_path_client'', GetConfigName cfg ''storage_web_server_ip'',
       GetConfigName cfg ''storage_web_server_port'', GetConfigName cfg ''CacheInstances'',
       GetConfigName cfg (cache_key ''token'' ''_host''),
       GetConfigName cfg (cache_key ''token'' ''_port''), GetConfigName cfg (cache_key ''token'' ''_db''),
       GetConfigName cfg (cache_key ''token'' ''_maxconncnt''))) =
      Inr (Inr (Some ''/e''), Inr (Some ''1''), Inr (Some ''80''), Inr (Some ''token''), Inr (Some ''h''),
       Inr (Some ''1''), Inr (Some ''0''), Inr (Some ''2''))"
    by code_simp
  then obtain cfg where cfg: "CConfigFileReader main_fs_example (c_str ''c'') = Inr cfg"
      "GetConfigName cfg ''dfs_path_client'' = Inr (Some ''/e'')"
      "GetConfigName cfg ''storage_web_server_ip'' = Inr (Some ''1'')"
      "GetConfigName cfg ''storage_web_server_port'' = Inr (Some ''80'')"
      "GetConfigName cfg ''CacheInstances'' = Inr (Some ''token'')"
      "GetConfigName cfg (cache_key ''token'' ''_host'') = Inr (Some ''h'')"
      "GetConfigName cfg (cache_key ''token'' ''_port'') = Inr (Some ''1'')"
      "GetConfigName cfg (cache_key ''token'' ''_db'') = Inr (Some ''0'')"
      "GetConfigName cfg (cache_key ''token'' ''_maxconncnt'') = Inr (Some ''2'')"
    by (auto simp: rbind_eq_Inr_iff)
  have c: "c_str ''c'' = ''c''" "c_str ''/e'' = ''/e''" "c_str ''1'' = ''1''" by (simp_all add: c_str_def)
  have db: "dbm_init (lib_mysql main_lib_example) main_fs_example ''c'' () =
      Inr (0, [(''image_host_slave'', db_pool_example ''image_host_slave'')], ())"
    by code_simp
  have lib: "lib_redis main_lib_example = up_redis" by (simp add: main_lib_example_def)
  note cache = cm_Init_token [OF cfg(1,5-9)]
  show ?thesis
    using cfg(1) [unfolded c]
    by (simp add: main_start_def sbind_def slift_def std_string_def apiUploadInit_def setConfPath_def
        SetConfPath_def db_getInstance_def dbm_getInstance_def cache_getInstance_def cm_getInstance_def
        lib main_world_example_def main_started_def Let_def start_managers_def cfg db cache c)
qed

lemma main_world_empty: "w_db main_world_example = None" "w_cache main_world_example = None"
  by (simp_all add: main_world_example_def)


subsection \<open>From the start on\<close>

text \<open>The runs in which the bytes of no connection are ever a complete request for the md5 handler, which
  is not in the repository.\<close>

inductive runs_without_md5 :: "('v, 'w) http_env \<Rightarrow> 'w world \<Rightarrow> 'w server_state \<Rightarrow> bool"
  for E :: "('v, 'w) http_env" and s0 :: "'w world" where
  quiet_start: "runs_without_md5 E s0 (HttpServer, [], s0)"
| quiet_step: "runs_without_md5 E s0 st \<Longrightarrow> server_step E st st' \<Longrightarrow>
    \<forall>(conn, buf) \<in> set (fst (snd st')). \<not> md5_message buf \<Longrightarrow> runs_without_md5 E s0 st'"

text \<open>What one step, and a run, of the server does to the managers.\<close>

lemma server_step_keeps:
  assumes "server_step E (srv, conns, s) (srv', conns', s')" "cache_good s"
    and "\<forall>(conn, buf) \<in> set conns'. \<not> md5_message buf"
  shows "db_loses s s' \<and> cache_good s' \<and> cache_capacity s' = cache_capacity s"
proof (cases "s' = s")
  case False
  then obtain conn buf where msg: "onMessage E conn buf srv s = Inr (srv', s')" "(conn, buf) \<in> set conns'"
    using assms(1) by (auto simp: set_update_memI elim!: server_stepE)
  then obtain h h' where run: "onRead E buf h s = Inr (h', s')"
    by (auto simp: onMessage_def sbind_eq_Inr_iff sret_def slift_def elim!: rbind_InrE)
  have "\<not> md5_message buf" using assms(3) msg(2) by blast
  from onRead_keeps(1) [OF run this] onRead_keeps(2) [OF run this assms(2)] show ?thesis by blast
qed (use assms(2) in \<open>simp add: reflpD [OF db_loses_order(1)]\<close>)

lemma runs_without_md5_keep:
  assumes "runs_without_md5 E s0 st" "cache_good s0"
  shows "db_loses s0 (snd (snd st)) \<and> cache_good (snd (snd st)) \<and> cache_capacity (snd (snd st)) = cache_capacity s0"
  using assms(1)
proof induction
  case (quiet_step st st')
  obtain srv conns s srv' conns' s' where st: "st = (srv, conns, s)" "st' = (srv', conns', s')"
    by (metis prod_cases3)
  have "db_loses s0 s" "cache_good s" "cache_capacity s = cache_capacity s0"
    using quiet_step.IH st(1) by simp_all
  moreover from this have "db_loses s s'" "cache_good s'" "cache_capacity s' = cache_capacity s"
    using server_step_keeps [OF quiet_step.hyps(2) [unfolded st]] quiet_step.hyps(3) st(2) by simp_all
  ultimately show ?case using transpD [OF db_loses_order(2)] st(2) by simp
qed (use assms(2) in \<open>simp add: reflpD [OF db_loses_order(1)]\<close>)

text \<open>C11. From the start of the program on, in every run of the server whose connections never carry a
  complete request for the md5 handler (which is not in the repository), both managers stay consistent:
  every pool of cache connections and every pool of the database but one can hand out what it could when
  the server started, and that of the read-only database at most that.\<close>

theorem server_keeps_managers:
  assumes "main_start (he_libs E) arg s = Inr (0, s0)" "w_db s = None" "w_cache s = None"
    and "\<forall>path. arg = Some path \<longrightarrow> NUL \<notin> set path"
    and "runs_without_md5 E s0 (srv, conns, s')"
  shows "db_good s' \<and> cache_good s' \<and> cache_capacity s' = cache_capacity s0 \<and>
    (\<forall>n k. db_capacity s0 n = Some k \<longrightarrow>
       (\<exists>k'. db_capacity s' n = Some k' \<and> (if n = ''image_host_slave'' then k' \<le> k else k' = k)))"
proof -
  define path where "path = (case arg of Some a \<Rightarrow> a | None \<Rightarrow> ''image_host.config'')"
  have path: "c_str path = path" using assms(4) by (cases arg) (auto simp: path_def c_str_id)
  have good: "db_good s0" "cache_good s0"
    by (rule main_start_managers [OF assms(1-3) path_def path]; unfold db_good_def cache_good_def; blast)+
  have keep: "db_loses s0 s'" "cache_good s'" "cache_capacity s' = cache_capacity s0"
    using runs_without_md5_keep [OF assms(5) good(2)] by simp_all
  moreover have "db_good s'" using keep(1) good(1) by (simp add: db_loses_def)
  ultimately show ?thesis using db_losesD [OF keep(1) good(1)] by blast
qed

text \<open>In the example run a client connects and logs in, which takes a connection from either manager.\<close>

definition main_env_example :: "(jval, unit) http_env" where
  "main_env_example = \<lparr>he_libs = main_lib_example, he_apiMd5 = \<lambda>_. sret (0, []),
     he_upload = upload_bufs_zero, he_cmd = []\<rparr>"

lemma main_login:
  "\<exists>r s'. apiUserLogin main_lib_example ''{}'' main_started = Inr (r, s') \<and> w_cache s' \<noteq> w_cache main_started"
proof -
  let ?L = main_lib_example
  obtain s0 where s0: "db_take ?L ''image_host_slave'' main_started = Inr (Some (Conn ''image_host_slave'' 0), s0)"
    by (simp add: db_take_def sbind_def db_getInstance_def dbm_getInstance_def db_getConn_def getConn_def
      getConnection_def dp_enter_def dp_pop_def main_started_def db_pool_example_def DBPool_def)
  have "executeQuery (lib_mysql ?L) c q e =
      (Some (ResultSet \<lparr>res_fields = [''password''], res_rows = [[Some ''secret'']]\<rparr>), 1, e)" for c q e
    by (simp add: executeQuery_def run_query_def main_lib_example_def quiet_mysql_def)
  from verifyUserPassword_row [OF s0 this, where p = "''guess''"] db_take_cache [OF s0] obtain s1 where
    s1: "verifyUserPassword ?L ''u'' ''guess'' main_started = Inr (False, s1)"
      "w_cache s1 = Some [(''token'', cache_pool_example)]" "w_objs s1 = objs_example"
    by (auto simp: c_str_def main_started_def)
  let ?s2 = "s1\<lparr>w_cache := Some [(''token'', cache_pool_example\<lparr>cp_free_list := [CcPtr 0 1]\<rparr>)], w_env := ()\<rparr>"
  have set: "cache_call c (cc_SetEx (lib_redis ?L) k t v) ?s2 = Inr (''OK'', ?s2)" for c k t v
    unfolding cc_SetEx_def
    by (rule trans, rule cache_call_connected [where ctx = 0 and reply = "RStatus ''OK''" and e = "()"])
      (simp_all add: s1(3) main_lib_example_def up_redis_def redis_cmd_def reply_bytes_def c_str_def)
  have "setToken ?L ''u'' s1 = Inr ((True, ''uuid''), s1\<lparr>w_cache :=
      Some [(''token'', cache_pool_example\<lparr>cp_free_list := [CcPtr 0 1, CcPtr 0 0]\<rparr>)], w_env := ()\<rparr>)"
    using s1(3) set
    by (simp add: setToken_def with_cache_conn_def sbind_run cache_take_example [OF s1(2)] generateUUID_def env_do_def
        cache_auto_rel_example)
      (simp add: main_lib_example_def c_str_def sbind_run cache_auto_rel_example)
  moreover have "decodeLoginJson ?L data [] [] = Inr (0, ''u'', ''guess'')" for data
    by (simp add: decodeLoginJson_def json_string_def main_lib_example_def)
  ultimately have "\<exists>r. apiUserLogin ?L ''{}'' main_started = Inr (r, s1\<lparr>w_cache :=
      Some [(''token'', cache_pool_example\<lparr>cp_free_list := [CcPtr 0 1, CcPtr 0 0]\<rparr>)], w_env := ()\<rparr>)"
    using s1(1) by (auto simp: apiUserLogin_def sbind_run)
  then show ?thesis by (auto simp: main_started_def cache_pool_example_def CachePool_def)
qed

lemma main_run:
  "\<exists>srv s'. runs_without_md5 main_env_example main_started (srv,
     [(\<lparr>tc_connected = True, tc_context = Some 0\<rparr>, render_head HTTP_POST ''/api/login'' headers_example @ ''{}'')], s') \<and>
   w_cache s' \<noteq> w_cache main_started"
proof -
  let ?c = "\<lparr>tc_connected = True, tc_context = Some 0\<rparr> :: tcp_conn"
  let ?h = "\<lparr>hc_uuid = 0, hc_parser = wrapper_reset, hc_sent = []\<rparr> :: http_conn"
  let ?srv = "\<lparr>sm_httpMap = [(0, Some ?h)], conn_uuid_generator = 1\<rparr>"
  define req where "req = render_head HTTP_POST ''/api/login'' headers_example @ ''{}''"
  obtain p where p: "ParseHttpContent req = Inr p" "hw_url p = ''/api/login''" "body_content p = ''{}''"
      "read_all p" "length req < 2 ^ 32"
    using http_request_example [of "''/api/login''"] unfolding req_def by (auto simp: url_ok_eval)
  have "onConnection HttpServer \<lparr>tc_connected = True, tc_context = None\<rparr> = Inr (?srv, ?c)"
    by (simp add: onConnection_def HttpServer_def HttpConnection_def any_cast_uuid_def om_empty_def)
  note connect = server_connect [OF this, of main_env_example "[]" main_started]
  have "\<not> md5_message []" by code_simp
  with connect have run: "runs_without_md5 main_env_example main_started (?srv, [(?c, [])], main_started)"
    by (auto intro: quiet_step [OF quiet_start])
  obtain r s' where login: "apiUserLogin main_lib_example ''{}'' main_started = Inr (r, s')"
      "w_cache s' \<noteq> w_cache main_started"
    using main_login by blast
  obtain h' where "onRead main_env_example req ?h main_started = Inr (h', s')"
    using p login(1) by (cases r) (auto simp: onRead_def unat_of_nat_32 sbind_run slift_def handle_request_def get_urlid_unfold
      handleLoginRequest_def respond_def main_env_example_def split: prod.splits)
  then have "onMessage main_env_example ?c ([] @ req) ?srv main_started =
      Inr (?srv\<lparr>sm_httpMap := om_assign 0 (Some h') (sm_httpMap ?srv)\<rparr>, s')"
    by (simp add: onMessage_def any_cast_uuid_def http_conn_at_def om_find_def sbind_run)
  note message = server_message [OF _ _ _ this, of 0 "[(?c, [])]"]
  have "\<not> md5_message req" using p by (simp add: md5_message_def unat_of_nat_32)
  with message have "runs_without_md5 main_env_example main_started
      (?srv\<lparr>sm_httpMap := om_assign 0 (Some h') (sm_httpMap ?srv)\<rparr>, [(?c, req)], s')"
    by (auto intro: quiet_step [OF run])
  then show ?thesis unfolding req_def [symmetric] using login(2) by blast
qed

theorem server_keeps_managers_witness:
  "\<exists>srv conns s'. runs_without_md5 main_env_example main_started (srv, conns, s') \<and> length conns = 1 \<and>
     w_cache s' \<noteq> w_cache main_started \<and> db_good s' \<and> cache_good s' \<and> cache_capacity s' ''token'' = Some 2"
proof -
  obtain srv conns s' where run: "runs_without_md5 main_env_example main_started (srv, conns, s')" "length conns = 1"
      "w_cache s' \<noteq> w_cache main_started"
    using main_run by fastforce
  have libs: "he_libs main_env_example = main_lib_example" by (simp add: main_env_example_def)
  have cap: "cache_capacity main_started ''token'' = Some 2"
    by (simp add: cache_capacity_def main_started_def cp_capacity_def cache_pool_example_def CachePool_def MIN_CACHE_CONN_CNT_def)
  show ?thesis
    using server_keeps_managers [OF main_start_example [folded libs] main_world_empty _ run(1)] run cap
    by (intro exI [of _ srv] exI [of _ conns] exI [of _ s']) simp
qed

end
