(* ===== verification/HttpLoop.thy ===== *)
theory HttpLoop
  imports HttpParser
begin

text \<open>
  The loop of \<^verbatim>\<open>http_parser_execute\<close> as the C code has it, with the jump back to the switch
  (\<^verbatim>\<open>goto reexecute_byte\<close>) as a jump: every entry of the switch costs one unit of fuel. Four units for
  each byte are enough, and the result is the one of the two nested recursions of \<open>HttpParser\<close>.
\<close>

section \<open>The loop with jumps\<close>

text \<open>The first argument is \<open>None\<close> at the head of the loop, and the character at hand when the switch is
  reached by the jump. \<open>None\<close> as the result is an exhausted fuel.\<close>

fun jump_loop :: "char option \<Rightarrow> string \<Rightarrow> nat \<Rightarrow> http_exec \<Rightarrow> outcome option" where
  "jump_loop jumped data fuel x =
     (if jumped = None \<and> length data \<le> x_p x then Some (Break x)
      else
        (case fuel of
           0 \<Rightarrow> None
         | Suc n \<Rightarrow>
             (let ch = (case jumped of None \<Rightarrow> data ! x_p x | Some ch \<Rightarrow> ch)
              in case (if jumped = None then count_byte x else Break x) of
                   Break y \<Rightarrow>
                     (case exec_byte (length data) ch y of
                        Break z \<Rightarrow> jump_loop None data n (z\<lparr>x_p := x_p z + 1\<rparr>)
                      | Reexec z \<Rightarrow> jump_loop (Some ch) data n z
                      | r \<Rightarrow> Some r)
                 | r \<Rightarrow> Some r)))"

declare jump_loop.simps [simp del]

section \<open>It stops\<close>

lemma rank_bound: "rank s \<le> 3"
  by (simp add: rank_def split: pstate.split)

text \<open>The rest of the loop behind the code for one byte.\<close>

definition after_byte :: "string \<Rightarrow> outcome \<Rightarrow> outcome" where
  "after_byte data r = (case r of Break y \<Rightarrow> exec_loop data (y\<lparr>x_p := x_p y + 1\<rparr>) | r \<Rightarrow> r)"

lemma after_byte_simps [simp]:
  "after_byte data (Break y) = exec_loop data (y\<lparr>x_p := x_p y + 1\<rparr>)"
  "after_byte data (Error y) = Error y" "after_byte data (Return n y) = Return n y"
  "after_byte data (Fault e) = Fault e"
  by (simp_all add: after_byte_def)

lemma exec_loop_byte:
  "x_p x < length data \<Longrightarrow> exec_loop data x = after_byte data (exec_step (length data) (data ! x_p x) x)"
  by (subst exec_loop.simps) (simp add: after_byte_def)

lemma count_byte_cases:
  obtains y where "count_byte x = Break y" "x_p y = x_p x" "p_state y = p_state x" | y where "count_byte x = Error y"
  by (cases "count_byte x") (auto simp: count_byte_def outcome_defs Let_def split: if_splits)

text \<open>The code of the switch run once, with the fuel for what follows.\<close>

lemma switch_once:
  assumes "x_p x < length data" "4 * (length data - x_p x - 1) + rank (p_state x) \<le> n"
    and head: "\<And>y. 4 * (length data - x_p y) \<le> n \<Longrightarrow> jump_loop None data n y = Some (exec_loop data y)"
    and jump: "\<And>y. x_p y < length data \<Longrightarrow> 4 * (length data - x_p y - 1) + rank (p_state y) < n \<Longrightarrow>
      jump_loop (Some ch) data n y = Some (after_byte data (run_byte (length data) ch y))"
  shows "(case exec_byte (length data) ch x of
       Break z \<Rightarrow> jump_loop None data n (z\<lparr>x_p := x_p z + 1\<rparr>)
     | Reexec z \<Rightarrow> jump_loop (Some ch) data n z
     | r \<Rightarrow> Some r) = Some (after_byte data (run_byte (length data) ch x))"
proof (cases "exec_byte (length data) ch x")
  case (Break z)
  then have "x_p x \<le> x_p z" using exec_byte_p [OF assms(1), of ch] by simp
  then have "jump_loop None data n (z\<lparr>x_p := x_p z + 1\<rparr>) = Some (exec_loop data (z\<lparr>x_p := x_p z + 1\<rparr>))"
    using assms(2) by (intro head) simp
  then show ?thesis using Break by (simp add: run_byte.simps)
next
  case (Reexec z)
  then have "x_p x \<le> x_p z" "x_p z < length data" "rank (p_state z) < rank (p_state x)"
    using exec_byte_p [OF assms(1), of ch] exec_byte_rank by auto
  then show ?thesis using Reexec jump [of z] assms(2) by (simp add: run_byte.simps [of _ _ x])
qed (simp_all add: run_byte.simps)

lemma jump_loop_enough:
  "4 * (length data - x_p x) \<le> n \<Longrightarrow> jump_loop None data n x = Some (exec_loop data x)"
  "x_p x < length data \<Longrightarrow> 4 * (length data - x_p x - 1) + rank (p_state x) < n \<Longrightarrow>
     jump_loop (Some ch) data n x = Some (after_byte data (run_byte (length data) ch x))"
proof (induction n arbitrary: x ch)
  case 0
  {
    case 1
    then show ?case by (simp add: jump_loop.simps exec_loop.simps)
  next
    case 2
    then show ?case by simp
  }
next
  case (Suc n)
  {
    case 1
    show ?case
    proof (cases "length data \<le> x_p x")
      case True
      then show ?thesis by (simp add: jump_loop.simps exec_loop.simps)
    next
      case False
      show ?thesis
      proof (cases x rule: count_byte_cases)
        case (1 y)
        then have "4 * (length data - x_p y - 1) + rank (p_state y) \<le> n"
          using "1.prems" False rank_bound [of "p_state y"] by simp
        then show ?thesis
          using switch_once [of y data n "data ! x_p x"] Suc.IH False 1
          by (simp add: jump_loop.simps exec_loop_byte exec_step_def)
      next
        case (2 y)
        then show ?thesis using False by (simp add: jump_loop.simps exec_loop_byte exec_step_def)
      qed
    qed
  next
    case 2
    then show ?case using switch_once [of x data n ch] Suc.IH by (simp add: jump_loop.simps)
  }
qed

text \<open>C18. The loop of the parser with its jumps back to the switch stops: the switch is entered at most four
  times for each byte of the data, and the outcome is the one of the two nested recursions of the model.\<close>

theorem jump_loop_stops:
  "jump_loop None data (4 * length data) (exec_start parser) = Some (exec_loop data (exec_start parser))"
  by (rule jump_loop_enough) (simp add: exec_start_def http_parser.defs)

end
