(* ===== verification/HttpUrl.thy ===== *)
theory HttpUrl
  imports HttpParser
begin

text \<open>
  The rest of the interface of the HTTP parser (\<^verbatim>\<open>src/http_parser.cc\<close>, \<^verbatim>\<open>src/include/http_parser.h\<close>):
  the parser of addresses, which cuts one into its parts, and the names of errors and methods. An array
  that is given with a length is the memory from its first byte on, which can go on behind that length.
\<close>

section \<open>Names\<close>

primrec http_errno_name :: "http_errno \<Rightarrow> string" where
  "http_errno_name HPE_OK = ''HPE_OK''"
| "http_errno_name HPE_CB_message_begin = ''HPE_CB_message_begin''"
| "http_errno_name HPE_CB_status_complete = ''HPE_CB_status_complete''"
| "http_errno_name HPE_CB_url = ''HPE_CB_url''"
| "http_errno_name HPE_CB_header_field = ''HPE_CB_header_field''"
| "http_errno_name HPE_CB_header_value = ''HPE_CB_header_value''"
| "http_errno_name HPE_CB_headers_complete = ''HPE_CB_headers_complete''"
| "http_errno_name HPE_CB_body = ''HPE_CB_body''"
| "http_errno_name HPE_CB_message_complete = ''HPE_CB_message_complete''"
| "http_errno_name HPE_INVALID_EOF_STATE = ''HPE_INVALID_EOF_STATE''"
| "http_errno_name HPE_HEADER_OVERFLOW = ''HPE_HEADER_OVERFLOW''"
| "http_errno_name HPE_CLOSED_CONNECTION = ''HPE_CLOSED_CONNECTION''"
| "http_errno_name HPE_INVALID_VERSION = ''HPE_INVALID_VERSION''"
| "http_errno_name HPE_INVALID_STATUS = ''HPE_INVALID_STATUS''"
| "http_errno_name HPE_INVALID_METHOD = ''HPE_INVALID_METHOD''"
| "http_errno_name HPE_INVALID_URL = ''HPE_INVALID_URL''"
| "http_errno_name HPE_INVALID_HOST = ''HPE_INVALID_HOST''"
| "http_errno_name HPE_INVALID_PORT = ''HPE_INVALID_PORT''"
| "http_errno_name HPE_INVALID_PATH = ''HPE_INVALID_PATH''"
| "http_errno_name HPE_INVALID_QUERY_STRING = ''HPE_INVALID_QUERY_STRING''"
| "http_errno_name HPE_INVALID_FRAGMENT = ''HPE_INVALID_FRAGMENT''"
| "http_errno_name HPE_LF_EXPECTED = ''HPE_LF_EXPECTED''"
| "http_errno_name HPE_INVALID_HEADER_TOKEN = ''HPE_INVALID_HEADER_TOKEN''"
| "http_errno_name HPE_INVALID_CONTENT_LENGTH = ''HPE_INVALID_CONTENT_LENGTH''"
| "http_errno_name HPE_INVALID_CHUNK_SIZE = ''HPE_INVALID_CHUNK_SIZE''"
| "http_errno_name HPE_INVALID_CONSTANT = ''HPE_INVALID_CONSTANT''"
| "http_errno_name HPE_INVALID_INTERNAL_STATE = ''HPE_INVALID_INTERNAL_STATE''"
| "http_errno_name HPE_STRICT = ''HPE_STRICT''"
| "http_errno_name HPE_PAUSED = ''HPE_PAUSED''"
| "http_errno_name HPE_UNKNOWN = ''HPE_UNKNOWN''"

primrec http_errno_description :: "http_errno \<Rightarrow> string" where
  "http_errno_description HPE_OK = ''success''"
| "http_errno_description HPE_CB_message_begin = ''the on_message_begin callback failed''"
| "http_errno_description HPE_CB_status_complete = ''the on_status_complete callback failed''"
| "http_errno_description HPE_CB_url = ''the on_url callback failed''"
| "http_errno_description HPE_CB_header_field = ''the on_header_field callback failed''"
| "http_errno_description HPE_CB_header_value = ''the on_header_value callback failed''"
| "http_errno_description HPE_CB_headers_complete = ''the on_headers_complete callback failed''"
| "http_errno_description HPE_CB_body = ''the on_body callback failed''"
| "http_errno_description HPE_CB_message_complete = ''the on_message_complete callback failed''"
| "http_errno_description HPE_INVALID_EOF_STATE = ''stream ended at an unexpected time''"
| "http_errno_description HPE_HEADER_OVERFLOW = ''too many header bytes seen; overflow detected''"
| "http_errno_description HPE_CLOSED_CONNECTION = ''data received after completed connection: close message''"
| "http_errno_description HPE_INVALID_VERSION = ''invalid HTTP version''"
| "http_errno_description HPE_INVALID_STATUS = ''invalid HTTP status code''"
| "http_errno_description HPE_INVALID_METHOD = ''invalid HTTP method''"
| "http_errno_description HPE_INVALID_URL = ''invalid URL''"
| "http_errno_description HPE_INVALID_HOST = ''invalid host''"
| "http_errno_description HPE_INVALID_PORT = ''invalid port''"
| "http_errno_description HPE_INVALID_PATH = ''invalid path''"
| "http_errno_description HPE_INVALID_QUERY_STRING = ''invalid query string''"
| "http_errno_description HPE_INVALID_FRAGMENT = ''invalid fragment''"
| "http_errno_description HPE_LF_EXPECTED = ''LF character expected''"
| "http_errno_description HPE_INVALID_HEADER_TOKEN = ''invalid character in header''"
| "http_errno_description HPE_INVALID_CONTENT_LENGTH = ''invalid character in content-length header''"
| "http_errno_description HPE_INVALID_CHUNK_SIZE = ''invalid character in chunk size header''"
| "http_errno_description HPE_INVALID_CONSTANT = ''invalid constant string''"
| "http_errno_description HPE_INVALID_INTERNAL_STATE = ''encountered unexpected internal state''"
| "http_errno_description HPE_STRICT = ''strict mode assertion failed''"
| "http_errno_description HPE_PAUSED = ''parser is paused''"
| "http_errno_description HPE_UNKNOWN = ''an unknown error occurred''"

definition http_method_str :: "http_method \<Rightarrow> string" where
  "http_method_str m = method_string m"

definition http_parser_version :: "64 word" where
  "http_parser_version = 2 * 0x10000 OR 1 * 0x100 OR 0 * 1"

section \<open>The parts of an address\<close>

datatype url_field = UF_SCHEMA | UF_HOST | UF_PORT | UF_PATH | UF_QUERY | UF_FRAGMENT | UF_USERINFO

text \<open>The set of fields is the mask of the bits of its members. The struct belongs to the caller: only
  the mask and the port are set at the start.\<close>

record http_parser_url =
  field_set :: "url_field set"
  url_port :: "16 word"
  field_off :: "url_field \<Rightarrow> 16 word"
  field_len :: "url_field \<Rightarrow> 16 word"

text \<open>A field that begins at a position with one character, and one more character of it.\<close>

definition start_field :: "url_field \<Rightarrow> nat \<Rightarrow> 16 word \<Rightarrow> http_parser_url \<Rightarrow> http_parser_url" where
  "start_field f p n u = u\<lparr>field_off := (field_off u)(f := of_nat p), field_len := (field_len u)(f := n),
     field_set := insert f (field_set u)\<rparr>"

definition grow_field :: "url_field \<Rightarrow> http_parser_url \<Rightarrow> http_parser_url" where
  "grow_field f u = u\<lparr>field_len := (field_len u)(f := field_len u f + 1)\<rparr>"

subsection \<open>The host\<close>

datatype host_state =
    s_http_host_dead | s_http_userinfo_start | s_http_userinfo | s_http_host_start | s_http_host_v6_start
  | s_http_host | s_http_host_v6 | s_http_host_v6_end | s_http_host_port_start | s_http_host_port

definition IS_HEX :: "char \<Rightarrow> bool" where
  "IS_HEX c \<longleftrightarrow> IS_NUM c \<or> 97 \<le> code (LOWER c) \<and> code (LOWER c) \<le> 102"

definition IS_HOST_CHAR :: "char \<Rightarrow> bool" where
  "IS_HOST_CHAR c \<longleftrightarrow> IS_ALPHANUM c \<or> c = CHR ''.'' \<or> c = CHR ''-''"

definition http_parse_host_char :: "host_state \<Rightarrow> char \<Rightarrow> host_state" where
  "http_parse_host_char s ch =
     (case s of
        s_http_userinfo \<Rightarrow>
          (if ch = CHR ''@'' then s_http_host_start else if IS_USERINFO_CHAR ch then s_http_userinfo else s_http_host_dead)
      | s_http_userinfo_start \<Rightarrow>
          (if ch = CHR ''@'' then s_http_host_start else if IS_USERINFO_CHAR ch then s_http_userinfo else s_http_host_dead)
      | s_http_host_start \<Rightarrow>
          (if ch = CHR ''['' then s_http_host_v6_start else if IS_HOST_CHAR ch then s_http_host else s_http_host_dead)
      | s_http_host \<Rightarrow>
          (if IS_HOST_CHAR ch then s_http_host
           else if ch = CHR '':'' then s_http_host_port_start else s_http_host_dead)
      | s_http_host_v6_end \<Rightarrow> (if ch = CHR '':'' then s_http_host_port_start else s_http_host_dead)
      | s_http_host_v6 \<Rightarrow>
          (if ch = CHR '']'' then s_http_host_v6_end
           else if IS_HEX ch \<or> ch = CHR '':'' \<or> ch = CHR ''.'' then s_http_host_v6 else s_http_host_dead)
      | s_http_host_v6_start \<Rightarrow>
          (if IS_HEX ch \<or> ch = CHR '':'' \<or> ch = CHR ''.'' then s_http_host_v6 else s_http_host_dead)
      | s_http_host_port \<Rightarrow> (if IS_NUM ch then s_http_host_port else s_http_host_dead)
      | s_http_host_port_start \<Rightarrow> (if IS_NUM ch then s_http_host_port else s_http_host_dead)
      | s_http_host_dead \<Rightarrow> s_http_host_dead)"

text \<open>What a character adds to the fields; the host was emptied before, and keeps its bit.\<close>

definition host_field :: "host_state \<Rightarrow> host_state \<Rightarrow> nat \<Rightarrow> http_parser_url \<Rightarrow> http_parser_url" where
  "host_field s new_s p u =
     (if new_s = s_http_host \<or> new_s = s_http_host_v6 then
        grow_field UF_HOST (if s \<noteq> new_s then u\<lparr>field_off := (field_off u)(UF_HOST := of_nat p)\<rparr> else u)
      else if new_s = s_http_host_port then
        grow_field UF_PORT (if s \<noteq> new_s then start_field UF_PORT p 0 u else u)
      else if new_s = s_http_userinfo then
        grow_field UF_USERINFO (if s \<noteq> new_s then start_field UF_USERINFO p 0 u else u)
      else u)"

text \<open>The loop from a position to the end; it stops in the dead state when a character does not fit.\<close>

function host_loop :: "string \<Rightarrow> nat \<Rightarrow> nat \<Rightarrow> host_state \<Rightarrow> http_parser_url \<Rightarrow> (host_state \<times> http_parser_url) res" where
  "host_loop buf e p s u =
     (if e \<le> p then Inr (s, u)
      else if length buf \<le> p then Inl OutOfBounds
      else
        (let new_s = http_parse_host_char s (buf ! p)
         in if new_s = s_http_host_dead then Inr (s_http_host_dead, u)
            else host_loop buf e (Suc p) new_s (host_field s new_s p u)))"
  by auto
termination
  by (relation "measure (\<lambda>(buf, e, p, s, u). e - p)") auto

declare host_loop.simps [simp del]

definition host_ends :: "host_state \<Rightarrow> bool" where
  "host_ends s \<longleftrightarrow> s \<notin> {s_http_host_start, s_http_host_v6_start, s_http_host_v6, s_http_host_port_start,
     s_http_userinfo, s_http_userinfo_start}"

text \<open>The result tells whether there was an error.\<close>

definition http_parse_host :: "string \<Rightarrow> bool \<Rightarrow> http_parser_url \<Rightarrow> (bool \<times> http_parser_url) res" where
  "http_parse_host buf found_at u =
     (let off = unat (field_off u UF_HOST); buflen = off + unat (field_len u UF_HOST);
          u = u\<lparr>field_len := (field_len u)(UF_HOST := 0)\<rparr>
      in rbind (host_loop buf buflen off (if found_at then s_http_userinfo_start else s_http_host_start) u)
           (\<lambda>(s, u). Inr (s = s_http_host_dead \<or> \<not> host_ends s, u)))"

subsection \<open>The address\<close>

text \<open>The field a state belongs to; none for a delimiter.\<close>

definition url_state_field :: "pstate \<Rightarrow> url_field option res" where
  "url_state_field s =
     (if s \<in> {s_req_schema_slash, s_req_schema_slash_slash, s_req_server_start, s_req_query_string_start,
        s_req_fragment_start} then Inr None
      else if s = s_req_schema then Inr (Some UF_SCHEMA)
      else if s = s_req_server_with_at \<or> s = s_req_server then Inr (Some UF_HOST)
      else if s = s_req_path then Inr (Some UF_PATH)
      else if s = s_req_query_string then Inr (Some UF_QUERY)
      else if s = s_req_fragment then Inr (Some UF_FRAGMENT)
      else Inl AssertFailed)"

text \<open>The loop over the characters from a position on: the last state, whether an at sign was found, and the
  fields; it stops in the dead state when a character does not fit.\<close>

fun url_loop :: "nat \<Rightarrow> string \<Rightarrow> pstate \<Rightarrow> url_field option \<Rightarrow> bool \<Rightarrow> http_parser_url \<Rightarrow> (pstate \<times> bool \<times> http_parser_url) res" where
  "url_loop p [] s old_uf found_at u = Inr (s, found_at, u)"
| "url_loop p (ch # cs) s old_uf found_at u =
     (let s = parse_url_char s ch
      in if s = s_dead then Inr (s_dead, found_at, u)
         else rbind (url_state_field s) (\<lambda>uf.
           let found_at = (found_at \<or> s = s_req_server_with_at)
           in case uf of
                None \<Rightarrow> url_loop (Suc p) cs s old_uf found_at u
              | Some f \<Rightarrow>
                  (if old_uf = Some f then url_loop (Suc p) cs s old_uf found_at (grow_field f u)
                   else url_loop (Suc p) cs s (Some f) found_at (start_field f p 1 u))))"

text \<open>The digits from a position of the memory on; there must be something else behind them. The value
  saturates.\<close>

definition strtoul_buf :: "string \<Rightarrow> nat \<Rightarrow> nat res" where
  "strtoul_buf buf p =
     (let ds = takeWhile isdigit (drop p buf)
      in if p + length ds < length buf then Inr (min (digits_val 0 ds) (2 ^ 64 - 1)) else Inl OutOfBounds)"

definition http_parser_parse_url :: "string \<Rightarrow> nat \<Rightarrow> bool \<Rightarrow> http_parser_url \<Rightarrow> (bool \<times> http_parser_url) res" where
  "http_parser_parse_url buf buflen is_connect u =
     (let u = u\<lparr>url_port := 0, field_set := {}\<rparr>; s = (if is_connect then s_req_server_start else s_req_spaces_before_url)
      in if length buf < buflen then Inl OutOfBounds
         else rbind (url_loop 0 (take buflen buf) s None False u) (\<lambda>(s, found_at, u).
           if s = s_dead then Inr (True, u)
           else
             rbind (if UF_SCHEMA \<in> field_set u \<or> UF_HOST \<in> field_set u then http_parse_host buf found_at u
                    else Inr (False, u)) (\<lambda>(failed, u).
               if failed then Inr (True, u)
               else if is_connect \<and> field_set u \<noteq> {UF_HOST, UF_PORT} then Inr (True, u)
               else if UF_PORT \<in> field_set u then
                 rbind (strtoul_buf buf (unat (field_off u UF_PORT))) (\<lambda>v.
                   if v > 0xffff then Inr (True, u) else Inr (False, u\<lparr>url_port := of_nat v\<rparr>))
               else Inr (False, u))))"

section \<open>Lemmas\<close>

lemma unat_of_nat_16: "n < 2 ^ 16 \<Longrightarrow> unat (of_nat n :: 16 word) = n"
  by (simp add: unat_of_nat take_bit_eq_mod)

text \<open>A field that ends at a position, not empty.\<close>

definition field_in :: "nat \<Rightarrow> http_parser_url \<Rightarrow> url_field \<Rightarrow> bool" where
  "field_in n u f \<longleftrightarrow> 0 < unat (field_len u f) \<and> unat (field_off u f) + unat (field_len u f) \<le> n"

lemma field_in_mono: "field_in n u f \<Longrightarrow> n \<le> m \<Longrightarrow> field_in m u f"
  by (simp add: field_in_def)

lemma unat_Suc_16: "unat (l :: 16 word) + 1 < 2 ^ 16 \<Longrightarrow> unat (l + 1) = unat l + 1"
  using unat_add_lem [of l 1] by simp

lemma start_field_in:
  assumes "p + 1 < 2 ^ 16"
  shows "field_in (p + 1) (start_field f p 1 u) f" "g \<noteq> f \<Longrightarrow> field_in n (start_field f p 1 u) g = field_in n u g"
  using assms by (simp_all add: field_in_def start_field_def unat_of_nat_16)

lemma grow_field_in:
  assumes "unat (field_off u f) + unat (field_len u f) \<le> p" "p + 1 < 2 ^ 16"
  shows "field_in (p + 1) (grow_field f u) f" "g \<noteq> f \<Longrightarrow> field_in n (grow_field f u) g = field_in n u g"
proof -
  have "unat (field_len u f + 1) = unat (field_len u f) + 1" using assms by (intro unat_Suc_16) simp
  then show "field_in (p + 1) (grow_field f u) f" using assms by (simp add: field_in_def grow_field_def)
qed (simp add: field_in_def grow_field_def)

lemma field_in_bound: "field_in n u f \<Longrightarrow> unat (field_off u f) + unat (field_len u f) \<le> n"
  by (simp add: field_in_def)

lemma field_set_simps [simp]:
  "field_set (start_field f p n u) = insert f (field_set u)" "field_set (grow_field f u) = field_set u"
  by (simp_all add: start_field_def grow_field_def)

lemma url_state_field_url: "parse_url_char s c \<noteq> s_dead \<Longrightarrow> \<exists>uf. url_state_field (parse_url_char s c) = Inr uf"
proof -
  have "parse_server_char c \<in> insert s_dead url_states" "parse_query_char c \<in> insert s_dead url_states"
    by (simp_all add: parse_server_char_def parse_query_char_def url_states_def)
  then have "parse_url_char s c = s_dead \<or> parse_url_char s c \<in> url_states"
    by (cases s) (simp_all add: parse_url_char_def, simp_all add: url_states_def)
  moreover have "s' \<in> url_states \<Longrightarrow> \<exists>uf. url_state_field s' = Inr uf" for s'
    by (auto simp: url_states_def url_state_field_def)
  ultimately show "parse_url_char s c \<noteq> s_dead \<Longrightarrow> \<exists>uf. url_state_field (parse_url_char s c) = Inr uf" by blast
qed

definition url_fields_ok :: "nat \<Rightarrow> url_field option \<Rightarrow> http_parser_url \<Rightarrow> bool" where
  "url_fields_ok n old_uf u \<longleftrightarrow> (\<forall>f \<in> field_set u. field_in n u f) \<and> set_option old_uf \<subseteq> field_set u \<and>
     field_set u \<subseteq> {UF_SCHEMA, UF_HOST, UF_PATH, UF_QUERY, UF_FRAGMENT}"

lemma url_fields_ok_mono: "url_fields_ok n old_uf u \<Longrightarrow> n \<le> m \<Longrightarrow> url_fields_ok m old_uf u"
  unfolding url_fields_ok_def by (meson field_in_mono)

lemma url_loop_ok:
  assumes "url_fields_ok p old_uf u" "p + length cs < 2 ^ 16"
  shows "\<exists>s' found' u'. url_loop p cs s old_uf found_at u = Inr (s', found', u') \<and>
    (\<exists>old. url_fields_ok (p + length cs) old u') \<and> field_set u \<subseteq> field_set u' \<and> (UF_HOST \<notin> field_set u' \<longrightarrow>
       field_off u' UF_HOST = field_off u UF_HOST \<and> field_len u' UF_HOST = field_len u UF_HOST)"
  using assms
proof (induction cs arbitrary: p s old_uf found_at u)
  case Nil
  then show ?case by auto
next
  case (Cons ch cs)
  let ?s = "parse_url_char s ch"
  show ?case
  proof (cases "?s = s_dead")
    case True
    have "url_fields_ok (p + length (ch # cs)) old_uf u" by (rule url_fields_ok_mono [OF Cons.prems(1)]) simp
    then show ?thesis using True by (simp add: Let_def) blast
  next
    case False
    then obtain uf where uf: "url_state_field ?s = Inr uf" using url_state_field_url by blast
    have len: "Suc p + length cs < 2 ^ 16" "p + 1 < 2 ^ 16" using Cons.prems(2) by simp_all
    note ok = Cons.prems(1) [unfolded url_fields_ok_def]
    have host: "uf \<noteq> Some UF_PORT" "uf \<noteq> Some UF_USERINFO"
      using uf by (auto simp: url_state_field_def split: if_splits)
    define found where "found \<longleftrightarrow> found_at \<or> ?s = s_req_server_with_at"
    consider "uf = None" | f where "uf = Some f" "old_uf = Some f" | f where "uf = Some f" "old_uf \<noteq> Some f"
      by (cases uf) auto
    then show ?thesis
    proof cases
      case 1
      have "url_fields_ok (Suc p) old_uf u" by (rule url_fields_ok_mono [OF Cons.prems(1)]) simp
      from Cons.IH [OF this len(1), of ?s found] show ?thesis using False uf 1
        by (simp add: Let_def flip: found_def)
    next
      case (2 f)
      then have "f \<in> field_set u" using ok by auto
      then have f: "unat (field_off u f) + unat (field_len u f) \<le> p" using ok field_in_bound by blast
      have "url_fields_ok (Suc p) (Some f) (grow_field f u)"
        unfolding url_fields_ok_def
      proof (intro conjI ballI)
        fix g assume g: "g \<in> field_set (grow_field f u)"
        show "field_in (Suc p) (grow_field f u) g"
          using grow_field_in [OF f len(2)] g ok by (cases "g = f") (auto intro: field_in_mono)
      qed (use ok \<open>f \<in> field_set u\<close> in auto)
      from Cons.IH [OF this len(1), of ?s found]
      obtain s' found' u' old where step: "url_loop (Suc p) cs ?s (Some f) found (grow_field f u) = Inr (s', found', u')"
        "url_fields_ok (Suc p + length cs) old u'" "field_set u \<subseteq> field_set u'"
        "UF_HOST \<notin> field_set u' \<Longrightarrow> field_off u' UF_HOST = field_off (grow_field f u) UF_HOST \<and>
          field_len u' UF_HOST = field_len (grow_field f u) UF_HOST" by auto
      moreover have "UF_HOST \<notin> field_set u' \<Longrightarrow> f \<noteq> UF_HOST" using step(3) \<open>f \<in> field_set u\<close> by auto
      ultimately show ?thesis using False uf 2
        by (intro exI [of _ s'] exI [of _ found'] exI [of _ u']) (auto simp: Let_def grow_field_def simp flip: found_def)
    next
      case (3 f)
      have "url_fields_ok (Suc p) (Some f) (start_field f p 1 u)"
        unfolding url_fields_ok_def
      proof (intro conjI ballI)
        show "field_set (start_field f p 1 u) \<subseteq> {UF_SCHEMA, UF_HOST, UF_PATH, UF_QUERY, UF_FRAGMENT}"
          using ok 3(1) host by (cases f) auto
        fix g assume g: "g \<in> field_set (start_field f p 1 u)"
        show "field_in (Suc p) (start_field f p 1 u) g"
          using start_field_in [OF len(2)] g ok by (cases "g = f") (auto intro: field_in_mono)
      qed auto
      from Cons.IH [OF this len(1), of ?s found]
      obtain s' found' u' old where step: "url_loop (Suc p) cs ?s (Some f) found (start_field f p 1 u) = Inr (s', found', u')"
        "url_fields_ok (Suc p + length cs) old u'" "insert f (field_set u) \<subseteq> field_set u'"
        "UF_HOST \<notin> field_set u' \<Longrightarrow> field_off u' UF_HOST = field_off (start_field f p 1 u) UF_HOST \<and>
          field_len u' UF_HOST = field_len (start_field f p 1 u) UF_HOST" by auto
      moreover have "UF_HOST \<notin> field_set u' \<Longrightarrow> f \<noteq> UF_HOST" using step(3) by auto
      ultimately show ?thesis using False uf 3
        by (intro exI [of _ s'] exI [of _ found'] exI [of _ u']) (auto simp: Let_def start_field_def simp flip: found_def)
    qed
  qed
qed

definition host_seen :: "host_state \<Rightarrow> bool" where
  "host_seen s \<longleftrightarrow> s \<in> {s_http_host, s_http_host_v6, s_http_host_v6_end, s_http_host_port_start, s_http_host_port}"

definition host_ok :: "nat \<Rightarrow> nat \<Rightarrow> host_state \<Rightarrow> http_parser_url \<Rightarrow> bool" where
  "host_ok n p s u \<longleftrightarrow> (\<forall>f \<in> field_set u - {UF_HOST}. field_in n u f) \<and>
     (if host_seen s then field_in p u UF_HOST else field_len u UF_HOST = 0) \<and>
     (s = s_http_host_port \<longrightarrow> UF_PORT \<in> field_set u \<and> field_in p u UF_PORT) \<and>
     (s = s_http_userinfo \<longrightarrow> UF_USERINFO \<in> field_set u \<and> field_in p u UF_USERINFO)"

lemma host_char_next:
  assumes "http_parse_host_char s c = s'"
  shows "s' = s_http_host \<Longrightarrow> s = s_http_host_start \<or> s = s_http_host"
    "s' = s_http_host_v6 \<Longrightarrow> s = s_http_host_v6_start \<or> s = s_http_host_v6"
    "s' = s_http_host_v6_end \<Longrightarrow> host_seen s" "s' = s_http_host_port_start \<Longrightarrow> host_seen s"
    "s' = s_http_host_port \<Longrightarrow> host_seen s" "s' = s_http_userinfo \<Longrightarrow> \<not> host_seen s"
    "s' = s_http_host_start \<Longrightarrow> \<not> host_seen s" "s' = s_http_host_v6_start \<Longrightarrow> \<not> host_seen s"
    "s' = s_http_userinfo_start \<Longrightarrow> False"
  using assms by (cases s; auto simp: http_parse_host_char_def host_seen_def split: if_splits)+

lemma first_char_in:
  assumes "p + 1 < 2 ^ 16" "unat (field_len u f) = 0" "unat (field_off u f) = p"
  shows "field_in (p + 1) (grow_field f u) f"
  using grow_field_in(1) [of u f p] assms by simp

lemma host_step_ok:
  assumes ok: "host_ok n p s u" and p: "p < n" "n < 2 ^ 16" and s': "http_parse_host_char s c = s'" "s' \<noteq> s_http_host_dead"
  shows "host_ok n (Suc p) s' (host_field s s' p u)"
proof -
  note before = host_char_next [OF s'(1)]
  have len: "p + 1 < 2 ^ 16" using p by simp
  have others: "\<forall>f \<in> field_set u - {UF_HOST}. field_in n u f" using ok by (simp add: host_ok_def)
  have off: "unat (of_nat p :: 16 word) = p" using p by (simp add: unat_of_nat_16)
  have upto: "field_in n v f" if "field_in (Suc p) v f" for v f using that p(1) field_in_mono by (meson Suc_leI)
  have grow: "field_in (Suc p) (grow_field f v) f" if "field_in p v f" for f v
    using grow_field_in(1) [OF field_in_bound [OF that] len] by simp
  have first: "field_in (Suc p) (grow_field f v) f" if "field_len v f = 0" "field_off v f = of_nat p" for f v
    using first_char_in [OF len, of v f] that off by simp
  have keep: "field_in m (grow_field f v) g = field_in m v g" if "g \<noteq> f" for f g m v
    using that by (simp add: field_in_def grow_field_def)
  have skip: "field_in m (v\<lparr>field_off := (field_off v)(f := o1)\<rparr>) g = field_in m v g"
    "field_in m (start_field f q 0 v) g = field_in m v g" if "g \<noteq> f" for f g m v o1 q
    using that by (simp_all add: field_in_def start_field_def)
  have start: "field_len (start_field f q 0 v) f = 0" "field_off (start_field f q 0 v) f = of_nat q" for f q v
    by (simp_all add: start_field_def)
  have more: "field_in (Suc p) v f" if "field_in p v f" for f v using that by (rule field_in_mono) simp
  show ?thesis
  proof (cases s')
    case s_http_host
    have "field_in (Suc p) (host_field s s' p u) UF_HOST"
      using before(1) [OF s_http_host] s_http_host ok
      by (auto simp: host_field_def host_ok_def host_seen_def grow first)
    moreover have "\<forall>f \<in> field_set u - {UF_HOST}. field_in n (host_field s s' p u) f"
      using others s_http_host by (simp add: host_field_def keep skip)
    ultimately show ?thesis using s_http_host by (auto simp: host_ok_def host_field_def host_seen_def)
  next
    case s_http_host_v6
    have "field_in (Suc p) (host_field s s' p u) UF_HOST"
      using before(2) [OF s_http_host_v6] s_http_host_v6 ok
      by (auto simp: host_field_def host_ok_def host_seen_def grow first)
    moreover have "\<forall>f \<in> field_set u - {UF_HOST}. field_in n (host_field s s' p u) f"
      using others s_http_host_v6 by (simp add: host_field_def keep skip)
    ultimately show ?thesis using s_http_host_v6 by (auto simp: host_ok_def host_field_def host_seen_def)
  next
    case s_http_host_port
    have port: "field_in (Suc p) (host_field s s' p u) UF_PORT"
      using s_http_host_port ok by (auto simp: host_field_def host_ok_def start grow first)
    moreover have "field_in (Suc p) (host_field s s' p u) UF_HOST"
      using s_http_host_port ok before(5) by (auto simp: host_field_def host_ok_def keep skip intro!: more)
    moreover have "\<forall>f \<in> field_set u - {UF_HOST, UF_PORT}. field_in n (host_field s s' p u) f"
      using others s_http_host_port by (simp add: host_field_def keep skip)
    ultimately show ?thesis using s_http_host_port ok upto [OF port]
      by (auto simp: host_ok_def host_field_def host_seen_def)
  next
    case s_http_userinfo
    have info: "field_in (Suc p) (host_field s s' p u) UF_USERINFO"
      using s_http_userinfo ok by (auto simp: host_field_def host_ok_def start grow first)
    moreover have "field_len (host_field s s' p u) UF_HOST = 0"
      using s_http_userinfo ok before(6) by (simp add: host_field_def host_ok_def grow_field_def start_field_def)
    moreover have "\<forall>f \<in> field_set u - {UF_HOST, UF_USERINFO}. field_in n (host_field s s' p u) f"
      using others s_http_userinfo by (simp add: host_field_def keep skip)
    ultimately show ?thesis using s_http_userinfo ok upto [OF info]
      by (auto simp: host_ok_def host_field_def host_seen_def)
  qed (use s'(2) before ok more in \<open>auto simp: host_ok_def host_field_def host_seen_def split: if_splits\<close>)
qed

lemma host_loop_ok:
  assumes "host_ok n p s u" "e \<le> n" "n < 2 ^ 16" "e \<le> length buf"
  shows "\<exists>s' u'. host_loop buf e p s u = Inr (s', u') \<and> (s' = s_http_host_dead \<or> host_ok n (max p e) s' u') \<and>
    (UF_HOST \<in> field_set u' \<longleftrightarrow> UF_HOST \<in> field_set u) \<and> (UF_SCHEMA \<in> field_set u' \<longleftrightarrow> UF_SCHEMA \<in> field_set u)"
  using assms
proof (induction buf e p s u rule: host_loop.induct)
  case (1 buf e p s u)
  let ?s = "http_parse_host_char s (buf ! p)"
  show ?case
  proof (cases "e \<le> p")
    case True
    then show ?thesis using "1.prems"(1) by (subst host_loop.simps) (simp add: max_def)
  next
    case False
    then have p: "p < n" "\<not> length buf \<le> p" using "1.prems"(2,4) by simp_all
    show ?thesis
    proof (cases "?s = s_http_host_dead")
      case True
      then show ?thesis using False p(2) by (subst host_loop.simps) simp
    next
      case live: False
      have "host_ok n (Suc p) ?s (host_field s ?s p u)"
        by (rule host_step_ok [OF "1.prems"(1) p(1) "1.prems"(3) refl live])
      note step = "1.IH" [OF False p(2) refl live this "1.prems"(2-4)]
      have "host_loop buf e p s u = host_loop buf e (Suc p) ?s (host_field s ?s p u)"
        using False p(2) live by (subst host_loop.simps) (simp add: Let_def)
      moreover have "max (Suc p) e = max p e" using False by simp
      moreover have "UF_HOST \<in> field_set (host_field s ?s p u) \<longleftrightarrow> UF_HOST \<in> field_set u"
        "UF_SCHEMA \<in> field_set (host_field s ?s p u) \<longleftrightarrow> UF_SCHEMA \<in> field_set u"
        by (simp_all add: host_field_def)
      ultimately show ?thesis using step by simp
    qed
  qed
qed

text \<open>A caller that zeroes the host before gets fields that lie in the address.\<close>

definition host_zero :: "http_parser_url \<Rightarrow> bool" where
  "host_zero u \<longleftrightarrow> field_off u UF_HOST = 0 \<and> field_len u UF_HOST = 0"

lemma http_parse_host_ok:
  assumes "url_fields_ok n old u" "UF_HOST \<notin> field_set u \<Longrightarrow> host_zero u" "n < 2 ^ 16" "n \<le> length buf"
  shows "\<exists>failed u'. http_parse_host buf found_at u = Inr (failed, u') \<and>
    (failed \<or> (\<forall>f \<in> field_set u'. field_in n u' f) \<and> UF_HOST \<in> field_set u')"
proof -
  let ?off = "unat (field_off u UF_HOST)"
  let ?e = "?off + unat (field_len u UF_HOST)"
  let ?s = "if found_at then s_http_userinfo_start else s_http_host_start"
  let ?u = "u\<lparr>field_len := (field_len u)(UF_HOST := 0)\<rparr>"
  have e: "?e \<le> n"
    using assms(1,2) field_in_bound by (cases "UF_HOST \<in> field_set u") (auto simp: url_fields_ok_def host_zero_def)
  have "\<forall>f \<in> field_set u - {UF_HOST}. field_in n u f" using assms(1) by (simp add: url_fields_ok_def)
  then have "host_ok n ?off ?s ?u" by (auto simp: host_ok_def host_seen_def field_in_def)
  from host_loop_ok [OF this e assms(3), of buf] obtain s' u' where
    loop: "host_loop buf ?e ?off ?s ?u = Inr (s', u')" "s' = s_http_host_dead \<or> host_ok n (max ?off ?e) s' u'"
      "UF_HOST \<in> field_set u' \<longleftrightarrow> UF_HOST \<in> field_set u"
    using e assms(4) by auto
  have run: "http_parse_host buf found_at u = Inr (s' = s_http_host_dead \<or> \<not> host_ends s', u')"
    using loop(1) by (simp add: http_parse_host_def Let_def)
  show ?thesis
  proof (cases "s' = s_http_host_dead \<or> \<not> host_ends s'")
    case False
    have "max ?off ?e \<le> n" using e by simp
    moreover have "host_seen s'" using False by (cases s') (simp_all add: host_ends_def host_seen_def)
    ultimately have fields: "\<forall>f \<in> field_set u' - {UF_HOST}. field_in n u' f" "field_in n u' UF_HOST"
      using loop(2) False by (auto simp: host_ok_def elim: field_in_mono)
    have "UF_HOST \<in> field_set u"
    proof (rule ccontr)
      assume "UF_HOST \<notin> field_set u"
      then have "?e \<le> ?off" using assms(2) by (simp add: host_zero_def)
      then have "s' = ?s" using loop(1) by (subst (asm) host_loop.simps) (simp split: if_splits)
      then show False using False by (simp add: host_ends_def split: if_splits)
    qed
    then show ?thesis using run fields loop(3) by auto
  qed (use run in auto)
qed

lemma strtoul_buf_stops:
  assumes "\<not> list_all isdigit (drop p buf)"
  shows "\<exists>v. strtoul_buf buf p = Inr v"
proof -
  have "length (takeWhile isdigit (drop p buf)) < length (drop p buf)"
    using assms by (metis length_takeWhile_le list_all_iff nat_less_le takeWhile_all_iff takeWhile_eq_take take_all_iff order_refl)
  then show ?thesis by (simp add: strtoul_buf_def Let_def)
qed

text \<open>The fields that were found, and the last two steps of the parser.\<close>

definition found_in :: "nat \<Rightarrow> http_parser_url \<Rightarrow> bool" where
  "found_in n u \<longleftrightarrow> (\<forall>f. f \<notin> field_set u \<or> field_in n u f) \<and> (UF_SCHEMA \<notin> field_set u \<or> UF_HOST \<in> field_set u)"

lemma host_part_ok:
  assumes "url_fields_ok buflen old u" "UF_HOST \<notin> field_set u \<Longrightarrow> host_zero u" "buflen < 2 ^ 16" "buflen \<le> length buf"
  obtains failed v where "(if UF_SCHEMA \<in> field_set u \<or> UF_HOST \<in> field_set u then http_parse_host buf found u
    else Inr (False, u)) = Inr (failed, v)" "failed \<or> found_in buflen v"
proof (cases "UF_SCHEMA \<in> field_set u \<or> UF_HOST \<in> field_set u")
  case True
  obtain f v where "http_parse_host buf found u = Inr (f, v)"
      "f \<or> (\<forall>f \<in> field_set v. field_in buflen v f) \<and> UF_HOST \<in> field_set v"
    using http_parse_host_ok [OF assms, of found] by blast
  then show thesis using True that [of f v] by (auto simp: found_in_def)
next
  case False
  then show thesis using assms(1) that [of False u] by (auto simp: found_in_def url_fields_ok_def)
qed

lemma port_part_ok:
  assumes "found_in buflen u" "\<not> list_all isdigit (drop buflen buf)"
  shows "\<exists>failed v. (if UF_PORT \<in> field_set u then
       rbind (strtoul_buf buf (unat (field_off u UF_PORT)))
         (\<lambda>v. if v > 0xffff then Inr (True, u) else Inr (False, u\<lparr>url_port := of_nat v\<rparr>))
     else Inr (False, u)) = Inr (failed, v) \<and> (failed \<or> found_in buflen v)"
proof (cases "UF_PORT \<in> field_set u")
  case True
  then have "unat (field_off u UF_PORT) \<le> buflen" using assms(1) by (auto simp: found_in_def field_in_def)
  then have "drop buflen buf = drop (buflen - unat (field_off u UF_PORT)) (drop (unat (field_off u UF_PORT)) buf)"
    by simp
  then have "\<not> list_all isdigit (drop (unat (field_off u UF_PORT)) buf)"
    using assms(2) by (metis in_set_dropD list_all_iff)
  then obtain v where "strtoul_buf buf (unat (field_off u UF_PORT)) = Inr v" using strtoul_buf_stops by blast
  moreover have "found_in buflen (u\<lparr>url_port := w\<rparr>)" for w using assms(1) by (simp add: found_in_def field_in_def)
  ultimately show ?thesis using True by auto
qed (use assms(1) in auto)

lemma parse_url_fields_found:
  assumes "host_zero u" "buflen < 2 ^ 16" "buflen \<le> length buf" "\<not> list_all isdigit (drop buflen buf)"
  shows "\<exists>failed u'. http_parser_parse_url buf buflen is_connect u = Inr (failed, u') \<and>
    (failed \<or> (\<forall>f. f \<notin> field_set u' \<or> field_in buflen u' f) \<and> (UF_SCHEMA \<notin> field_set u' \<or> UF_HOST \<in> field_set u'))"
proof -
  let ?u = "u\<lparr>url_port := 0, field_set := {}\<rparr>"
  let ?s = "if is_connect then s_req_server_start else s_req_spaces_before_url"
  have "url_fields_ok 0 None ?u" by (simp add: url_fields_ok_def)
  moreover have "0 + length (take buflen buf) < 2 ^ 16" using assms(2) by simp
  ultimately obtain s' found u1 old where loop: "url_loop 0 (take buflen buf) ?s None False ?u = Inr (s', found, u1)"
      "url_fields_ok buflen old u1" "UF_HOST \<notin> field_set u1 \<Longrightarrow> host_zero u1"
    using url_loop_ok [of 0 None ?u "take buflen buf" ?s False] assms(1,3) by (auto simp: host_zero_def)
  obtain failed u2 where host: "(if UF_SCHEMA \<in> field_set u1 \<or> UF_HOST \<in> field_set u1 then http_parse_host buf found u1
      else Inr (False, u1)) = Inr (failed, u2)" "failed \<or> found_in buflen u2"
    using host_part_ok [OF loop(2,3) assms(2,3), of found] by blast
  then show ?thesis
    using assms(3) loop(1) port_part_ok [OF _ assms(4), of u2] unfolding found_in_def
    by (auto simp: http_parser_parse_url_def Let_def)
qed


definition url_zero :: http_parser_url where
  "url_zero = \<lparr>field_set = {}, url_port = 0, field_off = (\<lambda>_. 0), field_len = (\<lambda>_. 0)\<rparr>"

lemmas parse_url_eval = http_parser_parse_url_def parse_url_char_def parse_server_char_def parse_query_char_def
  IS_USERINFO_CHAR_def IS_MARK_def IS_URL_CHAR_code IS_ALPHANUM_def IS_ALPHA_def IS_NUM_def LOWER_def code_def
  url_state_field_def start_field_def grow_field_def http_parse_host_def host_loop.simps http_parse_host_char_def
  IS_HOST_CHAR_def IS_HEX_def host_field_def host_ends_def strtoul_buf_def isdigit_def url_zero_def Let_def insert_commute

lemma parse_url_example:
  "\<exists>u. http_parser_parse_url (''http://u@h:80/p?q'' @ [NUL]) 17 False url_zero = Inr (False, u) \<and> url_port u = 80 \<and>
     field_off u UF_HOST = 9 \<and> field_len u UF_HOST = 1 \<and> field_off u UF_PATH = 13 \<and> field_len u UF_PATH = 2"
  by (simp add: parse_url_eval)

text \<open>With a schema and no host the host is read from the struct as the caller left it: the parser reads
  outside the memory, or takes a part of the path for the host and accepts the address. The number of
  the port is read on behind the end of the address.\<close>

lemma parse_url_reads_unset_host:
  "http_parser_parse_url ''http:///x'' 9 False (url_zero\<lparr>field_off := \<lambda>_. 100, field_len := \<lambda>_. 1\<rparr>) = Inl OutOfBounds"
  by (simp add: parse_url_eval)

lemma parse_url_accepts_unset_host:
  "\<exists>u. http_parser_parse_url (''http:///toto'' @ [NUL]) 12 False (url_zero\<lparr>field_off := \<lambda>_. 8, field_len := \<lambda>_. 4\<rparr>) =
     Inr (False, u) \<and> UF_HOST \<notin> field_set u"
  by (simp add: parse_url_eval)

lemma parse_url_port_past_end:
  "\<exists>u. http_parser_parse_url (''h:80'' @ ''9 '') 4 True url_zero = Inr (False, u) \<and> url_port u = 809 \<and>
     field_off u UF_PORT = 2 \<and> field_len u UF_PORT = 2"
  "http_parser_parse_url ''h:80'' 4 True url_zero = Inl OutOfBounds"
  by (simp_all add: parse_url_eval)

text \<open>C21. An address of less than 64 kilobytes, in memory that goes on with something else than digits,
  parsed into a struct whose host is zero: the parser returns, reads nothing outside, and when it
  accepts the address every part it announces lies in the address and is not empty, and a schema has a
  host. Both conditions are needed: without the first the host is what the caller left in the struct, so
  the parser reads outside, or accepts \<open>http:///toto\<close>, which a comment says will fail; without the
  second the number of the port is read on behind the address, or outside the memory.\<close>

theorem parse_url_fields:
  "(host_zero u \<and> buflen < 2 ^ 16 \<and> buflen \<le> length buf \<and> \<not> list_all isdigit (drop buflen buf) \<longrightarrow>
     (\<exists>failed u'. http_parser_parse_url buf buflen is_connect u = Inr (failed, u') \<and>
       (failed \<or> (\<forall>f. f \<notin> field_set u' \<or> field_in buflen u' f) \<and>
          (UF_SCHEMA \<notin> field_set u' \<or> UF_HOST \<in> field_set u')))) \<and>
   http_parser_parse_url ''http:///x'' 9 False (url_zero\<lparr>field_off := \<lambda>_. 100, field_len := \<lambda>_. 1\<rparr>) = Inl OutOfBounds \<and>
   (\<exists>v. http_parser_parse_url (''http:///toto'' @ [NUL]) 12 False (url_zero\<lparr>field_off := \<lambda>_. 8, field_len := \<lambda>_. 4\<rparr>) =
     Inr (False, v) \<and> UF_HOST \<notin> field_set v) \<and>
   (\<exists>v. http_parser_parse_url (''h:80'' @ ''9 '') 4 True url_zero = Inr (False, v) \<and> url_port v = 809) \<and>
   http_parser_parse_url ''h:80'' 4 True url_zero = Inl OutOfBounds"
proof (intro conjI)
  show "\<exists>v. http_parser_parse_url (''h:80'' @ ''9 '') 4 True url_zero = Inr (False, v) \<and> url_port v = 809"
    using parse_url_port_past_end(1) by blast
qed (use parse_url_fields_found [of u buflen buf is_connect] in blast, rule parse_url_reads_unset_host,
    rule parse_url_accepts_unset_host, rule parse_url_port_past_end(2))

theorem parse_url_fields_witness:
  "\<exists>failed u'. http_parser_parse_url (''http://u@h:80/p?q'' @ [NUL]) 17 False url_zero = Inr (failed, u') \<and>
     (failed \<or> (\<forall>f. f \<notin> field_set u' \<or> field_in 17 u' f) \<and> (UF_SCHEMA \<notin> field_set u' \<or> UF_HOST \<in> field_set u'))"
proof -
  have "host_zero url_zero \<and> (17 :: nat) < 2 ^ 16 \<and> 17 \<le> length (''http://u@h:80/p?q'' @ [NUL]) \<and>
      \<not> list_all isdigit (drop 17 (''http://u@h:80/p?q'' @ [NUL]))"
    by (simp add: host_zero_def url_zero_def isdigit_def code_def)
  with parse_url_fields [of url_zero 17 "''http://u@h:80/p?q'' @ [NUL]" False] show ?thesis by (rule mp [OF conjunct1])
qed

end
