(* ===== verification/Spec2Isabelle.thy ===== *)
theory Spec2Isabelle
  imports Util DbPool CachePool HttpServer HttpSafety HttpLoop HttpPipeline HttpUrl
begin

text \<open>
  The image host is a web server: it parses HTTP requests, finds the handler of their address, and answers
  with JSON from a MySQL database, a redis cache and a FastDFS storage.

  \<^bold>\<open>The program and the theories\<close>

  A request takes this way. \<^verbatim>\<open>main.cc\<close> starts the two managers from the configuration file and runs the
  server (\<open>HttpServer\<close>, for \<^verbatim>\<open>main.cc\<close> and \<^verbatim>\<open>HttpServer.cc\<close>), which keeps one object for each connection.
  When bytes arrive the object (\<open>HttpConn\<close>, for \<^verbatim>\<open>HttpConnection.cc\<close>) gives the whole buffer to the wrapper
  of the parser (\<open>HttpWrapper\<close>, for \<^verbatim>\<open>http_parser_wrapper.cc\<close>), which runs the parser and collects address,
  headers and body from its callbacks. A complete request is looked up by its address (\<open>Url\<close>, for
  \<^verbatim>\<open>url.cc\<close>) and goes to one of the handlers of \<^verbatim>\<open>api/\<close>: \<open>Register\<close>, \<open>Login\<close>, \<open>MyFiles\<close>, \<open>SharePicture\<close> and
  \<open>Upload\<close>, each for the file of its name; \<open>Common\<close> is \<^verbatim>\<open>common.cc\<close>. The handlers take connections from the
  managers and use them.

  The parser itself (\<^verbatim>\<open>http_parser.cc\<close>, \<^verbatim>\<open>http_parser.h\<close>) is \<open>HttpChars\<close> (tables and character classes, the
  automaton of addresses), \<open>HttpParser\<close> (the state, one definition for each group of states of the switch of
  \<^verbatim>\<open>http_parser_execute\<close>, the loop, the end) and \<open>HttpUrl\<close> (names, and \<^verbatim>\<open>http_parser_parse_url\<close>). The record
  \<open>http_parser\<close> is the struct, and \<open>http_exec\<close> adds the local variables of one call: the position, the four
  marks, and the callbacks made, in order. A mark or a position is a number of bytes from the begin of the
  data. The code for one byte ends in an \<open>outcome\<close>: the end of the switch, \<^verbatim>\<open>goto reexecute_byte\<close>,
  \<^verbatim>\<open>goto error\<close>, a return, or a fault.

  The pools are \<open>DbPool\<close> (\<^verbatim>\<open>db_pool.cc\<close>, \<^verbatim>\<open>DBManager.cc\<close>, \<^verbatim>\<open>AutoRelConn.cc\<close>) over the client objects of
  \<open>MySql\<close> (\<^verbatim>\<open>DBConn.cc\<close>, \<^verbatim>\<open>ResultSet.cc\<close>, \<^verbatim>\<open>PrepareStatement.cc\<close>), and \<open>CachePool\<close> over the client object of
  \<open>Redis\<close> (both \<^verbatim>\<open>cache_pool.cc\<close>). Each critical section of a pool is a definition; \<open>PoolSpec\<close> interleaves
  them for any number of threads. \<open>Config\<close> is \<^verbatim>\<open>config_file_reader.cc\<close>, \<open>Util\<close> is \<^verbatim>\<open>util.cc\<close>. \<open>World\<close> is what
  the handlers share: both managers, the connection objects, the files, the rest of the world, and the
  record of the libraries they call. \<open>Prelude\<close>, \<open>CString\<close> and \<open>OrdMap\<close> hold faults and results, the C
  library on characters, and \<^verbatim>\<open>std::map\<close>.

  \<^bold>\<open>How the code is rendered\<close>

  A computation that can fault is a sum: \<open>Inl\<close> a fault (a null pointer, an access out of bounds, a dangling
  pointer, an indeterminate value, a failed assertion), \<open>Inr\<close> a result; a handler also passes the state on.
  An error the code reports is a value. Machine integers that can wrap are words (\<open>p_content_length\<close>,
  \<open>p_nread\<close>, the offsets of an address, the length of a response); the small counters of the parser are
  natural numbers and are proved to stay within their members. Arrays that are not initialised, and the
  answers of servers and libraries, are parameters.

  \<^bold>\<open>Interfaces\<close>

  \<open>std_map\<close> (\<open>OrdMap\<close>) is the map of the managers, interpreted by ordered lists. \<open>conn_pool\<close> (\<open>PoolSpec\<close>) is
  what a pool promises; the safety of every interleaving and the refinement of the pool of tokens are
  proved in it once, and it is interpreted by both pools. \<open>scope_guard\<close> (\<open>World\<close>) is a resource that is
  given back at the end of a scope; it is interpreted by the guards of database and cache connections.

  \<^bold>\<open>What is shown\<close>

  Pools: no connection is held twice, none is lost, their number is bounded, no wake-up of a waiting thread
  is lost (the condition variable is a set of notified threads), and requests leave the capacity of the
  pools as it was, but for the listing of files; so do all runs of the server from the start of the program,
  as long as no connection carries a request for the md5 handler, of which nothing is known (\<open>HttpServer\<close>).
  The program reaches its server only with every pool that its configuration file names. Parser: on every sequence of inputs no assertion fails and no read leaves its array
  (\<open>HttpSafety\<close>); the loop with its jumps stops (\<open>HttpLoop\<close>); header names are recognised exactly, and
  printed requests are announced as they were printed (\<open>HttpRequest\<close>), also when several follow each other,
  because what is done with data does not depend on what stands before it (\<open>HttpPipeline\<close>); the parts of an
  address lie within it (\<open>HttpUrl\<close>). Connections: a request reaches the handler of its address with its
  body, and the next one on the same connection does not (\<open>HttpConn\<close>). Clients and formats: what is written
  is read back (redis values, configuration, percent-encoding, tokens). The remaining properties are the
  exact conditions of misbehaviour: login accepts the wrong passwords (below, from the bytes of the request
  to the answer), registration
  registers nobody, because its statement names a column that the schema does not have, the handler of the
  file list always fails, because its count is no SQL, and the commands of the two handlers that have them
  are compared without ever being read.

  \<^bold>\<open>Fuel and bounds\<close>

  No definition of the model has fuel but \<open>jump_loop\<close>, which is the loop of the parser with jumps: four
  units for each byte are enough, because a state is left by at most three jumps. The requests considered
  have a head of at most 80 kilobytes, the limit of the parser, and a body shorter than 2 to the power 64
  minus 1, the value that stands for an unknown length.

  \<^bold>\<open>Not modelled\<close>

  Logging; \<^verbatim>\<open>md5.cc\<close>, which is not in the repository (the handler is a parameter); the event loop and the
  network library, and the threads of the server (callbacks run one after the other); the storage programs
  that \<^verbatim>\<open>upload.cc\<close> starts, which are calls of a parameter; the answers of the operating system to the
  functions of \<^verbatim>\<open>util.cc\<close>, which are arguments. In the parser, the branches for a callback that fails or pauses: the callbacks of this
  program return 0. The tables are those of strict mode, in which the file is compiled.
\<close>

section \<open>Login, from the bytes to the answer\<close>

text \<open>C5. A client logs in over HTTP: when the password of the request is the stored one, the answer on the
  connection is a failure with no token, and with every other password it is a token that passes the check
  for the user. This is so when the database answers the query for the password with one row, the pool of
  the token store is ready, and its server can be reached and keeps answering.\<close>

theorem login_over_http:
  assumes "request_ok m ''/api/login'' hs body" "length (render_head m ''/api/login'' hs @ body) < 2 ^ 32" "body \<noteq> []"
    and "decodeLoginJson (he_libs E) body [] [] = Inr (0, u, p)"
    and "db_take (he_libs E) ''image_host_slave'' s = Inr (Some d, s0)"
    and "executeQuery (lib_mysql (he_libs E)) d (password_query u) (w_env s0) =
      (Some (ResultSet \<lparr>res_fields = [''password''], res_rows = [[Some stored]]\<rparr>), n, e)"
    and "NUL \<notin> set stored" "NUL \<notin> set u"
    and "pool_ready ''token'' s" "redis_strings (lib_redis (he_libs E)) kv" "redis_answers (lib_redis (he_libs E)) up"
    and "up e" "uuid_keeps (he_libs E) up"
  shows "\<exists>w t s1. onRead E (render_head m ''/api/login'' hs @ body) c s =
      Inr (c\<lparr>hc_parser := w, hc_sent := hc_sent c @
        [http_body (encodeLoginJson (he_libs E) (if p = stored then 1 else 0) t)]\<rparr>, s1) \<and>
    (if p = stored then t = [] else \<exists>s2. VerifyToken (he_libs E) u t s1 = Inr (0, s2))"
proof -
  obtain w where w: "onRead E (render_head m ''/api/login'' hs @ body) c s =
      handle_request E ''/api/login'' body (c\<lparr>hc_parser := w\<rparr>) s"
    using onRead_request [OF assms(1,2), of E c s] by blast
  have respond: "handle_request E ''/api/login'' body (c\<lparr>hc_parser := w\<rparr>) s =
      respond (apiUserLogin (he_libs E) body) (c\<lparr>hc_parser := w\<rparr>) s"
    by (simp add: handle_request_def get_urlid_unfold handleLoginRequest_def)
  show ?thesis
  proof (cases "p = stored")
    case True
    then have "\<exists>s1. apiUserLogin (he_libs E) body s = Inr ((-1, encodeLoginJson (he_libs E) 1 []), s1)"
      using apiUserLogin_right_password [OF assms(3,4,5,6) [folded True]] assms(7) by simp
    then show ?thesis using w respond True by (auto simp: respond_def sbind_run tcp_send_def)
  next
    case False
    then have "c_str stored \<noteq> p" using assms(7) by (simp add: c_str_id)
    from apiUserLogin_accepts_wrong_password [OF assms(3-6) this assms(8-13)] obtain t s1 s2 where
      "apiUserLogin (he_libs E) body s = Inr ((-1, encodeLoginJson (he_libs E) 0 t), s1)"
      "VerifyToken (he_libs E) u t s1 = Inr (0, s2)" by blast
    then show ?thesis using w respond False by (auto simp: respond_def sbind_run tcp_send_def)
  qed
qed

theorem login_over_http_witness:
  "\<exists>w t s1 s2. onRead (http_env_example\<lparr>he_libs := login_lib ''guess''\<rparr>)
      (render_head HTTP_POST ''/api/login'' headers_example @ ''{}'') http_conn_example world_example =
      Inr (http_conn_example\<lparr>hc_parser := w, hc_sent := hc_sent http_conn_example @
        [http_body (encodeLoginJson (login_lib ''guess'') 0 t)]\<rparr>, s1) \<and>
    VerifyToken (login_lib ''guess'') ''u'' t s1 = Inr (0, s2)"
proof -
  let ?E = "http_env_example\<lparr>he_libs := login_lib ''guess''\<rparr>"
  obtain s0 where s0: "db_take (login_lib ''guess'') ''image_host_slave'' world_example =
      Inr (Some (Conn ''image_host_slave'' 0), s0)"
    using db_take_example by blast
  have libs: "he_libs ?E = login_lib ''guess''" "lib_redis (login_lib ''guess'') = mem_redis"
    by (simp_all add: login_lib_def lib_example_def)
  have request: "request_ok HTTP_POST ''/api/login'' headers_example ''{}''"
    "length (render_head HTTP_POST ''/api/login'' headers_example @ ''{}'') < 2 ^ 32"
    by (rule request_example, simp_all add: url_ok_eval) (simp add: render_head_def render_header_def headers_example_def)
  show ?thesis
    using login_over_http [OF request, of ?E "''u''" "''guess''" world_example _ s0 "''secret''" 1 _ fst "\<lambda>_. True" http_conn_example,
        unfolded libs, OF _ login_decode_example s0 login_query_example _ _ world_example_ready mem_redis_strings
        mem_redis_answers _ uuid_keeps_True] by simp
qed

end
